(* ===== verification/Prelude.thy ===== *)
theory Prelude
  imports "HOL-Library.Word"
begin

text \<open>
  The prelude of the development: the machine integer types of the C code, the collections of
  facts the component proofs use, ring buffers read as lists, and the generic facts on lists and
  words that several components share.

  The target is the ESP32-S3, an ILP32 machine: \<open>size_t\<close>, pointers and \<open>unsigned\<close> have 32 bits.
\<close>

unbundle bit_operations_syntax

section \<open>Machine integers\<close>

type_synonym u8 = "8 word"
type_synonym u16 = "16 word"
type_synonym u32 = "32 word"
type_synonym u64 = "64 word"

named_theorems unat_simps \<open>unat of the word expressions the code uses, under their side conditions\<close>
named_theorems inv_intros \<open>operations keep the invariants of their component\<close>

lemma unat_add_small [unat_simps]:
  fixes a b :: u32
  shows "unat a + unat b < 2 ^ 32 \<Longrightarrow> unat (a + b) = unat a + unat b"
  by (simp add: unat_word_ariths)

lemma unat_sub_small [unat_simps]:
  fixes a b :: u32
  shows "unat b \<le> unat a \<Longrightarrow> unat (a - b) = unat a - unat b"
  by (simp add: unat_sub_if_size)

lemma unat_Suc_below:
  fixes a b :: "'a::len word"
  assumes "a < b"
  shows "unat (a + 1) = Suc (unat a)"
proof -
  have "unat a < unat b" using assms by (simp add: word_less_nat_alt)
  moreover have "unat b < 2 ^ LENGTH('a)" by simp
  ultimately have "Suc (unat a) < 2 ^ LENGTH('a)" by linarith
  then show ?thesis by (simp add: unat_word_ariths)
qed

lemma unat_pred_pos:
  fixes a :: "'a::len word"
  assumes "a \<noteq> 0"
  shows "unat (a - 1) = unat a - 1"
  using assms by (metis unat_minus_one)

lemma unat32_of_nat [unat_simps]: "n < 2 ^ 32 \<Longrightarrow> unat (of_nat n :: u32) = n"
  by (simp add: unat_of_nat)

lemma u32_of_unat: "unat (w :: u32) = n \<Longrightarrow> w = of_nat n"
  by auto

lemma of_nat32_eq_0: "n < 2 ^ 32 \<Longrightarrow> (of_nat n :: u32) = 0 \<longleftrightarrow> n = 0"
  using unat32_of_nat[of n] by (cases "n = 0") (auto simp: unat_eq_0)

text \<open>The ring index update \<open>(i + 1U) % N\<close> on the bounded index values of the code.\<close>

lemma unat_ring_next [unat_simps]:
  fixes i n :: u32
  assumes "i < n"
  shows "unat ((i + 1) mod n) = Suc (unat i) mod unat n"
  using unat_Suc_below[OF assms] by (simp add: unat_mod)

text \<open>The same for the rings of 64 slots\<close>

lemma unat_next_64: "unat (i :: u32) < 64 \<Longrightarrow> unat ((i + 1) mod 64) = Suc (unat i) mod 64"
  using unat_ring_next[of i 64] by (simp add: word_less_nat_alt)

lemma unat_count_up: "unat (c :: u32) < 64 \<Longrightarrow> unat (c + 1) = Suc (unat c)"
  by (simp add: unat_simps)

section \<open>Ring buffers read as lists\<close>

text \<open>
  The contents of a ring of \<open>length buf\<close> slots that starts at slot \<open>t\<close> and holds \<open>c\<close> elements.
\<close>

definition ring_list :: "'a list \<Rightarrow> nat \<Rightarrow> nat \<Rightarrow> 'a list" where
  "ring_list buf t c = map (\<lambda>i. buf ! ((t + i) mod length buf)) [0..<c]"

lemma length_ring_list [simp]: "length (ring_list buf t c) = c"
  by (simp add: ring_list_def)

lemma ring_list_0 [simp]: "ring_list buf t 0 = []"
  by (simp add: ring_list_def)

lemma ring_list_eq_Nil [simp]: "ring_list buf t c = [] \<longleftrightarrow> c = 0"
  by (simp add: ring_list_def)

lemma ring_list_nth: "i < c \<Longrightarrow> ring_list buf t c ! i = buf ! ((t + i) mod length buf)"
  by (simp add: ring_list_def)

lemma ring_index_less:
  fixes t i j n :: nat
  assumes "i < j" and "j < n"
  shows "(t + i) mod n \<noteq> (t + j) mod n"
proof
  assume "(t + i) mod n = (t + j) mod n"
  then have "n dvd (t + j) - (t + i)"
    using assms(1) mod_eq_dvd_iff_nat[of "t + i" "t + j" n] by simp
  then have "n dvd j - i" by simp
  then show False using assms nat_dvd_not_less[of "j - i" n] by simp
qed

lemma ring_index_inj:
  fixes t i j n :: nat
  assumes "i < n" and "j < n" and "(t + i) mod n = (t + j) mod n"
  shows "i = j"
  using assms ring_index_less[of i j n t] ring_index_less[of j i n t] by (metis linorder_neqE_nat)

text \<open>Writing the slot after the last element appends; moving the start drops the first.\<close>

lemma ring_list_push:
  assumes "c < length buf"
  shows "ring_list (buf[(t + c) mod length buf := x]) t (Suc c) = ring_list buf t c @ [x]"
proof -
  have "buf[(t + c) mod length buf := x] ! ((t + i) mod length buf) = buf ! ((t + i) mod length buf)"
    if "i < c" for i
    using that assms ring_index_inj[of i "length buf" c t] by (intro nth_list_update_neq) auto
  moreover have "(t + c) mod length buf < length buf" using assms by (intro mod_less_divisor) linarith
  ultimately show ?thesis by (simp add: ring_list_def)
qed

lemma ring_pop_head:
  fixes t c n :: nat
  assumes "0 < c"
  shows "(Suc t mod n + (c - 1)) mod n = (t + c) mod n"
proof -
  have "(Suc t mod n + (c - 1)) mod n = (Suc t + (c - 1)) mod n" by (rule mod_add_left_eq)
  then show ?thesis using assms by simp
qed

lemma ring_list_pop:
  assumes "0 < c"
  shows "ring_list buf t c = buf ! (t mod length buf) # ring_list buf (Suc t mod length buf) (c - 1)"
proof -
  have "[0..<c] = 0 # map Suc [0..<c - 1]"
    using assms by (simp add: map_Suc_upt upt_conv_Cons)
  moreover have "(t + Suc i) mod length buf = (Suc t mod length buf + i) mod length buf" for i
    by (simp add: mod_add_left_eq)
  ultimately show ?thesis by (simp add: ring_list_def)
qed

lemma take_append_take: "take m (xs @ take m ys) = take m (xs @ ys)"
  by (simp add: min_def)

end
