(* ===== verification/C_String.thy ===== *)
theory C_String
  imports Prelude
begin

text \<open>
  The functions of \<^verbatim>\<open>string.h\<close>, \<^verbatim>\<open>ctype.h\<close> and \<^verbatim>\<open>stdio.h\<close> the code calls on character arrays.
  A character array is the list of its cells, a C string is what precedes the first NUL.
\<close>

definition NUL :: char where
  "NUL = CHR 0x00"

definition cstr :: "string \<Rightarrow> string" where
  "cstr s = takeWhile (\<lambda>c. c \<noteq> NUL) s"

definition strncpy :: "string \<Rightarrow> string \<Rightarrow> nat \<Rightarrow> string" where
  "strncpy dst src n =
     (let s = take n (cstr src) in s @ replicate (n - length s) NUL @ drop n dst)"

text \<open>\<open>snprintf(dst, n, "%s", src)\<close>: at most \<open>n - 1\<close> characters and a NUL; the cells after it stay.\<close>

definition snprintf :: "string \<Rightarrow> nat \<Rightarrow> string \<Rightarrow> string" where
  "snprintf dst n src =
     (if n = 0 then dst
      else let s = take (n - 1) (cstr src) in s @ NUL # drop (Suc (length s)) dst)"

text \<open>\<open>strncmp(a, b, n) == 0\<close> and \<open>strcmp(a, b) == 0\<close>\<close>

definition strncmp_eq :: "string \<Rightarrow> string \<Rightarrow> nat \<Rightarrow> bool" where
  "strncmp_eq a b n \<longleftrightarrow> take n (cstr a) = take n (cstr b)"

definition strcmp_eq :: "string \<Rightarrow> string \<Rightarrow> bool" where
  "strcmp_eq a b \<longleftrightarrow> cstr a = cstr b"

text \<open>The decimal digits of \<open>%u\<close>\<close>

fun show_dec :: "nat \<Rightarrow> string" where
  "show_dec n = (if n < 10 then [char_of (48 + n)] else show_dec (n div 10) @ [char_of (48 + n mod 10)])"

declare show_dec.simps [simp del]

lemma cstr_Nil [simp]: "cstr [] = []"
  by (simp add: cstr_def)

lemma cstr_Cons: "cstr (c # s) = (if c = NUL then [] else c # cstr s)"
  by (simp add: cstr_def)

lemma cstr_no_NUL: "NUL \<notin> set (cstr s)"
  by (auto simp: cstr_def dest: set_takeWhileD)

lemma cstr_id: "NUL \<notin> set s \<Longrightarrow> cstr s = s"
  unfolding cstr_def takeWhile_eq_all_conv by metis

lemma cstr_cstr [simp]: "cstr (cstr s) = cstr s"
  by (simp add: cstr_id cstr_no_NUL)

lemma cstr_append_NUL: "NUL \<notin> set s \<Longrightarrow> cstr (s @ NUL # t) = s"
  by (induction s) (auto simp: cstr_def)

lemma length_cstr: "length (cstr s) \<le> length s"
  by (simp add: cstr_def length_takeWhile_le)

lemma length_strncpy: "n \<le> length dst \<Longrightarrow> length (strncpy dst src n) = length dst"
  by (simp add: strncpy_def Let_def)

text \<open>
  A copy of at most \<open>n\<close> characters into an array whose cell \<open>n\<close> is NUL is a terminated string:
  the source, cut to \<open>n\<close> characters.
\<close>

lemma cstr_strncpy:
  assumes "n < length dst" and "dst ! n = NUL"
  shows "cstr (strncpy dst src n) = take n (cstr src)"
proof -
  let ?s = "take n (cstr src)"
  have nn: "NUL \<notin> set ?s" using cstr_no_NUL[of src] by (meson in_set_takeD)
  have "drop n dst = NUL # drop (Suc n) dst" using assms by (metis Cons_nth_drop_Suc)
  then have "replicate (n - length ?s) NUL @ drop n dst
      = NUL # (replicate (n - length ?s) NUL @ drop (Suc n) dst)"
    by (simp add: replicate_app_Cons_same)
  then show ?thesis by (simp only: strncpy_def Let_def cstr_append_NUL[OF nn])
qed

lemma strncpy_last:
  assumes "n < length dst"
  shows "strncpy dst src n ! n = dst ! n"
  using assms by (simp add: strncpy_def Let_def nth_append)

lemma length_snprintf: "n \<le> length dst \<Longrightarrow> length (snprintf dst n src) = length dst"
  by (auto simp: snprintf_def Let_def)

lemma cstr_snprintf: "0 < n \<Longrightarrow> cstr (snprintf dst n src) = take (n - 1) (cstr src)"
  using cstr_no_NUL[of src] by (simp add: snprintf_def Let_def) (metis cstr_append_NUL in_set_takeD)

end
