(* ===== verification/Kernel_Types.thy ===== *)
theory Kernel_Types
  imports C_String
begin

text \<open>
  The types of \<^verbatim>\<open>os/kernel/kernel_types.h\<close>: status codes, lifecycle states, identifiers, events,
  task and application control blocks and the kernel control block. Every C enum is a datatype
  with the enumerators of the source, the trailing \<open>COUNT\<close> included, and an ordinal function
  that gives the value C assigns to each enumerator.
\<close>

section \<open>Configuration constants\<close>

definition MK_MAX_TASKS :: nat where "MK_MAX_TASKS = 8"
definition MK_TASK_NAME_LEN :: nat where "MK_TASK_NAME_LEN = 16"
definition MK_ARENA_SIZE :: u32 where "MK_ARENA_SIZE = 131072"
definition MK_FAULT_RING_SIZE :: u32 where "MK_FAULT_RING_SIZE = 32"
definition MK_EVENT_QUEUE_SIZE :: u32 where "MK_EVENT_QUEUE_SIZE = 64"

section \<open>Enumerations\<close>

datatype mk_status =
    MK_STATUS_OK | MK_STATUS_ERROR | MK_STATUS_INVALID_ARG | MK_STATUS_NO_MEMORY
  | MK_STATUS_INVALID_STATE | MK_STATUS_TIMEOUT | MK_STATUS_NOT_FOUND | MK_STATUS_BUSY
  | MK_STATUS_OVERRUN | MK_STATUS_IO_ERROR | MK_STATUS_CORRUPTED | MK_STATUS_QUEUE_FULL
  | MK_STATUS_QUEUE_EMPTY

datatype mk_kernel_state =
    MK_KERNEL_STATE_RESET | MK_KERNEL_STATE_INIT | MK_KERNEL_STATE_READY
  | MK_KERNEL_STATE_RUNNING | MK_KERNEL_STATE_SLEEPING | MK_KERNEL_STATE_FAULT
  | MK_KERNEL_STATE_SHUTDOWN | MK_KERNEL_STATE_COUNT

fun kernel_state_ord :: "mk_kernel_state \<Rightarrow> nat" where
  "kernel_state_ord MK_KERNEL_STATE_RESET = 0"
| "kernel_state_ord MK_KERNEL_STATE_INIT = 1"
| "kernel_state_ord MK_KERNEL_STATE_READY = 2"
| "kernel_state_ord MK_KERNEL_STATE_RUNNING = 3"
| "kernel_state_ord MK_KERNEL_STATE_SLEEPING = 4"
| "kernel_state_ord MK_KERNEL_STATE_FAULT = 5"
| "kernel_state_ord MK_KERNEL_STATE_SHUTDOWN = 6"
| "kernel_state_ord MK_KERNEL_STATE_COUNT = 7"

datatype mk_task_state =
    MK_TASK_STATE_UNUSED | MK_TASK_STATE_READY | MK_TASK_STATE_RUNNING | MK_TASK_STATE_BLOCKED
  | MK_TASK_STATE_SLEEPING | MK_TASK_STATE_TERMINATED | MK_TASK_STATE_FAULT
  | MK_TASK_STATE_COUNT

fun task_state_ord :: "mk_task_state \<Rightarrow> nat" where
  "task_state_ord MK_TASK_STATE_UNUSED = 0"
| "task_state_ord MK_TASK_STATE_READY = 1"
| "task_state_ord MK_TASK_STATE_RUNNING = 2"
| "task_state_ord MK_TASK_STATE_BLOCKED = 3"
| "task_state_ord MK_TASK_STATE_SLEEPING = 4"
| "task_state_ord MK_TASK_STATE_TERMINATED = 5"
| "task_state_ord MK_TASK_STATE_FAULT = 6"
| "task_state_ord MK_TASK_STATE_COUNT = 7"

datatype mk_app_state =
    MK_APP_STATE_OFF | MK_APP_STATE_INIT | MK_APP_STATE_READY | MK_APP_STATE_ACTIVE
  | MK_APP_STATE_STOPPING | MK_APP_STATE_ERROR | MK_APP_STATE_COUNT

fun app_state_ord :: "mk_app_state \<Rightarrow> nat" where
  "app_state_ord MK_APP_STATE_OFF = 0"
| "app_state_ord MK_APP_STATE_INIT = 1"
| "app_state_ord MK_APP_STATE_READY = 2"
| "app_state_ord MK_APP_STATE_ACTIVE = 3"
| "app_state_ord MK_APP_STATE_STOPPING = 4"
| "app_state_ord MK_APP_STATE_ERROR = 5"
| "app_state_ord MK_APP_STATE_COUNT = 6"

datatype mk_app_id =
    MK_APP_BLE_HID | MK_APP_WIFI_DIAGNOSTICS | MK_APP_NETWORK_DIAGNOSTICS | MK_APP_RETRO_GAMES
  | MK_APP_COUNT

fun app_id_ord :: "mk_app_id \<Rightarrow> nat" where
  "app_id_ord MK_APP_BLE_HID = 0"
| "app_id_ord MK_APP_WIFI_DIAGNOSTICS = 1"
| "app_id_ord MK_APP_NETWORK_DIAGNOSTICS = 2"
| "app_id_ord MK_APP_RETRO_GAMES = 3"
| "app_id_ord MK_APP_COUNT = 4"

text \<open>The cast \<open>(mk_app_id_t)i\<close> of a small integer\<close>

definition app_id_of :: "nat \<Rightarrow> mk_app_id" where
  "app_id_of i =
     (if i = 0 then MK_APP_BLE_HID else if i = 1 then MK_APP_WIFI_DIAGNOSTICS
      else if i = 2 then MK_APP_NETWORK_DIAGNOSTICS else if i = 3 then MK_APP_RETRO_GAMES
      else MK_APP_COUNT)"

datatype mk_event_type =
    MK_EVENT_NONE | MK_EVENT_TIMER | MK_EVENT_GPIO | MK_EVENT_WIFI_FRAME
  | MK_EVENT_BLE_CONNECTED | MK_EVENT_BLE_DISCONNECTED | MK_EVENT_VFS | MK_EVENT_NETWORK
  | MK_EVENT_DISPLAY | MK_EVENT_FAULT | MK_EVENT_COUNT

fun event_type_ord :: "mk_event_type \<Rightarrow> nat" where
  "event_type_ord MK_EVENT_NONE = 0"
| "event_type_ord MK_EVENT_TIMER = 1"
| "event_type_ord MK_EVENT_GPIO = 2"
| "event_type_ord MK_EVENT_WIFI_FRAME = 3"
| "event_type_ord MK_EVENT_BLE_CONNECTED = 4"
| "event_type_ord MK_EVENT_BLE_DISCONNECTED = 5"
| "event_type_ord MK_EVENT_VFS = 6"
| "event_type_ord MK_EVENT_NETWORK = 7"
| "event_type_ord MK_EVENT_DISPLAY = 8"
| "event_type_ord MK_EVENT_FAULT = 9"
| "event_type_ord MK_EVENT_COUNT = 10"

definition MK_TASK_PRIO_HIGHEST :: u8 where "MK_TASK_PRIO_HIGHEST = 0"
definition MK_TASK_PRIO_HIGH :: u8 where "MK_TASK_PRIO_HIGH = 2"
definition MK_TASK_PRIO_MEDIUM :: u8 where "MK_TASK_PRIO_MEDIUM = 4"
definition MK_TASK_PRIO_LOW :: u8 where "MK_TASK_PRIO_LOW = 6"
definition MK_TASK_PRIO_LOWEST :: u8 where "MK_TASK_PRIO_LOWEST = 7"

section \<open>Control blocks\<close>

text \<open>
  A task entry point is a code address. \<open>None\<close> is the NULL function pointer. A \<open>void *\<close>
  context is an address that only the task itself reads.
\<close>

type_synonym mk_task_entry = u32

record mk_tcb =
  tcb_id :: u8
  tcb_state :: mk_task_state
  tcb_priority :: u8
  tcb_padding :: u8
  period_ticks :: u32
  next_run_tick :: u32
  tcb_entry :: "mk_task_entry option"
  tcb_context :: u32
  execution_count :: u32
  fault_count :: u32
  max_execution_us :: u32
  last_execution_us :: u32
  worst_execution_us :: u32
  deadline_miss_count :: u32
  overrun_count :: u32
  tcb_name :: string

record mk_app_control =
  app_id :: mk_app_id
  app_state :: mk_app_state
  app_task_id :: u8
  app_name :: "string option"
  runs_completed :: u32
  error_count :: u32

record mk_event =
  ev_type :: mk_event_type
  ev_timestamp_us :: u32
  ev_source_id :: u32
  ev_param1 :: u32
  ev_param2 :: u32
  ev_payload :: u32

record mk_kernel =
  k_state :: mk_kernel_state
  k_tick :: u32
  k_scheduler_iterations :: u32
  k_active_app :: u8
  k_tasks :: "mk_tcb list"
  k_apps :: "mk_app_control list"

text \<open>The values \<open>memset(_, 0, _)\<close> leaves in each structure\<close>

definition mk_tcb_zero :: mk_tcb where
  "mk_tcb_zero = \<lparr>tcb_id = 0, tcb_state = MK_TASK_STATE_UNUSED, tcb_priority = 0,
     tcb_padding = 0, period_ticks = 0, next_run_tick = 0, tcb_entry = None, tcb_context = 0,
     execution_count = 0, fault_count = 0, max_execution_us = 0, last_execution_us = 0,
     worst_execution_us = 0, deadline_miss_count = 0, overrun_count = 0,
     tcb_name = replicate MK_TASK_NAME_LEN NUL\<rparr>"

definition mk_app_control_zero :: mk_app_control where
  "mk_app_control_zero = \<lparr>app_id = MK_APP_BLE_HID, app_state = MK_APP_STATE_OFF,
     app_task_id = 0, app_name = None, runs_completed = 0, error_count = 0\<rparr>"

definition mk_event_zero :: mk_event where
  "mk_event_zero = \<lparr>ev_type = MK_EVENT_NONE, ev_timestamp_us = 0, ev_source_id = 0,
     ev_param1 = 0, ev_param2 = 0, ev_payload = 0\<rparr>"

definition mk_kernel_zero :: mk_kernel where
  "mk_kernel_zero = \<lparr>k_state = MK_KERNEL_STATE_RESET, k_tick = 0, k_scheduler_iterations = 0,
     k_active_app = 0, k_tasks = replicate MK_MAX_TASKS mk_tcb_zero,
     k_apps = replicate (app_id_ord MK_APP_COUNT) mk_app_control_zero\<rparr>"

end
