(* ===== verification/Fault_Manager.thy ===== *)
theory Fault_Manager
  imports Kernel_Types
begin

text \<open>
  \<^verbatim>\<open>os/kernel/fault_manager.c\<close>: the ring of the 32 latest fault records. The refinement at the end
  reads the ring as the list of the latest records, newest first.
\<close>

section \<open>Types\<close>

datatype mk_fault_source =
    MK_FAULT_SRC_MEMORY | MK_FAULT_SRC_SCHEDULER | MK_FAULT_SRC_STATE | MK_FAULT_SRC_VFS
  | MK_FAULT_SRC_HAL | MK_FAULT_SRC_WIFI | MK_FAULT_SRC_BLE | MK_FAULT_SRC_NETWORK
  | MK_FAULT_SRC_DISPLAY | MK_FAULT_SRC_SYSTEM | MK_FAULT_SRC_COUNT

fun fault_source_ord :: "mk_fault_source \<Rightarrow> nat" where
  "fault_source_ord MK_FAULT_SRC_MEMORY = 0"
| "fault_source_ord MK_FAULT_SRC_SCHEDULER = 1"
| "fault_source_ord MK_FAULT_SRC_STATE = 2"
| "fault_source_ord MK_FAULT_SRC_VFS = 3"
| "fault_source_ord MK_FAULT_SRC_HAL = 4"
| "fault_source_ord MK_FAULT_SRC_WIFI = 5"
| "fault_source_ord MK_FAULT_SRC_BLE = 6"
| "fault_source_ord MK_FAULT_SRC_NETWORK = 7"
| "fault_source_ord MK_FAULT_SRC_DISPLAY = 8"
| "fault_source_ord MK_FAULT_SRC_SYSTEM = 9"
| "fault_source_ord MK_FAULT_SRC_COUNT = 10"

datatype mk_fault_severity =
    MK_FAULT_SEV_INFO | MK_FAULT_SEV_WARNING | MK_FAULT_SEV_RECOVERABLE
  | MK_FAULT_SEV_CRITICAL | MK_FAULT_SEV_PANIC

datatype mk_fault_code =
    MK_FAULT_NONE | MK_FAULT_MEMORY_EXHAUSTED | MK_FAULT_MEMORY_CORRUPTION
  | MK_FAULT_MEMORY_DOUBLE_FREE | MK_FAULT_MEMORY_INVALID_PTR
  | MK_FAULT_STATE_INVALID_TRANSITION | MK_FAULT_TASK_STATE_INVALID
  | MK_FAULT_TASK_REGISTRATION_FAIL | MK_FAULT_SCHEDULER_OVERRUN
  | MK_FAULT_SCHEDULER_DEADLINE_MISS | MK_FAULT_VFS_FAIL | MK_FAULT_VFS_CORRUPTION_RECOVERED
  | MK_FAULT_HAL_FAIL | MK_FAULT_WATCHDOG_EVENT | MK_FAULT_APP_ERROR

text \<open>The severities are ordered as the enumerators of the source.\<close>

fun fault_severity_ord :: "mk_fault_severity \<Rightarrow> nat" where
  "fault_severity_ord MK_FAULT_SEV_INFO = 0"
| "fault_severity_ord MK_FAULT_SEV_WARNING = 1"
| "fault_severity_ord MK_FAULT_SEV_RECOVERABLE = 2"
| "fault_severity_ord MK_FAULT_SEV_CRITICAL = 3"
| "fault_severity_ord MK_FAULT_SEV_PANIC = 4"

instantiation mk_fault_severity :: linorder
begin

definition less_eq_mk_fault_severity :: "mk_fault_severity \<Rightarrow> mk_fault_severity \<Rightarrow> bool" where
  "less_eq_mk_fault_severity a b \<longleftrightarrow> fault_severity_ord a \<le> fault_severity_ord b"

definition less_mk_fault_severity :: "mk_fault_severity \<Rightarrow> mk_fault_severity \<Rightarrow> bool" where
  "less_mk_fault_severity a b \<longleftrightarrow> fault_severity_ord a < fault_severity_ord b"

instance
proof
  fix x y :: mk_fault_severity
  assume "x \<le> y" and "y \<le> x"
  then show "x = y"
    by (cases x; cases y) (simp_all add: less_eq_mk_fault_severity_def)
qed (auto simp: less_eq_mk_fault_severity_def less_mk_fault_severity_def)

end

record mk_fault_record_t =
  fr_fault_id :: u32
  fr_timestamp_ticks :: u32
  fr_fault_code :: mk_fault_code
  fr_source :: mk_fault_source
  fr_severity :: mk_fault_severity
  fr_error_code :: u32
  fr_context :: u32

definition fault_record_zero :: mk_fault_record_t where
  "fault_record_zero = \<lparr>fr_fault_id = 0, fr_timestamp_ticks = 0, fr_fault_code = MK_FAULT_NONE,
     fr_source = MK_FAULT_SRC_MEMORY, fr_severity = MK_FAULT_SEV_INFO, fr_error_code = 0,
     fr_context = 0\<rparr>"

section \<open>State and operations\<close>

record fault_manager =
  fm_ring :: "mk_fault_record_t list"
  fm_write_index :: u32
  fm_total_faults :: u32
  fm_initialized :: bool

text \<open>The statics before any call\<close>

definition fault_manager_static :: fault_manager where
  "fault_manager_static = \<lparr>fm_ring = replicate (unat MK_FAULT_RING_SIZE) fault_record_zero,
     fm_write_index = 0, fm_total_faults = 0, fm_initialized = False\<rparr>"

definition mk_fault_manager_init :: "fault_manager \<Rightarrow> mk_status \<times> fault_manager" where
  "mk_fault_manager_init fm = (MK_STATUS_OK,
     \<lparr>fm_ring = replicate (unat MK_FAULT_RING_SIZE) fault_record_zero,
      fm_write_index = 0, fm_total_faults = 0, fm_initialized = True\<rparr>)"

text \<open>
  The first argument says how the record gets its time stamp: \<open>Some t\<close> in the firmware, where
  \<open>mk_kernel_get_tick()\<close> returns \<open>t\<close>, and \<open>None\<close> in a build with \<^verbatim>\<open>MK_HOST_TEST\<close>, which
  uses the fault counter.
\<close>

definition mk_fault_record_full ::
  "u32 option \<Rightarrow> mk_fault_code \<Rightarrow> mk_fault_source \<Rightarrow> mk_fault_severity \<Rightarrow> u32 \<Rightarrow> u32 \<Rightarrow>
   fault_manager \<Rightarrow> fault_manager" where
  "mk_fault_record_full now code source severity error_code context fm0 =
     (let fm = (if fm_initialized fm0 then fm0 else snd (mk_fault_manager_init fm0));
          current_tick = (case now of None \<Rightarrow> fm_total_faults fm | Some t \<Rightarrow> t);
          total = fm_total_faults fm + 1;
          rec = \<lparr>fr_fault_id = total, fr_timestamp_ticks = current_tick, fr_fault_code = code,
                 fr_source = (if fault_source_ord source < fault_source_ord MK_FAULT_SRC_COUNT
                              then source else MK_FAULT_SRC_SYSTEM),
                 fr_severity = severity, fr_error_code = error_code, fr_context = context\<rparr>
      in fm\<lparr>fm_ring := (fm_ring fm)[unat (fm_write_index fm mod MK_FAULT_RING_SIZE) := rec],
            fm_total_faults := total,
            fm_write_index := (fm_write_index fm + 1) mod MK_FAULT_RING_SIZE\<rparr>)"

text \<open>\<open>mk_fault_record\<close> casts an integer source identifier.\<close>

definition fault_source_of :: "u32 \<Rightarrow> mk_fault_source" where
  "fault_source_of i =
     (if i = 0 then MK_FAULT_SRC_MEMORY else if i = 1 then MK_FAULT_SRC_SCHEDULER
      else if i = 2 then MK_FAULT_SRC_STATE else if i = 3 then MK_FAULT_SRC_VFS
      else if i = 4 then MK_FAULT_SRC_HAL else if i = 5 then MK_FAULT_SRC_WIFI
      else if i = 6 then MK_FAULT_SRC_BLE else if i = 7 then MK_FAULT_SRC_NETWORK
      else if i = 8 then MK_FAULT_SRC_DISPLAY else if i = 9 then MK_FAULT_SRC_SYSTEM
      else MK_FAULT_SRC_COUNT)"

definition mk_fault_record ::
  "u32 option \<Rightarrow> mk_fault_code \<Rightarrow> u32 \<Rightarrow> u32 \<Rightarrow> fault_manager \<Rightarrow> fault_manager" where
  "mk_fault_record now code source_id diag_code fm =
     (let src = (if source_id < of_nat (fault_source_ord MK_FAULT_SRC_COUNT)
                 then fault_source_of source_id else MK_FAULT_SRC_SYSTEM)
      in mk_fault_record_full now code src MK_FAULT_SEV_WARNING diag_code 0 fm)"

definition mk_fault_get_total_count :: "fault_manager \<Rightarrow> u32" where
  "mk_fault_get_total_count fm = fm_total_faults fm"

text \<open>The flag \<open>out\<close> says that the caller's \<open>out_record\<close> pointer is not NULL.\<close>

definition mk_fault_get_latest ::
  "bool \<Rightarrow> fault_manager \<Rightarrow> mk_status \<times> mk_fault_record_t option" where
  "mk_fault_get_latest out fm =
     (if \<not> out \<or> fm_total_faults fm = 0 then (MK_STATUS_NOT_FOUND, None)
      else let last_idx = (if fm_write_index fm = 0 then MK_FAULT_RING_SIZE - 1
                           else fm_write_index fm - 1)
           in (MK_STATUS_OK, Some (fm_ring fm ! unat last_idx)))"

definition mk_fault_get_at ::
  "u32 \<Rightarrow> bool \<Rightarrow> fault_manager \<Rightarrow> mk_status \<times> mk_fault_record_t option" where
  "mk_fault_get_at offset_from_latest out fm =
     (if \<not> out \<or> fm_total_faults fm = 0 then (MK_STATUS_NOT_FOUND, None)
      else let valid_entries = (if fm_total_faults fm < MK_FAULT_RING_SIZE
                                then fm_total_faults fm else MK_FAULT_RING_SIZE)
           in if valid_entries \<le> offset_from_latest then (MK_STATUS_NOT_FOUND, None)
              else let last_idx = (if fm_write_index fm = 0 then MK_FAULT_RING_SIZE - 1
                                   else fm_write_index fm - 1);
                       target_idx = (last_idx + MK_FAULT_RING_SIZE - offset_from_latest)
                                    mod MK_FAULT_RING_SIZE
                   in (MK_STATUS_OK, Some (fm_ring fm ! unat target_idx)))"

fun mk_fault_source_str :: "mk_fault_source \<Rightarrow> string" where
  "mk_fault_source_str MK_FAULT_SRC_MEMORY = ''MEMORY''"
| "mk_fault_source_str MK_FAULT_SRC_SCHEDULER = ''SCHEDULER''"
| "mk_fault_source_str MK_FAULT_SRC_STATE = ''STATE''"
| "mk_fault_source_str MK_FAULT_SRC_VFS = ''VFS''"
| "mk_fault_source_str MK_FAULT_SRC_HAL = ''HAL''"
| "mk_fault_source_str MK_FAULT_SRC_WIFI = ''WIFI''"
| "mk_fault_source_str MK_FAULT_SRC_BLE = ''BLE''"
| "mk_fault_source_str MK_FAULT_SRC_NETWORK = ''NETWORK''"
| "mk_fault_source_str MK_FAULT_SRC_DISPLAY = ''DISPLAY''"
| "mk_fault_source_str MK_FAULT_SRC_SYSTEM = ''SYSTEM''"
| "mk_fault_source_str MK_FAULT_SRC_COUNT = ''UNKNOWN''"

section \<open>Invariant and the log of the latest faults\<close>

definition fault_inv :: "fault_manager \<Rightarrow> bool" where
  "fault_inv fm \<longleftrightarrow> length (fm_ring fm) = 32
     \<and> unat (fm_write_index fm) = unat (fm_total_faults fm) mod 32"

text \<open>The records the ring gives access to, newest first\<close>

definition fault_log :: "fault_manager \<Rightarrow> mk_fault_record_t list" where
  "fault_log fm = map (\<lambda>k. fm_ring fm ! ((unat (fm_write_index fm) + 31 - k) mod 32))
     [0..<min (unat (fm_total_faults fm)) 32]"

text \<open>The record a call of \<open>mk_fault_record_full\<close> stores\<close>

definition new_fault ::
  "u32 option \<Rightarrow> mk_fault_code \<Rightarrow> mk_fault_source \<Rightarrow> mk_fault_severity \<Rightarrow> u32 \<Rightarrow> u32 \<Rightarrow>
   fault_manager \<Rightarrow> mk_fault_record_t" where
  "new_fault now code source severity error_code context fm =
     \<lparr>fr_fault_id = fm_total_faults fm + 1,
      fr_timestamp_ticks = (case now of None \<Rightarrow> fm_total_faults fm | Some t \<Rightarrow> t),
      fr_fault_code = code,
      fr_source = (if source = MK_FAULT_SRC_COUNT then MK_FAULT_SRC_SYSTEM else source),
      fr_severity = severity, fr_error_code = error_code, fr_context = context\<rparr>"

lemma fault_source_valid:
  "fault_source_ord s < 10 \<longleftrightarrow> s \<noteq> MK_FAULT_SRC_COUNT"
  by (cases s) simp_all

lemma fault_inv_init [inv_intros]: "fault_inv (snd (mk_fault_manager_init fm))"
  by (simp add: mk_fault_manager_init_def fault_inv_def MK_FAULT_RING_SIZE_def)

lemma fault_inv_static [inv_intros]: "fault_inv fault_manager_static"
  by (simp add: fault_manager_static_def fault_inv_def MK_FAULT_RING_SIZE_def)

lemma fault_log_empty: "fm_total_faults fm = 0 \<Longrightarrow> fault_log fm = []"
  by (simp add: fault_log_def)

text \<open>The ring update on the natural numbers: 32 divides \<open>2 ^ 32\<close>, so the wrap of the counter
  keeps the write index in step.\<close>

lemma unat_fault_next:
  fixes t w :: u32
  assumes "unat w = unat t mod 32"
  shows "unat ((w + 1) mod 32) = unat (t + 1) mod 32"
proof -
  have w: "w < 32" using assms by (simp add: word_less_nat_alt)
  have "unat ((w + 1) mod 32) = Suc (unat t mod 32) mod 32"
    using unat_ring_next[OF w] assms by simp
  also have "\<dots> = Suc (unat t) mod 32" by (simp add: mod_Suc_eq)
  also have "\<dots> = unat (t + 1) mod 32"
    by (simp add: unat_word_ariths mod_mod_cancel)
  finally show ?thesis .
qed

lemma record_full_ready:
  assumes "fm_initialized fm" and "fault_inv fm"
  shows "mk_fault_record_full now code src sev e c fm =
    fm\<lparr>fm_ring := (fm_ring fm)[unat (fm_write_index fm) := new_fault now code src sev e c fm],
       fm_total_faults := fm_total_faults fm + 1,
       fm_write_index := (fm_write_index fm + 1) mod 32\<rparr>"
proof -
  have "unat (fm_write_index fm mod 32) = unat (fm_write_index fm)"
    using assms(2) by (simp add: fault_inv_def unat_mod)
  then show ?thesis
    using assms(1)
    by (simp add: mk_fault_record_full_def new_fault_def fault_source_valid Let_def
        MK_FAULT_RING_SIZE_def)
qed

lemma fault_inv_record [inv_intros]:
  assumes "fault_inv fm"
  shows "fault_inv (mk_fault_record_full now code src sev e c fm)"
proof -
  have *: "fault_inv (mk_fault_record_full now code src sev e c m)"
    if "fm_initialized m" "fault_inv m" for m
    using that by (simp add: record_full_ready) (simp add: fault_inv_def unat_fault_next)
  have "mk_fault_record_full now code src sev e c fm =
      mk_fault_record_full now code src sev e c (snd (mk_fault_manager_init fm))"
    if "\<not> fm_initialized fm"
    using that by (simp add: mk_fault_record_full_def Let_def mk_fault_manager_init_def)
  then show ?thesis
    using assms * fault_inv_init[of fm]
    by (cases "fm_initialized fm") (auto simp: mk_fault_manager_init_def)
qed

lemma fm_initialized_record [simp]:
  "fm_initialized (mk_fault_record_full now code src sev e c fm)"
  by (simp add: mk_fault_record_full_def Let_def mk_fault_manager_init_def)

lemma fm_total_record:
  "fm_initialized fm \<Longrightarrow>
   fm_total_faults (mk_fault_record_full now code src sev e c fm) = fm_total_faults fm + 1"
  by (simp add: mk_fault_record_full_def Let_def)

lemma length_fault_log: "length (fault_log fm) = min (unat (fm_total_faults fm)) 32"
  by (simp add: fault_log_def)

lemma fault_log_nth:
  "k < length (fault_log fm) \<Longrightarrow>
   fault_log fm ! k = fm_ring fm ! ((unat (fm_write_index fm) + 31 - k) mod 32)"
  by (simp add: fault_log_def)

lemma ring_back_index:
  fixes w k :: nat
  assumes "w < 32" and "k < 32"
  shows "(Suc w mod 32 + 31 - k) mod 32 = (w + 32 - k) mod 32"
proof (cases "w = 31")
  case True
  have "(31 - k + 32) mod 32 = (31 - k) mod 32" by simp
  then show ?thesis using True assms(2) by (simp add: algebra_simps)
next
  case False
  then show ?thesis using assms by (simp add: add.commute)
qed

lemma ring_back_other:
  fixes w j :: nat
  assumes "w < 32" and "Suc j < 32"
  shows "(w + 31 - j) mod 32 \<noteq> w"
proof (cases "w \<le> j")
  case True
  then show ?thesis using assms by simp
next
  case False
  then have "w + 31 - j = (w - Suc j) + 32" using assms by simp
  then have "(w + 31 - j) mod 32 = (w - Suc j) mod 32" by (metis mod_add_self2)
  then show ?thesis using False assms by simp
qed

text \<open>One more record: it becomes the head of the log, and at most 32 stay.\<close>

lemma fault_log_record:
  assumes ini: "fm_initialized fm" and inv: "fault_inv fm"
    and room: "unat (fm_total_faults fm) < 2 ^ 32 - 1"
  shows "fault_log (mk_fault_record_full now code src sev e c fm) =
         take 32 (new_fault now code src sev e c fm # fault_log fm)" (is "fault_log ?m = take 32 (?r # _)")
proof (rule nth_equalityI)
  let ?w = "unat (fm_write_index fm)"
  have w: "?w < 32" and len: "length (fm_ring fm) = 32"
    using inv by (simp_all add: fault_inv_def)
  have m: "?m = fm\<lparr>fm_ring := (fm_ring fm)[?w := ?r], fm_total_faults := fm_total_faults fm + 1,
      fm_write_index := (fm_write_index fm + 1) mod 32\<rparr>"
    using ini inv by (rule record_full_ready)
  have w': "unat (fm_write_index ?m) = Suc ?w mod 32"
    using w by (simp add: m unat_ring_next word_less_nat_alt)
  have t': "unat (fm_total_faults ?m) = Suc (unat (fm_total_faults fm))"
    using room by (simp add: m unat_word_ariths)
  show lens: "length (fault_log ?m) = length (take 32 (?r # fault_log fm))"
    using t' by (simp add: length_fault_log)
  fix k assume k: "k < length (fault_log ?m)"
  then have k32: "k < 32" and kt: "k < Suc (unat (fm_total_faults fm))"
    using t' by (auto simp: length_fault_log)
  have nth: "fault_log ?m ! k = (fm_ring fm)[?w := ?r] ! ((?w + 32 - k) mod 32)"
    using k fault_log_nth[of k ?m] w' ring_back_index[OF w k32] by (simp add: m)
  show "fault_log ?m ! k = take 32 (?r # fault_log fm) ! k"
  proof (cases k)
    case 0
    then show ?thesis using nth w len by simp
  next
    case (Suc j)
    have "(?w + 31 - j) mod 32 \<noteq> ?w" using w k32 Suc ring_back_other by simp
    moreover have "j < length (fault_log fm)" using kt k32 Suc by (simp add: length_fault_log)
    moreover have "?w + 32 - Suc j = ?w + 31 - j" by simp
    ultimately show ?thesis using nth k32 Suc by (simp add: fault_log_nth)
  qed
qed

section \<open>Reading the log\<close>

lemma fault_get_at_log:
  assumes inv: "fault_inv fm" and pos: "fm_total_faults fm \<noteq> 0"
  shows "mk_fault_get_at k True fm =
    (if unat k < length (fault_log fm) then (MK_STATUS_OK, Some (fault_log fm ! unat k))
     else (MK_STATUS_NOT_FOUND, None))"
proof -
  let ?w = "fm_write_index fm" and ?t = "fm_total_faults fm"
  have w: "unat ?w < 32" using inv by (simp add: fault_inv_def)
  have valid: "unat (if ?t < 32 then ?t else 32) = length (fault_log fm)"
    by (simp add: length_fault_log word_less_nat_alt)
  show ?thesis
  proof (cases "unat k < length (fault_log fm)")
    case False
    then have "(if ?t < 32 then ?t else 32) \<le> k" using valid by (simp add: word_le_nat_alt del: if_split)
    then show ?thesis using False pos
      by (auto simp: mk_fault_get_at_def Let_def MK_FAULT_RING_SIZE_def split: if_splits)
  next
    case True
    then have k32: "unat k < 32" by (simp add: length_fault_log)
    have nk: "\<not> (if ?t < 32 then ?t else 32) \<le> k" using True valid by (simp add: word_le_nat_alt del: if_split)
    define last where "last = (if ?w = 0 then (32 :: u32) - 1 else ?w - 1)"
    have l: "unat last = (unat ?w + 31) mod 32"
    proof (cases "?w = 0")
      case False
      then have "0 < unat ?w" by (simp add: unat_gt_0)
      then have "unat ?w + 31 = 32 + (unat ?w - 1)" by simp
      then have "(unat ?w + 31) mod 32 = (unat ?w - 1) mod 32" by (simp only: mod_add_self1)
      then show ?thesis using False w unat_pred_pos[OF False] by (simp add: last_def)
    qed (simp add: last_def)
    have l32: "unat last < 32" using l by simp
    have "unat (last + 32 - k) = unat last + 32 - unat k"
      using l32 k32 by (simp add: unat_add_small unat_sub_small)
    then have "unat ((last + 32 - k) mod 32) = (unat last + 32 - unat k) mod 32" by (simp add: unat_mod)
    also have "\<dots> = ((unat ?w + 31) mod 32 + (32 - unat k)) mod 32" using l k32 by simp
    also have "\<dots> = (unat ?w + 31 + (32 - unat k)) mod 32" by (simp only: mod_add_left_eq)
    also have "unat ?w + 31 + (32 - unat k) = (unat ?w + 31 - unat k) + 32" using k32 by simp
    finally have idx: "unat ((last + 32 - k) mod 32) = (unat ?w + 31 - unat k) mod 32" by simp
    have "mk_fault_get_at k True fm = (MK_STATUS_OK, Some (fm_ring fm ! unat ((last + 32 - k) mod 32)))"
      unfolding mk_fault_get_at_def Let_def MK_FAULT_RING_SIZE_def last_def[symmetric]
      using nk pos by (simp only: simp_thms if_False)
    then show ?thesis using True by (simp add: idx fault_log_nth)
  qed
qed

text \<open>A history of calls of \<open>mk_fault_record_full\<close>, and the records it should leave: numbered from 1\<close>

type_synonym fault_call = "u32 option \<times> mk_fault_code \<times> mk_fault_source \<times> mk_fault_severity \<times> u32 \<times> u32"

fun fault_run :: "fault_call list \<Rightarrow> fault_manager \<Rightarrow> fault_manager" where
  "fault_run [] fm = fm"
| "fault_run ((now, code, src, sev, e, c) # cs) fm = fault_run cs (mk_fault_record_full now code src sev e c fm)"

fun fault_entries :: "nat \<Rightarrow> fault_call list \<Rightarrow> mk_fault_record_t list" where
  "fault_entries n [] = []"
| "fault_entries n ((now, code, src, sev, e, c) # cs) =
     \<lparr>fr_fault_id = of_nat (n + 1), fr_timestamp_ticks = (case now of None \<Rightarrow> of_nat n | Some t \<Rightarrow> t),
      fr_fault_code = code, fr_source = (if src = MK_FAULT_SRC_COUNT then MK_FAULT_SRC_SYSTEM else src),
      fr_severity = sev, fr_error_code = e, fr_context = c\<rparr> # fault_entries (n + 1) cs"

lemma fault_run_log:
  assumes "fm_initialized fm" and "fault_inv fm" and "unat (fm_total_faults fm) + length cs < 2 ^ 32"
  shows "fault_inv (fault_run cs fm) \<and> fm_initialized (fault_run cs fm)
    \<and> unat (fm_total_faults (fault_run cs fm)) = unat (fm_total_faults fm) + length cs
    \<and> fault_log (fault_run cs fm) = take 32 (rev (fault_entries (unat (fm_total_faults fm)) cs) @ fault_log fm)"
  using assms
proof (induction cs arbitrary: fm)
  case Nil
  then show ?case by (simp add: length_fault_log)
next
  case (Cons c cs)
  obtain now code src sev e x where c: "c = (now, code, src, sev, e, x)" by (cases c) auto
  let ?m = "mk_fault_record_full now code src sev e x fm"
  have t: "unat (fm_total_faults ?m) = unat (fm_total_faults fm) + 1"
    using Cons.prems by (simp add: fm_total_record unat_add_small)
  define h where "h = new_fault now code src sev e x fm"
  define es where "es = fault_entries (unat (fm_total_faults fm) + 1) cs"
  have hs: "fault_entries (unat (fm_total_faults fm)) (c # cs) = h # es"
    by (simp add: c h_def es_def new_fault_def split: option.split)
  have l: "fault_log ?m = take 32 (h # fault_log fm)"
    unfolding h_def using Cons.prems by (intro fault_log_record) simp_all
  have run: "fault_run (c # cs) fm = fault_run cs ?m" by (simp add: c)
  have "fault_log (fault_run cs ?m) = take 32 (rev es @ take 32 (h # fault_log fm))"
    using Cons.IH[of ?m] Cons.prems fault_inv_record[OF Cons.prems(2)] t unfolding l es_def by simp
  then show ?case
    using Cons.IH[of ?m] Cons.prems fault_inv_record[OF Cons.prems(2)] t
    unfolding run hs take_append_take by simp
qed

text \<open>C34. After any history of fewer than \<open>2 ^ 32\<close> faults since initialisation,
  \<open>mk_fault_get_at\<close> returns the record of the \<open>k\<close>-th latest call, with its arguments and its
  number, for the 32 latest calls, and NOT_FOUND for older ones.\<close>

theorem fault_history_readable:
  assumes "length cs < 2 ^ 32"
  shows "mk_fault_get_at k True (fault_run cs (snd (mk_fault_manager_init fm))) =
    (if unat k < min 32 (length cs) then (MK_STATUS_OK, Some (rev (fault_entries 0 cs) ! unat k))
     else (MK_STATUS_NOT_FOUND, None))"
proof -
  let ?i = "snd (mk_fault_manager_init fm)"
  have i: "fm_initialized ?i" "fm_total_faults ?i = 0" by (simp_all add: mk_fault_manager_init_def)
  note r = fault_run_log[OF i(1) fault_inv_init, of cs] 
  have n: "length (fault_entries m cs) = length cs" for m by (induction m cs rule: fault_entries.induct) auto
  have log: "fault_log (fault_run cs ?i) = take 32 (rev (fault_entries 0 cs))"
    and inv: "fault_inv (fault_run cs ?i)" and t: "unat (fm_total_faults (fault_run cs ?i)) = length cs"
    using r assms i(2) by (simp_all add: fault_log_empty)
  show ?thesis
  proof (cases "cs = []")
    case True
    then show ?thesis using i(2) by (simp add: mk_fault_get_at_def)
  next
    case False
    then have "fm_total_faults (fault_run cs ?i) \<noteq> 0" using t by auto
    from fault_get_at_log[OF inv this] show ?thesis by (simp add: log n min.commute)
  qed
qed

theorem fault_history_readable_witness:
  "mk_fault_get_at 1 True (fault_run [(Some 5, MK_FAULT_HAL_FAIL, MK_FAULT_SRC_HAL, MK_FAULT_SEV_CRITICAL, 7, 8),
      (Some 9, MK_FAULT_APP_ERROR, MK_FAULT_SRC_BLE, MK_FAULT_SEV_INFO, 1, 2)] (snd (mk_fault_manager_init fault_manager_static)))
   = (MK_STATUS_OK, Some \<lparr>fr_fault_id = 1, fr_timestamp_ticks = 5, fr_fault_code = MK_FAULT_HAL_FAIL,
        fr_source = MK_FAULT_SRC_HAL, fr_severity = MK_FAULT_SEV_CRITICAL, fr_error_code = 7, fr_context = 8\<rparr>)"
  by (subst fault_history_readable) simp_all

end
