(* ===== verification/Memory_Manager.thy ===== *)
theory Memory_Manager
  imports Fault_Manager
begin

text \<open>
  \<^verbatim>\<open>os/kernel/memory_manager.c\<close>: the first-fit allocator over the static arena of 128 KB.

  Memory is a map from byte addresses to the 32-bit word stored there; the code reads and writes
  whole header fields, which are words at addresses divisible by 4. A pointer is its 32-bit
  address, NULL is 0, and the address the linker gives \<open>s_arena_buffer\<close> is a field of the state.
  On the ILP32 target a block header \<open>mk_mem_block_t\<close> takes 24 bytes: magic, size, prev, next,
  is_free and padding at offsets 0, 4, 8, 12, 16 and 20.
\<close>

section \<open>State\<close>

definition MK_BLOCK_MAGIC_ALLOC :: u32 where "MK_BLOCK_MAGIC_ALLOC = 0x55AA55AA"
definition MK_BLOCK_MAGIC_FREE :: u32 where "MK_BLOCK_MAGIC_FREE = 0xAA55AA55"
definition MK_ALIGN :: "u32 \<Rightarrow> u32" where "MK_ALIGN x = (x + (8 - 1)) AND NOT (8 - 1)"
definition MK_MIN_PAYLOAD :: u32 where "MK_MIN_PAYLOAD = 8"
definition sizeof_mem_block :: u32 where "sizeof_mem_block = 24"

record mk_mem_stats =
  total_capacity :: u32
  used_bytes :: u32
  free_bytes :: u32
  peak_used_bytes :: u32
  allocation_count :: u32
  free_count :: u32
  failed_allocations :: u32
  corruption_count :: u32
  double_free_attempts :: u32
  invalid_ptr_attempts :: u32

definition mem_stats_zero :: mk_mem_stats where
  "mem_stats_zero = \<lparr>total_capacity = 0, used_bytes = 0, free_bytes = 0, peak_used_bytes = 0,
     allocation_count = 0, free_count = 0, failed_allocations = 0, corruption_count = 0,
     double_free_attempts = 0, invalid_ptr_attempts = 0\<rparr>"

record memory =
  mm_arena :: u32
  mm_mem :: "nat \<Rightarrow> u32"
  mm_head :: u32
  mm_initialized :: bool
  mm_stats :: mk_mem_stats

text \<open>Header fields: \<open>fld m b k\<close> reads the word at offset \<open>k\<close> of block \<open>b\<close>, \<open>put_fld\<close> writes it.\<close>

definition fld :: "(nat \<Rightarrow> u32) \<Rightarrow> u32 \<Rightarrow> nat \<Rightarrow> u32" where
  "fld m b k = m (unat b + k)"

definition put_fld :: "u32 \<Rightarrow> nat \<Rightarrow> u32 \<Rightarrow> (nat \<Rightarrow> u32) \<Rightarrow> (nat \<Rightarrow> u32)" where
  "put_fld b k v m = m(unat b + k := v)"

abbreviation (input) magic_off :: nat where "magic_off \<equiv> 0"
abbreviation (input) size_off :: nat where "size_off \<equiv> 4"
abbreviation (input) prev_off :: nat where "prev_off \<equiv> 8"
abbreviation (input) next_off :: nat where "next_off \<equiv> 12"
abbreviation (input) is_free_off :: nat where "is_free_off \<equiv> 16"
abbreviation (input) padding_off :: nat where "padding_off \<equiv> 20"

section \<open>Operations\<close>

definition mk_memory_init :: "memory \<Rightarrow> mk_status \<times> memory" where
  "mk_memory_init s =
     (let cap = MK_ARENA_SIZE - sizeof_mem_block;
          h = mm_arena s;
          m1 = put_fld h magic_off MK_BLOCK_MAGIC_FREE (mm_mem s);
          m2 = put_fld h size_off cap m1;
          m3 = put_fld h prev_off 0 m2;
          m4 = put_fld h next_off 0 m3;
          m5 = put_fld h is_free_off 1 m4;
          m6 = put_fld h padding_off 0 m5
      in (MK_STATUS_OK,
          s\<lparr>mm_mem := m6, mm_head := h, mm_initialized := True,
            mm_stats := mem_stats_zero\<lparr>total_capacity := cap, free_bytes := fld m6 h size_off\<rparr>\<rparr>))"

definition mk_memory_reset :: "memory \<Rightarrow> memory" where
  "mk_memory_reset s = snd (mk_memory_init s)"

text \<open>The first-fit traversal: it follows \<open>next\<close> until a block fits, a header is corrupted or the
  list ends. \<open>None\<close> is a traversal that never returns.\<close>

datatype search = Found u32 | Corrupt u32 | Exhausted

partial_function (option) first_fit :: "(nat \<Rightarrow> u32) \<Rightarrow> u32 \<Rightarrow> u32 \<Rightarrow> search option" where
  "first_fit m aligned_size cur =
     (if cur = 0 then Some Exhausted
      else if fld m cur magic_off \<noteq> MK_BLOCK_MAGIC_FREE \<and> fld m cur magic_off \<noteq> MK_BLOCK_MAGIC_ALLOC
      then Some (Corrupt cur)
      else if fld m cur is_free_off \<noteq> 0 \<and> aligned_size \<le> fld m cur size_off
      then Some (Found cur)
      else first_fit m aligned_size (fld m cur next_off))"

text \<open>Splitting the block found, when the excess holds a header and a minimal payload\<close>

definition split_block :: "u32 \<Rightarrow> u32 \<Rightarrow> (nat \<Rightarrow> u32) \<Rightarrow> (nat \<Rightarrow> u32)" where
  "split_block cur aligned_size m =
     (let excess = fld m cur size_off - aligned_size
      in if sizeof_mem_block + MK_MIN_PAYLOAD \<le> excess
         then let new_block = cur + sizeof_mem_block + aligned_size;
                  m1 = put_fld new_block magic_off MK_BLOCK_MAGIC_FREE m;
                  m2 = put_fld new_block size_off (excess - sizeof_mem_block) m1;
                  m3 = put_fld new_block is_free_off 1 m2;
                  m4 = put_fld new_block padding_off 0 m3;
                  m5 = put_fld new_block prev_off cur m4;
                  m6 = put_fld new_block next_off (fld m5 cur next_off) m5;
                  m7 = (if fld m6 cur next_off \<noteq> 0
                        then put_fld (fld m6 cur next_off) prev_off new_block m6 else m6);
                  m8 = put_fld cur next_off new_block m7
              in put_fld cur size_off aligned_size m8
         else m)"

definition my_malloc ::
  "u32 option \<Rightarrow> u32 \<Rightarrow> memory \<times> fault_manager \<Rightarrow> (u32 \<times> memory \<times> fault_manager) option" where
  "my_malloc now req s0 =
     (case s0 of (s1, fm) \<Rightarrow>
      let (ist, s) = (if mm_initialized s1 then (MK_STATUS_OK, s1) else mk_memory_init s1);
          st = mm_stats s
      in if ist \<noteq> MK_STATUS_OK then Some (0, s, fm)
         else if req = 0 \<or> MK_ARENA_SIZE - sizeof_mem_block < req
         then Some (0, s\<lparr>mm_stats := st\<lparr>failed_allocations := failed_allocations st + 1\<rparr>\<rparr>, fm)
         else
           let aligned_size = MK_ALIGN req
           in case first_fit (mm_mem s) aligned_size (mm_head s) of
                None \<Rightarrow> None
              | Some (Corrupt cur) \<Rightarrow>
                  Some (0, s\<lparr>mm_stats := st\<lparr>corruption_count := corruption_count st + 1,
                                           failed_allocations := failed_allocations st + 1\<rparr>\<rparr>,
                        mk_fault_record_full now MK_FAULT_MEMORY_CORRUPTION MK_FAULT_SRC_MEMORY
                          MK_FAULT_SEV_CRITICAL 0xBAD00001 cur fm)
              | Some (Found cur) \<Rightarrow>
                  (let m1 = split_block cur aligned_size (mm_mem s);
                       m2 = put_fld cur magic_off MK_BLOCK_MAGIC_ALLOC m1;
                       m3 = put_fld cur is_free_off 0 m2;
                       sz = fld m3 cur size_off;
                       used = used_bytes st + sz
                   in Some (cur + sizeof_mem_block,
                        s\<lparr>mm_mem := m3,
                          mm_stats := st\<lparr>used_bytes := used,
                            free_bytes := (if sz + sizeof_mem_block \<le> free_bytes st
                                           then free_bytes st - sz else 0),
                            peak_used_bytes := (if peak_used_bytes st < used
                                                then used else peak_used_bytes st),
                            allocation_count := allocation_count st + 1\<rparr>\<rparr>, fm))
              | Some Exhausted \<Rightarrow>
                  Some (0, s\<lparr>mm_stats := st\<lparr>failed_allocations := failed_allocations st + 1\<rparr>\<rparr>,
                        mk_fault_record_full now MK_FAULT_MEMORY_EXHAUSTED MK_FAULT_SRC_MEMORY
                          MK_FAULT_SEV_WARNING aligned_size 0 fm))"

text \<open>The two coalescing steps at the end of \<open>my_free\<close>\<close>

definition coalesce_forward :: "u32 \<Rightarrow> (nat \<Rightarrow> u32) \<times> mk_mem_stats \<Rightarrow> (nat \<Rightarrow> u32) \<times> mk_mem_stats" where
  "coalesce_forward block ms =
     (case ms of (m, st) \<Rightarrow>
      let next_block = fld m block next_off
      in if next_block \<noteq> 0 \<and> fld m next_block is_free_off \<noteq> 0
         then let m1 = put_fld block size_off
                         (fld m block size_off + (sizeof_mem_block + fld m next_block size_off)) m;
                  m2 = put_fld block next_off (fld m1 next_block next_off) m1;
                  m3 = (if fld m2 next_block next_off \<noteq> 0
                        then put_fld (fld m2 next_block next_off) prev_off block m2 else m2)
              in (m3, st\<lparr>free_bytes := free_bytes st + sizeof_mem_block\<rparr>)
         else (m, st))"

definition coalesce_backward :: "u32 \<Rightarrow> (nat \<Rightarrow> u32) \<times> mk_mem_stats \<Rightarrow> (nat \<Rightarrow> u32) \<times> mk_mem_stats" where
  "coalesce_backward block ms =
     (case ms of (m, st) \<Rightarrow>
      let prev_block = fld m block prev_off
      in if prev_block \<noteq> 0 \<and> fld m prev_block is_free_off \<noteq> 0
         then let m1 = put_fld prev_block size_off
                         (fld m prev_block size_off + (sizeof_mem_block + fld m block size_off)) m;
                  m2 = put_fld prev_block next_off (fld m1 block next_off) m1;
                  m3 = (if fld m2 block next_off \<noteq> 0
                        then put_fld (fld m2 block next_off) prev_off prev_block m2 else m2)
              in (m3, st\<lparr>free_bytes := free_bytes st + sizeof_mem_block\<rparr>)
         else (m, st))"

definition my_free ::
  "u32 option \<Rightarrow> u32 \<Rightarrow> memory \<times> fault_manager \<Rightarrow> memory \<times> fault_manager" where
  "my_free now ptr s0 =
     (case s0 of (s, fm) \<Rightarrow>
      if ptr = 0 \<or> \<not> mm_initialized s then (s, fm)
      else
        let st = mm_stats s;
            arena_start = mm_arena s;
            arena_end = arena_start + MK_ARENA_SIZE
        in if ptr < arena_start + sizeof_mem_block \<or> arena_end \<le> ptr
           then (s\<lparr>mm_stats := st\<lparr>invalid_ptr_attempts := invalid_ptr_attempts st + 1\<rparr>\<rparr>,
                 mk_fault_record_full now MK_FAULT_MEMORY_INVALID_PTR MK_FAULT_SRC_MEMORY
                   MK_FAULT_SEV_WARNING 0xBAD00002 ptr fm)
           else if ptr AND (8 - 1) \<noteq> 0
           then (s\<lparr>mm_stats := st\<lparr>invalid_ptr_attempts := invalid_ptr_attempts st + 1\<rparr>\<rparr>,
                 mk_fault_record_full now MK_FAULT_MEMORY_INVALID_PTR MK_FAULT_SRC_MEMORY
                   MK_FAULT_SEV_WARNING 0xBAD00003 ptr fm)
           else
             let block = ptr - sizeof_mem_block; m = mm_mem s
             in if fld m block magic_off = MK_BLOCK_MAGIC_FREE \<or> fld m block is_free_off \<noteq> 0
                then (s\<lparr>mm_stats := st\<lparr>double_free_attempts := double_free_attempts st + 1\<rparr>\<rparr>,
                      mk_fault_record_full now MK_FAULT_MEMORY_DOUBLE_FREE MK_FAULT_SRC_MEMORY
                        MK_FAULT_SEV_WARNING 0xBAD00004 ptr fm)
                else if fld m block magic_off \<noteq> MK_BLOCK_MAGIC_ALLOC
                then (s\<lparr>mm_stats := st\<lparr>corruption_count := corruption_count st + 1,
                                      invalid_ptr_attempts := invalid_ptr_attempts st + 1\<rparr>\<rparr>,
                      mk_fault_record_full now MK_FAULT_MEMORY_CORRUPTION MK_FAULT_SRC_MEMORY
                        MK_FAULT_SEV_CRITICAL 0xBAD00005 ptr fm)
                else
                  let m1 = put_fld block is_free_off 1 (put_fld block magic_off MK_BLOCK_MAGIC_FREE m);
                      sz = fld m1 block size_off;
                      st1 = st\<lparr>used_bytes := (if sz \<le> used_bytes st then used_bytes st - sz else 0),
                               free_bytes := free_bytes st + sz,
                               free_count := free_count st + 1\<rparr>;
                      (m2, st2) = coalesce_backward block (coalesce_forward block (m1, st1))
                  in (s\<lparr>mm_mem := m2, mm_stats := st2\<rparr>, fm))"

definition mk_memory_used :: "memory \<Rightarrow> u32" where "mk_memory_used s = used_bytes (mm_stats s)"
definition mk_memory_free :: "memory \<Rightarrow> u32" where "mk_memory_free s = free_bytes (mm_stats s)"
definition mk_memory_peak :: "memory \<Rightarrow> u32" where "mk_memory_peak s = peak_used_bytes (mm_stats s)"
definition mk_memory_get_stats :: "memory \<Rightarrow> mk_mem_stats" where "mk_memory_get_stats s = mm_stats s"

end
