(* ===== verification/Arena_Heap.thy ===== *)
theory Arena_Heap
  imports Memory_Manager
begin

text \<open>
  What the headers in the arena represent: a list of blocks, each with its payload size and its
  free flag, that tiles the arena, doubly linked. The lemmas say how the header updates of
  \<open>my_malloc\<close> and \<open>my_free\<close> change that list.
\<close>

section \<open>Block lists\<close>

type_synonym blk = "nat \<times> bool"

fun extent :: "blk list \<Rightarrow> nat" where
  "extent [] = 0"
| "extent ((n, f) # bs) = 24 + n + extent bs"

fun last_addr :: "nat \<Rightarrow> nat \<Rightarrow> blk list \<Rightarrow> nat" where
  "last_addr p a [] = p"
| "last_addr p a ((n, f) # bs) = last_addr a (a + 24 + n) bs"

text \<open>\<open>chain m p a bs q\<close>: the headers from address \<open>a\<close> on are those of the blocks \<open>bs\<close>; the first
  points back to \<open>p\<close>, the last points on to \<open>q\<close>.\<close>

fun chain :: "(nat \<Rightarrow> u32) \<Rightarrow> nat \<Rightarrow> nat \<Rightarrow> blk list \<Rightarrow> nat \<Rightarrow> bool" where
  "chain m p a [] q \<longleftrightarrow> True"
| "chain m p a ((n, f) # bs) q \<longleftrightarrow>
     m a = (if f then MK_BLOCK_MAGIC_FREE else MK_BLOCK_MAGIC_ALLOC)
     \<and> unat (m (a + 4)) = n \<and> unat (m (a + 8)) = p
     \<and> unat (m (a + 12)) = (if bs = [] then q else a + 24 + n)
     \<and> m (a + 16) = (if f then 1 else 0)
     \<and> chain m a (a + 24 + n) bs q"

lemma extent_append [simp]: "extent (xs @ ys) = extent xs + extent ys"
  by (induction xs rule: extent.induct) auto

lemma last_addr_append: "last_addr p a (xs @ ys) = last_addr (last_addr p a xs) (a + extent xs) ys"
  by (induction xs arbitrary: p a rule: extent.induct) (auto simp: algebra_simps)

lemma last_addr_snoc [simp]: "last_addr p a (xs @ [(n, f)]) = a + extent xs"
  by (simp add: last_addr_append)

lemma chain_append:
  "chain m p a (xs @ ys) q \<longleftrightarrow>
   chain m p a xs (if ys = [] then q else a + extent xs) \<and> chain m (last_addr p a xs) (a + extent xs) ys q"
  by (induction xs arbitrary: p a rule: extent.induct) (auto simp: algebra_simps)

text \<open>A chain depends only on the words of its extent.\<close>

lemma chain_frame:
  assumes "\<And>x. a \<le> x \<Longrightarrow> x < a + extent bs \<Longrightarrow> m' x = m x"
  shows "chain m' p a bs q \<longleftrightarrow> chain m p a bs q"
  using assms
proof (induction bs arbitrary: p a rule: extent.induct)
  case 1
  then show ?case by simp
next
  case (2 n f bs)
  have "chain m' a (a + 24 + n) bs q \<longleftrightarrow> chain m a (a + 24 + n) bs q"
    using 2 by simp
  then show ?case using "2.prems" by simp
qed

text \<open>Changing the back pointer of the first block only\<close>

lemma chain_relink:
  assumes c: "chain m p a bs q"
    and same: "\<And>x. a \<le> x \<Longrightarrow> x < a + extent bs \<Longrightarrow> x \<noteq> a + 8 \<Longrightarrow> m' x = m x"
    and bk: "bs \<noteq> [] \<Longrightarrow> unat (m' (a + 8)) = p'"
  shows "chain m' p' a bs q"
proof (cases bs)
  case Nil
  then show ?thesis by simp
next
  case (Cons b bs')
  obtain n f where b: "b = (n, f)" by (cases b)
  have "chain m' a (a + 24 + n) bs' q \<longleftrightarrow> chain m a (a + 24 + n) bs' q"
    using same Cons b by (intro chain_frame) simp
  then show ?thesis using c same bk Cons b by simp
qed

text \<open>Changing where the last block points on to\<close>

lemma chain_next:
  assumes "chain m p a (xs @ [(n, f)]) q"
    and "\<And>x. a \<le> x \<Longrightarrow> x < a + extent (xs @ [(n, f)]) \<Longrightarrow> x \<noteq> a + extent xs + 12 \<Longrightarrow> m' x = m x"
    and "unat (m' (a + extent xs + 12)) = q'"
  shows "chain m' p a (xs @ [(n, f)]) q'"
proof -
  have "chain m' p a xs (a + extent xs) \<longleftrightarrow> chain m p a xs (a + extent xs)"
    using assms(2) by (intro chain_frame) simp
  then show ?thesis using assms by (simp add: chain_append)
qed

text \<open>The header of the block in the middle\<close>

lemma chain_header:
  assumes "chain m p a (xs @ (n, f) # ys) q"
  shows "m (a + extent xs) = (if f then MK_BLOCK_MAGIC_FREE else MK_BLOCK_MAGIC_ALLOC)"
    and "unat (m (a + extent xs + 4)) = n"
    and "unat (m (a + extent xs + 8)) = last_addr p a xs"
    and "unat (m (a + extent xs + 12)) = (if ys = [] then q else a + extent xs + 24 + n)"
    and "m (a + extent xs + 16) = (if f then 1 else 0)"
  using assms by (simp_all add: chain_append)

section \<open>First fit\<close>

declare first_fit.simps [code]

lemma first_fit_null [simp]: "first_fit m k 0 = Some Exhausted"
  by (subst first_fit.simps) simp

lemma magic_distinct [simp]: "MK_BLOCK_MAGIC_FREE \<noteq> MK_BLOCK_MAGIC_ALLOC"
  "MK_BLOCK_MAGIC_ALLOC \<noteq> MK_BLOCK_MAGIC_FREE"
  by (simp_all add: MK_BLOCK_MAGIC_FREE_def MK_BLOCK_MAGIC_ALLOC_def)

text \<open>The blocks that a search of \<open>k\<close> bytes passes over\<close>

definition no_fit :: "nat \<Rightarrow> blk list \<Rightarrow> bool" where
  "no_fit k bs \<longleftrightarrow> (\<forall>b \<in> set bs. \<not> (snd b \<and> k \<le> fst b))"

lemma first_fit_skip:
  assumes "chain m p a xs q" and "0 < a" and "a + extent xs < 2 ^ 32"
    and "no_fit (unat k) xs"
  shows "first_fit m k (of_nat (if xs = [] then q else a)) = first_fit m k (of_nat q)"
  using assms
proof (induction xs arbitrary: p a rule: extent.induct)
  case 1
  then show ?case by simp
next
  case (2 n f bs)
  have a: "unat (of_nat a :: u32) = a" using "2.prems"(3) by (simp add: unat32_of_nat)
  have nz: "(of_nat a :: u32) \<noteq> 0" using "2.prems"(2,3) by (simp add: of_nat32_eq_0)
  have nx: "m (a + 12) = of_nat (if bs = [] then q else a + 24 + n)"
    using "2.prems"(1) by (intro u32_of_unat) simp
  have sz: "unat (m (a + 4)) = n" and fr: "m (a + 16) = (if f then 1 else 0)"
    and mg: "m a = (if f then MK_BLOCK_MAGIC_FREE else MK_BLOCK_MAGIC_ALLOC)"
    using "2.prems"(1) by simp_all
  have miss: "\<not> (f \<and> unat k \<le> n)" using "2.prems"(4) by (simp add: no_fit_def)
  have "first_fit m k (of_nat a) = first_fit m k (of_nat (if bs = [] then q else a + 24 + n))"
    using a nz nx sz fr mg miss
    by (subst first_fit.simps) (auto simp: fld_def word_le_nat_alt)
  moreover have "first_fit m k (of_nat (if bs = [] then q else a + 24 + n)) = first_fit m k (of_nat q)"
    using "2.prems" by (intro "2.IH"[of a]) (auto simp: no_fit_def)
  ultimately show ?case by simp
qed

lemma first_fit_found:
  assumes "chain m p a ((n, True) # ys) q" and "0 < a" and "a < 2 ^ 32" and "unat k \<le> n"
  shows "first_fit m k (of_nat a) = Some (Found (of_nat a))"
  using assms
  by (subst first_fit.simps) (auto simp: fld_def word_le_nat_alt unat32_of_nat of_nat32_eq_0)

lemma fit_cases:
  obtains "no_fit k bs"
  | xs n ys where "bs = xs @ (n, True) # ys" and "k \<le> n" and "no_fit k xs"
proof (cases "no_fit k bs")
  case True
  then show ?thesis using that(1) by blast
next
  case False
  then have "\<exists>b \<in> set bs. snd b \<and> k \<le> fst b" by (simp add: no_fit_def)
  then obtain xs b ys where bs: "bs = xs @ b # ys" and b: "snd b" "k \<le> fst b"
    and xs: "\<forall>c \<in> set xs. \<not> (snd c \<and> k \<le> fst c)"
    using split_list_first_prop[where P = "\<lambda>b. snd b \<and> k \<le> fst b"] by blast
  have "bs = xs @ (fst b, True) # ys" using bs b(1) by (cases b) simp
  moreover have "no_fit k xs" using xs by (simp add: no_fit_def)
  ultimately show ?thesis using that(2) b(2) by blast
qed

lemma first_fit_split:
  assumes "chain m p a (xs @ (n, True) # ys) q" and "0 < a"
    and "a + extent (xs @ (n, True) # ys) < 2 ^ 32" and "unat k \<le> n" and "no_fit (unat k) xs"
  shows "first_fit m k (of_nat a) = Some (Found (of_nat (a + extent xs)))"
proof -
  let ?c = "a + extent xs"
  have "first_fit m k (of_nat (if xs = [] then ?c else a)) = first_fit m k (of_nat ?c)"
    using assms by (intro first_fit_skip) (auto simp: chain_append no_fit_def)
  moreover have "first_fit m k (of_nat ?c) = Some (Found (of_nat ?c))"
    using assms by (intro first_fit_found[of m "last_addr p a xs" _ n ys q]) (auto simp: chain_append)
  ultimately show ?thesis by (cases "xs = []") auto
qed

lemma first_fit_none:
  assumes "chain m p a bs 0" and "0 < a" and "a + extent bs < 2 ^ 32" and "no_fit (unat k) bs"
    and "bs \<noteq> []"
  shows "first_fit m k (of_nat a) = Some Exhausted"
  using assms first_fit_skip[of m p a bs 0 k] by (simp add: no_fit_def)

section \<open>Header updates of \<open>my_malloc\<close>\<close>

text \<open>What \<open>my_malloc\<close> does to the memory once it found block \<open>cur\<close>\<close>

definition take_block :: "u32 \<Rightarrow> u32 \<Rightarrow> (nat \<Rightarrow> u32) \<Rightarrow> (nat \<Rightarrow> u32)" where
  "take_block cur k m = put_fld cur is_free_off 0 (put_fld cur magic_off MK_BLOCK_MAGIC_ALLOC (split_block cur k m))"

text \<open>The blocks that replace a free block of \<open>n\<close> bytes when \<open>k\<close> bytes are taken from it\<close>

definition taken :: "nat \<Rightarrow> nat \<Rightarrow> blk list" where
  "taken n k = (if 32 \<le> n - k then [(k, False), (n - k - 24, True)] else [(n, False)])"

lemma extent_taken: "k \<le> n \<Longrightarrow> extent (taken n k) = 24 + n"
  by (simp add: taken_def)

text \<open>No split: only the two flags change.\<close>

lemma take_block_whole:
  assumes "chain m p a ((n, True) # ys) q" and "a < 2 ^ 32" and "unat k \<le> n" and "n - unat k < 32"
  shows "take_block (of_nat a) k m = m(a := MK_BLOCK_MAGIC_ALLOC, a + 16 := 0)"
proof -
  have a: "unat (of_nat a :: u32) = a" using assms(2) by (simp add: unat32_of_nat)
  have sz: "unat (m (a + 4)) = n" using assms(1) by simp
  have "unat (m (a + 4) - k) = n - unat k" using sz assms(3) by (simp add: unat_sub_small)
  then have "\<not> sizeof_mem_block + MK_MIN_PAYLOAD \<le> m (a + 4) - k"
    using assms(4) by (simp add: word_le_nat_alt sizeof_mem_block_def MK_MIN_PAYLOAD_def)
  then show ?thesis using a by (simp add: take_block_def split_block_def fld_def put_fld_def Let_def)
qed

text \<open>The split writes the header of the remainder, relinks the next block and shrinks this one.\<close>

lemma take_block_split:
  assumes ch: "chain m p a ((n, True) # ys) 0" and a0: "0 < a"
    and bound: "a + extent ((n, True) # ys) < 2 ^ 32"
    and fit: "unat k \<le> n" and big: "32 \<le> n - unat k"
  defines "b \<equiv> a + 24 + unat k" and "e \<equiv> a + 24 + n"
  shows "take_block (of_nat a) k m x =
     (if x = a then MK_BLOCK_MAGIC_ALLOC else if x = a + 16 then 0
      else if x = a + 4 then k else if x = a + 12 then of_nat b
      else if ys \<noteq> [] \<and> x = e + 8 then of_nat b
      else if x = b + 12 then of_nat (if ys = [] then 0 else e)
      else if x = b + 8 then of_nat a else if x = b + 20 then 0 else if x = b + 16 then 1
      else if x = b + 4 then of_nat (n - unat k - 24) else if x = b then MK_BLOCK_MAGIC_FREE
      else m x)"
proof -
  have sz: "unat (m (a + 4)) = n" using ch by simp
  have nx: "m (a + 12) = of_nat (if ys = [] then 0 else e)"
    using ch by (intro u32_of_unat) (simp add: e_def)
  have n32: "a + 24 + n < 2 ^ 32" using bound by simp
  have au: "unat (of_nat a :: u32) = a" using n32 by (intro unat32_of_nat) simp
  have bu: "unat (of_nat b :: u32) = b" using n32 fit by (intro unat32_of_nat) (simp add: b_def)
  have eu: "unat (of_nat e :: u32) = e" using n32 by (intro unat32_of_nat) (simp add: e_def)
  have ez: "(of_nat e :: u32) \<noteq> 0" using n32 eu by (auto simp: e_def)
  have exc: "unat (m (a + 4) - k) = n - unat k" using sz fit by (simp add: unat_sub_small)
  have spl: "sizeof_mem_block + MK_MIN_PAYLOAD \<le> m (a + 4) - k"
    using exc big by (simp add: word_le_nat_alt sizeof_mem_block_def MK_MIN_PAYLOAD_def)
  have nb: "of_nat a + sizeof_mem_block + k = of_nat b"
    by (simp add: b_def sizeof_mem_block_def)
  have rest: "m (a + 4) - k - sizeof_mem_block = of_nat (n - unat k - 24)"
  proof (rule u32_of_unat)
    have "unat sizeof_mem_block \<le> unat (m (a + 4) - k)"
      using exc big by (simp add: sizeof_mem_block_def)
    then show "unat (m (a + 4) - k - sizeof_mem_block) = n - unat k - 24"
      using exc by (simp add: unat_sub_small sizeof_mem_block_def)
  qed
  have sep: "a + 12 < b" "b + 20 < e" using fit big by (simp_all add: b_def e_def)
  show ?thesis
    using sep au bu eu ez spl nb nx rest
    by (simp add: take_block_def split_block_def fld_def put_fld_def Let_def)
qed

text \<open>Changing the flags of one block\<close>

lemma chain_flag:
  assumes ch: "chain m p a (xs @ (n, f) # ys) q"
    and same: "\<And>x. x \<noteq> a + extent xs \<Longrightarrow> x \<noteq> a + extent xs + 16 \<Longrightarrow> m' x = m x"
    and mg: "m' (a + extent xs) = (if f' then MK_BLOCK_MAGIC_FREE else MK_BLOCK_MAGIC_ALLOC)"
    and fl: "m' (a + extent xs + 16) = (if f' then 1 else 0)"
  shows "chain m' p a (xs @ (n, f') # ys) q"
proof -
  let ?c = "a + extent xs"
  have "chain m' p a xs ?c \<longleftrightarrow> chain m p a xs ?c" by (intro chain_frame same) simp_all
  moreover have "chain m' ?c (?c + 24 + n) ys q \<longleftrightarrow> chain m ?c (?c + 24 + n) ys q"
    by (intro chain_frame same) simp_all
  ultimately show ?thesis using ch mg fl same by (simp add: chain_append)
qed

lemma take_block_chain:
  assumes ch: "chain m p a (xs @ (n, True) # ys) 0" and a0: "0 < a"
    and bound: "a + extent (xs @ (n, True) # ys) < 2 ^ 32" and fit: "unat k \<le> n"
  shows "chain (take_block (of_nat (a + extent xs)) k m) p a (xs @ taken n (unat k) @ ys) 0"
proof -
  define c where "c = a + extent xs"
  let ?m = "take_block (of_nat c) k m"
  have sub: "chain m (last_addr p a xs) c ((n, True) # ys) 0"
    using ch by (simp add: chain_append c_def)
  have c0: "0 < c" and cb: "c + extent ((n, True) # ys) < 2 ^ 32" using a0 bound by (simp_all add: c_def)
  have c32: "c < 2 ^ 32" using cb by simp
  show ?thesis
  proof (cases "32 \<le> n - unat k")
    case False
    have m: "?m = m(c := MK_BLOCK_MAGIC_ALLOC, c + 16 := 0)"
      using False by (intro take_block_whole[OF sub c32 fit]) simp
    have "chain ?m p a (xs @ (n, False) # ys) 0"
      using ch by (rule chain_flag) (simp_all add: m c_def[symmetric])
    then show ?thesis using False by (simp add: taken_def c_def)
  next
    case True
    define b where "b = c + 24 + unat k"
    define e where "e = c + 24 + n"
    note m = take_block_split[OF sub c0 cb fit True, folded b_def e_def]
    have be: "c + 20 < b" "b + 20 < e" and e_b: "e = b + 24 + (n - unat k - 24)"
      using fit True by (simp_all add: b_def e_def)
    have bu: "unat (of_nat b :: u32) = b" using cb fit by (intro unat32_of_nat) (simp add: b_def)
    have cu: "unat (of_nat c :: u32) = c" using c32 by (rule unat32_of_nat)
    have eu: "unat (of_nat e :: u32) = e" using cb by (intro unat32_of_nat) (simp add: e_def)
    have ru: "unat (of_nat (n - unat k - 24) :: u32) = n - unat k - 24"
      using cb by (intro unat32_of_nat) simp
    have "chain ?m p a xs c \<longleftrightarrow> chain m p a xs c"
      using be by (intro chain_frame) (simp add: m c_def[symmetric])
    moreover have "chain ?m b e ys 0"
    proof (rule chain_relink)
      show "chain m c e ys 0" using sub by (simp add: e_def)
      fix x assume "e \<le> x" "x \<noteq> e + 8"
      then show "?m x = m x" using be by (simp add: m)
    next
      assume "ys \<noteq> []"
      then show "unat (?m (e + 8)) = b" using be bu by (simp add: m)
    qed
    moreover have "chain ?m (last_addr p a xs) c [(unat k, False)] b"
      using sub be bu by (simp add: m)
    moreover have "chain ?m c b [(n - unat k - 24, True)] (if ys = [] then 0 else e)"
      using be cu ru eu by (simp add: m)
    ultimately show ?thesis
      using ch True e_b by (simp add: chain_append taken_def c_def[symmetric] b_def)
  qed
qed

lemma take_block_frame:
  assumes ch: "chain m p a (xs @ (n, True) # ys) 0" and a0: "0 < a"
    and bound: "a + extent (xs @ (n, True) # ys) < 2 ^ 32" and fit: "unat k \<le> n"
    and out: "\<not> (a + extent xs \<le> x \<and> x < a + extent xs + 24 + n)"
      "\<not> (ys \<noteq> [] \<and> x = a + extent xs + 24 + n + 8)"
  shows "take_block (of_nat (a + extent xs)) k m x = m x"
proof -
  define c where "c = a + extent xs"
  have sub: "chain m (last_addr p a xs) c ((n, True) # ys) 0"
    using ch by (simp add: chain_append c_def)
  have c0: "0 < c" and cb: "c + extent ((n, True) # ys) < 2 ^ 32" using a0 bound by (simp_all add: c_def)
  have out': "\<not> (c \<le> x \<and> x < c + 24 + n)" "\<not> (ys \<noteq> [] \<and> x = c + 24 + n + 8)"
    using out by (simp_all add: c_def)
  have "take_block (of_nat c) k m x = m x"
  proof (cases "32 \<le> n - unat k")
    case False
    then show ?thesis using take_block_whole[OF sub _ fit] cb out' by auto
  next
    case True
    then show ?thesis using take_block_split[OF sub c0 cb fit True, of x] out' fit by auto
  qed
  then show ?thesis by (simp add: c_def)
qed

section \<open>Header updates of \<open>my_free\<close>\<close>

text \<open>Block \<open>c\<close> absorbs its successor \<open>d\<close>: both coalescing steps perform these writes.\<close>

definition absorb :: "u32 \<Rightarrow> u32 \<Rightarrow> (nat \<Rightarrow> u32) \<Rightarrow> (nat \<Rightarrow> u32)" where
  "absorb c d m =
     (let m1 = put_fld c size_off (fld m c size_off + (sizeof_mem_block + fld m d size_off)) m;
          m2 = put_fld c next_off (fld m1 d next_off) m1
      in if fld m2 d next_off \<noteq> 0 then put_fld (fld m2 d next_off) prev_off c m2 else m2)"

lemma coalesce_forward_absorb:
  "coalesce_forward c (m, st) =
    (if fld m c next_off \<noteq> 0 \<and> fld m (fld m c next_off) is_free_off \<noteq> 0
     then (absorb c (fld m c next_off) m, st\<lparr>free_bytes := free_bytes st + sizeof_mem_block\<rparr>)
     else (m, st))"
  by (simp add: coalesce_forward_def absorb_def Let_def)

lemma coalesce_backward_absorb:
  "coalesce_backward c (m, st) =
    (if fld m c prev_off \<noteq> 0 \<and> fld m (fld m c prev_off) is_free_off \<noteq> 0
     then (absorb (fld m c prev_off) c m, st\<lparr>free_bytes := free_bytes st + sizeof_mem_block\<rparr>)
     else (m, st))"
  by (simp add: coalesce_backward_def absorb_def Let_def)

lemma absorb_apply:
  assumes ch: "chain m p c ((n, f) # (n2, f2) # ys) 0" and c0: "0 < c"
    and bound: "c + extent ((n, f) # (n2, f2) # ys) < 2 ^ 32"
  defines "d \<equiv> c + 24 + n" and "e \<equiv> c + 24 + n + 24 + n2"
  shows "absorb (of_nat c) (of_nat d) m x =
     (if ys \<noteq> [] \<and> x = e + 8 then of_nat c else if x = c + 12 then of_nat (if ys = [] then 0 else e)
      else if x = c + 4 then of_nat (n + 24 + n2) else m x)"
proof -
  have cu: "unat (of_nat c :: u32) = c" using bound by (intro unat32_of_nat) simp
  have du: "unat (of_nat d :: u32) = d" using bound by (intro unat32_of_nat) (simp add: d_def)
  have eu: "unat (of_nat e :: u32) = e" using bound by (intro unat32_of_nat) (simp add: e_def)
  have ez: "(of_nat e :: u32) \<noteq> 0" using eu by (auto simp: e_def)
  have s1: "unat (m (c + 4)) = n" and s2: "unat (m (d + 4)) = n2" using ch by (simp_all add: d_def)
  have nx: "m (d + 12) = of_nat (if ys = [] then 0 else e)"
    using ch by (intro u32_of_unat) (simp add: d_def e_def)
  have sz: "m (c + 4) + (sizeof_mem_block + m (d + 4)) = of_nat (n + 24 + n2)"
    by (simp add: s1[symmetric] s2[symmetric] sizeof_mem_block_def)
  have sep: "c + 12 < d" "d + 12 < e" by (simp_all add: d_def e_def)
  show ?thesis using cu du eu ez nx sz sep by (simp add: absorb_def fld_def put_fld_def Let_def)
qed

lemma absorb_chain:
  assumes ch: "chain m p a (xs @ (n, f) # (n2, f2) # ys) 0" and a0: "0 < a"
    and bound: "a + extent (xs @ (n, f) # (n2, f2) # ys) < 2 ^ 32"
  defines "c \<equiv> a + extent xs"
  shows "chain (absorb (of_nat c) (of_nat (c + 24 + n)) m) p a (xs @ (n + 24 + n2, f) # ys) 0"
proof -
  define d where "d = c + 24 + n"
  define e where "e = c + 24 + n + 24 + n2"
  have sub: "chain m (last_addr p a xs) c ((n, f) # (n2, f2) # ys) 0"
    using ch by (simp add: chain_append c_def)
  have c0: "0 < c" and cb: "c + extent ((n, f) # (n2, f2) # ys) < 2 ^ 32"
    using a0 bound by (simp_all add: c_def)
  note m = absorb_apply[OF sub c0 cb, folded d_def e_def]
  let ?m = "absorb (of_nat c) (of_nat d) m"
  have cu: "unat (of_nat c :: u32) = c" using cb by (intro unat32_of_nat) simp
  have eu: "unat (of_nat e :: u32) = e" using cb by (intro unat32_of_nat) (simp add: e_def)
  have nu: "unat (of_nat (n + 24 + n2) :: u32) = n + 24 + n2" using cb by (intro unat32_of_nat) simp
  have sep: "c + 12 < d" "d + 12 < e" by (simp_all add: d_def e_def)
  have "chain ?m p a xs c \<longleftrightarrow> chain m p a xs c"
    using sep by (intro chain_frame) (simp add: m c_def[symmetric])
  moreover have "chain ?m c e ys 0"
  proof (rule chain_relink)
    show "chain m d e ys 0" using sub by (simp add: d_def e_def)
    fix x assume "e \<le> x" "x \<noteq> e + 8"
    then show "?m x = m x" using sep by (simp add: m)
  next
    assume "ys \<noteq> []"
    then show "unat (?m (e + 8)) = c" using cu by (simp add: m)
  qed
  moreover have "chain ?m (last_addr p a xs) c [(n + 24 + n2, f)] (if ys = [] then 0 else e)"
    using sub sep eu nu by (simp add: m)
  ultimately show ?thesis
    using ch by (simp add: chain_append c_def[symmetric] d_def e_def add.assoc)
qed

section \<open>Headers and payloads\<close>

text \<open>\<open>header a bs x\<close>: address \<open>x\<close> lies in one of the headers.\<close>

fun header :: "nat \<Rightarrow> blk list \<Rightarrow> nat \<Rightarrow> bool" where
  "header a [] x \<longleftrightarrow> False"
| "header a ((n, f) # bs) x \<longleftrightarrow> a \<le> x \<and> x < a + 24 \<or> header (a + 24 + n) bs x"

lemma header_append: "header a (xs @ ys) x \<longleftrightarrow> header a xs x \<or> header (a + extent xs) ys x"
  by (induction xs arbitrary: a rule: extent.induct) (auto simp: algebra_simps)

lemma header_ge: "header a bs x \<Longrightarrow> a \<le> x"
  by (induction bs arbitrary: a rule: extent.induct) fastforce+

text \<open>A chain depends only on the words of its headers.\<close>

lemma chain_header_frame:
  assumes "\<And>x. header a bs x \<Longrightarrow> m' x = m x"
  shows "chain m' p a bs q \<longleftrightarrow> chain m p a bs q"
  using assms
proof (induction bs arbitrary: p a rule: extent.induct)
  case 1
  then show ?case by simp
next
  case (2 n f bs)
  then have "chain m' a (a + 24 + n) bs q \<longleftrightarrow> chain m a (a + 24 + n) bs q" by simp
  then show ?case using "2.prems" by simp
qed

text \<open>Absorbing a block writes headers only.\<close>

lemma absorb_frame:
  assumes ch: "chain m p a (xs @ (n, f) # (n2, f2) # ys) 0" and a0: "0 < a"
    and bound: "a + extent (xs @ (n, f) # (n2, f2) # ys) < 2 ^ 32"
    and out: "\<not> header a (xs @ (n, f) # (n2, f2) # ys) x"
  shows "absorb (of_nat (a + extent xs)) (of_nat (a + extent xs + 24 + n)) m x = m x"
proof -
  define c where "c = a + extent xs"
  have sub: "chain m (last_addr p a xs) c ((n, f) # (n2, f2) # ys) 0"
    using ch by (simp add: chain_append c_def)
  have o: "\<not> header c ((n, f) # (n2, f2) # ys) x" using out by (simp add: header_append c_def)
  have "\<not> (ys \<noteq> [] \<and> x = c + 24 + n + 24 + n2 + 8)" using o by (cases ys) auto
  moreover have "x \<noteq> c + 12" "x \<noteq> c + 4" using o by auto
  ultimately have "absorb (of_nat c) (of_nat (c + 24 + n)) m x = m x"
    using absorb_apply[OF sub] a0 bound by (auto simp: c_def)
  then show ?thesis by (simp add: c_def)
qed

end
