(* ===== verification/Memory_Safety.thy ===== *)
theory Memory_Safety
  imports Arena_Heap
begin

text \<open>
  The allocator refines an abstract one on block lists: \<open>heap_inv s bs\<close> says that the arena of
  state \<open>s\<close> holds the blocks \<open>bs\<close>. \<open>my_malloc\<close> and \<open>my_free\<close> keep it; the live allocations are
  aligned, inside the arena and disjoint; freed neighbours are merged.
\<close>

section \<open>The invariant\<close>

fun alloc_bytes :: "blk list \<Rightarrow> nat" where
  "alloc_bytes [] = 0"
| "alloc_bytes ((n, f) # bs) = (if f then 0 else n) + alloc_bytes bs"

text \<open>The live allocations: payload address and payload size\<close>

fun allocs :: "nat \<Rightarrow> blk list \<Rightarrow> (nat \<times> nat) set" where
  "allocs a [] = {}"
| "allocs a ((n, f) # bs) = (if f then {} else {(a + 24, n)}) \<union> allocs (a + 24 + n) bs"

definition wf_blocks :: "blk list \<Rightarrow> bool" where
  "wf_blocks bs \<longleftrightarrow> (\<forall>b \<in> set bs. 8 dvd fst b \<and> 8 \<le> fst b)"

definition coalesced :: "blk list \<Rightarrow> bool" where
  "coalesced bs \<longleftrightarrow> successively (\<lambda>x y. \<not> (snd x \<and> snd y)) bs"

text \<open>What the linker guarantees of the address of \<open>s_arena_buffer\<close>\<close>

definition arena_ok :: "memory \<Rightarrow> bool" where
  "arena_ok s \<longleftrightarrow> 8 dvd unat (mm_arena s) \<and> 0 < unat (mm_arena s) \<and> unat (mm_arena s) + 131072 < 2 ^ 32"

definition heap_inv :: "memory \<Rightarrow> blk list \<Rightarrow> bool" where
  "heap_inv s bs \<longleftrightarrow> mm_initialized s \<and> arena_ok s \<and> mm_head s = mm_arena s
     \<and> extent bs = 131072 \<and> chain (mm_mem s) 0 (unat (mm_arena s)) bs 0
     \<and> wf_blocks bs \<and> coalesced bs \<and> unat (used_bytes (mm_stats s)) = alloc_bytes bs"

lemma alloc_bytes_append [simp]: "alloc_bytes (xs @ ys) = alloc_bytes xs + alloc_bytes ys"
  by (induction xs rule: alloc_bytes.induct) auto

lemma alloc_bytes_extent: "alloc_bytes bs \<le> extent bs"
  by (induction bs rule: alloc_bytes.induct) auto

lemma allocs_append: "allocs a (xs @ ys) = allocs a xs \<union> allocs (a + extent xs) ys"
  by (induction xs arbitrary: a rule: extent.induct) (auto simp: algebra_simps)

lemma allocs_bounds: "(b, n) \<in> allocs a bs \<Longrightarrow> a + 24 \<le> b \<and> b + n \<le> a + extent bs"
proof (induction bs arbitrary: a rule: extent.induct)
  case 1
  then show ?case by simp
next
  case (2 k f bs)
  then have "(b, n) = (a + 24, k) \<or> (b, n) \<in> allocs (a + 24 + k) bs" by (auto split: if_splits)
  then show ?case using "2.IH"[of "a + 24 + k"] by auto
qed

lemma allocs_split:
  assumes "(b, n) \<in> allocs a bs"
  obtains xs ys where "bs = xs @ (n, False) # ys" and "b = a + extent xs + 24"
  using assms
proof (induction bs arbitrary: a thesis rule: extent.induct)
  case 1
  then show ?case by simp
next
  case (2 k f bs)
  show ?case
  proof (cases "\<not> f \<and> (b, n) = (a + 24, k)")
    case True
    then show ?thesis using "2.prems"(1)[of "[]" bs] by simp
  next
    case False
    then have "(b, n) \<in> allocs (a + 24 + k) bs" using "2.prems"(2) by (auto split: if_splits)
    then obtain xs ys where "bs = xs @ (n, False) # ys" "b = a + 24 + k + extent xs + 24"
      using "2.IH" by blast
    then show ?thesis using "2.prems"(1)[of "(k, f) # xs" ys] by simp
  qed
qed

text \<open>Two live allocations are the same or do not overlap; at least a header lies between them.\<close>

lemma allocs_disjoint:
  "(b, n) \<in> allocs a bs \<Longrightarrow> (b', n') \<in> allocs a bs \<Longrightarrow>
   (b, n) = (b', n') \<or> b + n + 24 \<le> b' \<or> b' + n' + 24 \<le> b"
proof (induction bs arbitrary: a rule: extent.induct)
  case 1
  then show ?case by simp
next
  case (2 k f bs)
  have "(b, n) \<in> allocs (a + 24 + k) bs \<or> (b, n) = (a + 24, k)"
    "(b', n') \<in> allocs (a + 24 + k) bs \<or> (b', n') = (a + 24, k)"
    using "2.prems" by (auto split: if_splits)
  then show ?case
    using "2.IH" allocs_bounds[of b n "a + 24 + k" bs] allocs_bounds[of b' n' "a + 24 + k" bs] by auto
qed

lemma wf_append [simp]: "wf_blocks (xs @ ys) \<longleftrightarrow> wf_blocks xs \<and> wf_blocks ys"
  by (auto simp: wf_blocks_def)

lemma wf_Cons [simp]: "wf_blocks ((n, f) # bs) \<longleftrightarrow> 8 dvd n \<and> 8 \<le> n \<and> wf_blocks bs"
  by (auto simp: wf_blocks_def)

lemma wf_Nil [simp]: "wf_blocks []"
  by (simp add: wf_blocks_def)

lemma extent_dvd: "wf_blocks bs \<Longrightarrow> 8 dvd extent bs"
  by (induction bs rule: extent.induct) (auto intro!: dvd_add)

lemma coalesced_append:
  "coalesced (xs @ ys) \<longleftrightarrow> coalesced xs \<and> coalesced ys
     \<and> (xs = [] \<or> ys = [] \<or> \<not> (snd (last xs) \<and> snd (hd ys)))"
  by (auto simp: coalesced_def successively_append_iff)

lemma coalesced_Cons:
  "coalesced (b # bs) \<longleftrightarrow> (bs = [] \<or> \<not> (snd b \<and> snd (hd bs))) \<and> coalesced bs"
  by (cases bs) (auto simp: coalesced_def)

lemma coalesced_Nil [simp]: "coalesced []"
  by (simp add: coalesced_def)

section \<open>Alignment\<close>

lemma and_7_mod: "unat (x AND 7 :: u32) = unat x mod 8"
proof -
  have "x AND 7 = take_bit 3 x" by (simp add: take_bit_eq_mask mask_eq_exp_minus_1)
  then show ?thesis by (simp add: take_bit_eq_mod unat_mod)
qed

lemma and_not_and: "(y :: u32) AND NOT (y AND z) = y AND NOT z"
  by (rule bit_word_eqI) (auto simp: bit_and_iff bit_or_iff bit_not_iff)

lemma and_minus: "(y :: u32) AND NOT z = y - (y AND z)"
proof -
  have "NOT y AND (y AND z) = 0" by (rule bit_word_eqI) (auto simp: bit_and_iff bit_not_iff)
  then show ?thesis using and_not_and[of y z] by (simp add: disjunctive_diff_eq_and_not)
qed

lemma unat_MK_ALIGN:
  assumes "unat x \<le> 131048"
  shows "unat (MK_ALIGN x) = (unat x + 7) div 8 * 8"
proof -
  have y: "unat (x + 7) = unat x + 7" using assms by (simp add: unat_add_small)
  have "(x + 7) AND NOT 7 = (x + 7) - ((x + 7) AND 7)" by (rule and_minus)
  then have "unat ((x + 7) AND NOT 7) = unat x + 7 - (unat x + 7) mod 8"
    using and_7_mod[of "x + 7"] y by (simp add: unat_sub_small)
  moreover have "unat x + 7 - (unat x + 7) mod 8 = (unat x + 7) div 8 * 8"
    by (simp add: minus_mod_eq_div_mult)
  ultimately show ?thesis by (simp add: MK_ALIGN_def)
qed

lemma MK_ALIGN_bounds:
  assumes "0 < req" and "unat req \<le> 131048"
  shows "8 dvd unat (MK_ALIGN req)" and "8 \<le> unat (MK_ALIGN req)" and "unat req \<le> unat (MK_ALIGN req)"
    and "unat (MK_ALIGN req) \<le> 131048"
proof -
  have p: "0 < unat req" using assms(1) by (simp add: word_less_nat_alt)
  have e: "unat (MK_ALIGN req) = (unat req + 7) div 8 * 8" using assms(2) by (rule unat_MK_ALIGN)
  show "8 dvd unat (MK_ALIGN req)" by (simp add: e)
  show "8 \<le> unat (MK_ALIGN req)" using p unfolding e by presburger
  show "unat req \<le> unat (MK_ALIGN req)" unfolding e by presburger
  show "unat (MK_ALIGN req) \<le> 131048" using assms(2) unfolding e by presburger
qed

section \<open>Initialisation\<close>

lemma memory_init_heap:
  assumes "arena_ok s"
  shows "heap_inv (snd (mk_memory_init s)) [(131048, True)]"
  using assms
  by (simp add: mk_memory_init_def heap_inv_def Let_def put_fld_def fld_def MK_ARENA_SIZE_def
      sizeof_mem_block_def arena_ok_def mem_stats_zero_def coalesced_def)

section \<open>Allocation\<close>

text \<open>Both outcomes of a request of a valid size\<close>

lemma valid_request:
  assumes "0 < req" and "unat req \<le> 131048"
  shows "req \<noteq> 0" and "\<not> MK_ARENA_SIZE - sizeof_mem_block < req"
  using assms by (auto simp: MK_ARENA_SIZE_def sizeof_mem_block_def word_less_nat_alt)

lemma malloc_exhausted:
  assumes inv: "heap_inv s bs" and sz: "0 < req" "unat req \<le> 131048"
    and none: "no_fit (unat (MK_ALIGN req)) bs"
  shows "my_malloc now req (s, fm) = Some (0,
      s\<lparr>mm_stats := (mm_stats s)\<lparr>failed_allocations := failed_allocations (mm_stats s) + 1\<rparr>\<rparr>,
      mk_fault_record_full now MK_FAULT_MEMORY_EXHAUSTED MK_FAULT_SRC_MEMORY MK_FAULT_SEV_WARNING
        (MK_ALIGN req) 0 fm)"
proof -
  have "bs \<noteq> []" using inv by (auto simp: heap_inv_def)
  then have "first_fit (mm_mem s) (MK_ALIGN req) (of_nat (unat (mm_arena s))) = Some Exhausted"
    using inv none by (intro first_fit_none[of _ 0 _ bs]) (auto simp: heap_inv_def arena_ok_def)
  then show ?thesis using inv valid_request[OF sz] by (simp add: my_malloc_def heap_inv_def Let_def)
qed

lemma malloc_found:
  assumes inv: "heap_inv s (xs @ (n, True) # ys)" and sz: "0 < req" "unat req \<le> 131048"
    and fit: "unat (MK_ALIGN req) \<le> n" and first: "no_fit (unat (MK_ALIGN req)) xs"
  defines "c \<equiv> unat (mm_arena s) + extent xs"
  obtains s' where "my_malloc now req (s, fm) = Some (of_nat (c + 24), s', fm)"
    and "heap_inv s' (xs @ taken n (unat (MK_ALIGN req)) @ ys)"
    and "mm_mem s' = take_block (of_nat c) (MK_ALIGN req) (mm_mem s)"
    and "mm_arena s' = mm_arena s"
proof -
  let ?k = "MK_ALIGN req" and ?a = "unat (mm_arena s)" and ?bs = "xs @ (n, True) # ys"
  let ?m = "take_block (of_nat c) ?k (mm_mem s)"
  define sz' where "sz' = fst (hd (taken n (unat ?k)))"
  have ch: "chain (mm_mem s) 0 ?a ?bs 0" and a0: "0 < ?a" and b32: "?a + extent ?bs < 2 ^ 32"
    and ext: "extent ?bs = 131072" and ini: "mm_initialized s" and hd: "mm_head s = mm_arena s"
    and used: "unat (used_bytes (mm_stats s)) = alloc_bytes ?bs" and wf: "wf_blocks ?bs"
    and co: "coalesced ?bs"
    using inv by (auto simp: heap_inv_def arena_ok_def)
  have ff: "first_fit (mm_mem s) ?k (mm_head s) = Some (Found (of_nat c))"
    using first_fit_split[OF ch a0 b32 fit first] hd by (simp add: c_def)
  have ch': "chain ?m 0 ?a (xs @ taken n (unat ?k) @ ys) 0"
    unfolding c_def by (rule take_block_chain[OF ch a0 b32 fit])
  have tk: "taken n (unat ?k) = (sz', False) # tl (taken n (unat ?k))"
    by (simp add: sz'_def taken_def)
  have cu: "unat (of_nat c :: u32) = c" using b32 by (intro unat32_of_nat) (simp add: c_def)
  have "chain ?m 0 ?a (xs @ (sz', False) # tl (taken n (unat ?k)) @ ys) 0"
    using ch' tk by (metis append_Cons)
  then have "unat (?m (c + 4)) = sz'"
    unfolding c_def by (rule chain_header(2))
  then have szf: "unat (fld ?m (of_nat c) size_off) = sz'" using cu by (simp add: fld_def)
  have ab: "alloc_bytes (taken n (unat ?k)) = sz'" by (simp add: taken_def sz'_def)
  have "alloc_bytes (xs @ taken n (unat ?k) @ ys) \<le> 131072"
    using alloc_bytes_extent[of "xs @ taken n (unat ?k) @ ys"] extent_taken[OF fit] ext by simp
  then have used': "unat (used_bytes (mm_stats s) + fld ?m (of_nat c) size_off)
      = alloc_bytes (xs @ taken n (unat ?k) @ ys)"
    using szf ab used by (simp add: unat_add_small)
  have wf': "wf_blocks (xs @ taken n (unat ?k) @ ys)"
    using wf fit MK_ALIGN_bounds[OF sz] by (auto simp: taken_def dvd_diff_nat)
  have co': "coalesced (xs @ taken n (unat ?k) @ ys)"
    using co by (auto simp: taken_def coalesced_append coalesced_Cons)
  define st where "st = mm_stats s"
  define f where "f = (if fld ?m (of_nat c) size_off + sizeof_mem_block \<le> free_bytes st
      then free_bytes st - fld ?m (of_nat c) size_off else 0)"
  define pk where "pk = (if peak_used_bytes st < used_bytes st + fld ?m (of_nat c) size_off
      then used_bytes st + fld ?m (of_nat c) size_off else peak_used_bytes st)"
  let ?s = "s\<lparr>mm_mem := ?m, mm_stats := st\<lparr>used_bytes := used_bytes st + fld ?m (of_nat c) size_off,
      free_bytes := f, peak_used_bytes := pk, allocation_count := allocation_count st + 1\<rparr>\<rparr>"
  have run: "my_malloc now req (s, fm) = Some (of_nat (c + 24), ?s, fm)"
    using ini ff valid_request[OF sz]
    by (simp add: my_malloc_def Let_def sizeof_mem_block_def take_block_def[symmetric] st_def f_def pk_def)
  have "heap_inv ?s (xs @ taken n (unat ?k) @ ys)"
    using ini inv hd ch' ext extent_taken[OF fit] wf' co' used' by (simp add: heap_inv_def arena_ok_def st_def)
  with run show ?thesis by (rule that) simp_all
qed

section \<open>Freeing\<close>

text \<open>Merging a freed block of \<open>n\<close> bytes with a free successor, then with a free predecessor\<close>

fun merge_next :: "nat \<Rightarrow> blk list \<Rightarrow> blk list" where
  "merge_next n ((k, True) # ys) = (n + 24 + k, True) # ys"
| "merge_next n ys = (n, True) # ys"

definition merge_prev :: "blk list \<Rightarrow> nat \<Rightarrow> blk list" where
  "merge_prev xs n = (if xs \<noteq> [] \<and> snd (last xs) then butlast xs @ [(fst (last xs) + 24 + n, True)]
                      else xs @ [(n, True)])"

definition merge_free :: "blk list \<Rightarrow> nat \<Rightarrow> blk list \<Rightarrow> blk list" where
  "merge_free xs n ys = merge_prev xs (fst (hd (merge_next n ys))) @ tl (merge_next n ys)"

lemma merge_next_Cons: "merge_next n ys = (fst (hd (merge_next n ys)), True) # tl (merge_next n ys)"
  by (cases "(n, ys)" rule: merge_next.cases) auto

lemma extent_merge_next: "extent (merge_next n ys) = 24 + n + extent ys"
  by (cases "(n, ys)" rule: merge_next.cases) auto

lemma coalesce_forward_chain:
  assumes ch: "chain m p a (xs @ (n, True) # ys) 0" and a0: "0 < a"
    and bound: "a + extent (xs @ (n, True) # ys) < 2 ^ 32"
    and run: "coalesce_forward (of_nat (a + extent xs)) (m, st) = (m', st')"
  shows "chain m' p a (xs @ merge_next n ys) 0" and "used_bytes st' = used_bytes st"
proof -
  define c where "c = a + extent xs"
  have cu: "unat (of_nat c :: u32) = c" using bound by (intro unat32_of_nat) (simp add: c_def)
  define e where "e = c + 24 + n"
  have eu: "unat (of_nat e :: u32) = e" using bound by (intro unat32_of_nat) (simp add: e_def c_def)
  have ez: "(of_nat e :: u32) \<noteq> 0" using eu by (auto simp: e_def)
  have nx: "m (c + 12) = of_nat (if ys = [] then 0 else e)"
    using chain_header(4)[OF ch] by (intro u32_of_unat) (simp add: c_def e_def)
  have run': "coalesce_forward (of_nat c) (m, st) = (m', st')" using run by (simp add: c_def)
  show "used_bytes st' = used_bytes st"
    using run' by (auto simp: coalesce_forward_absorb split: if_splits)
  show "chain m' p a (xs @ merge_next n ys) 0"
  proof (cases ys)
    case Nil
    then have "m' = m" using run' nx cu by (simp add: coalesce_forward_absorb fld_def)
    then show ?thesis using ch Nil by simp
  next
    case (Cons y ys')
    obtain k f where y: "y = (k, f)" by (cases y)
    have fr: "m (e + 16) = (if f then 1 else 0)"
      using chain_header(5)[of m p a "xs @ [(n, True)]" k f ys' 0] ch Cons y
      by (simp add: c_def e_def add.assoc)
    show ?thesis
    proof (cases f)
      case True
      then have "m' = absorb (of_nat c) (of_nat e) m"
        using run' nx cu eu ez fr Cons by (simp add: coalesce_forward_absorb fld_def)
      then show ?thesis
        using absorb_chain[of m p a xs n True k f ys'] ch a0 bound Cons y True by (simp add: c_def e_def)
    next
      case False
      then have "m' = m" using run' nx cu eu fr Cons by (simp add: coalesce_forward_absorb fld_def)
      then show ?thesis using ch Cons y False by simp
    qed
  qed
qed

lemma coalesce_backward_chain:
  assumes ch: "chain m 0 a (xs @ (n, True) # ys) 0" and a0: "0 < a"
    and bound: "a + extent (xs @ (n, True) # ys) < 2 ^ 32"
    and run: "coalesce_backward (of_nat (a + extent xs)) (m, st) = (m', st')"
  shows "chain m' 0 a (merge_prev xs n @ ys) 0" and "used_bytes st' = used_bytes st"
proof -
  define c where "c = a + extent xs"
  have cu: "unat (of_nat c :: u32) = c" using bound by (intro unat32_of_nat) (simp add: c_def)
  have run': "coalesce_backward (of_nat c) (m, st) = (m', st')" using run by (simp add: c_def)
  have pv: "m (c + 8) = of_nat (last_addr 0 a xs)"
    using chain_header(3)[OF ch] by (intro u32_of_unat) (simp add: c_def)
  show "used_bytes st' = used_bytes st"
    using run' by (auto simp: coalesce_backward_absorb split: if_splits)
  show "chain m' 0 a (merge_prev xs n @ ys) 0"
  proof (cases xs rule: rev_cases)
    case Nil
    then have "m' = m" using run' pv cu by (simp add: coalesce_backward_absorb fld_def)
    then show ?thesis using ch Nil by (simp add: merge_prev_def)
  next
    case (snoc ws w)
    obtain k f where w: "w = (k, f)" by (cases w)
    define d where "d = a + extent ws"
    have la: "last_addr 0 a xs = d" using snoc w by (simp add: d_def)
    have du: "unat (of_nat d :: u32) = d" using bound snoc w by (intro unat32_of_nat) (simp add: d_def)
    have dz: "(of_nat d :: u32) \<noteq> 0" using du a0 by (auto simp: d_def)
    have ch': "chain m 0 a (ws @ (k, f) # (n, True) # ys) 0" using ch snoc w by simp
    have fr: "m (d + 16) = (if f then 1 else 0)" using chain_header(5)[OF ch'] by (simp add: d_def)
    show ?thesis
    proof (cases f)
      case True
      then have "m' = absorb (of_nat d) (of_nat c) m"
        using run' pv la cu du dz fr by (simp add: coalesce_backward_absorb fld_def)
      moreover have "c = d + 24 + k" using snoc w by (simp add: c_def d_def)
      ultimately show ?thesis
        using absorb_chain[OF ch' a0] bound snoc w True by (simp add: d_def merge_prev_def)
    next
      case False
      then have "m' = m" using run' pv la cu du fr by (simp add: coalesce_backward_absorb fld_def)
      then show ?thesis using ch snoc w False by (simp add: merge_prev_def)
    qed
  qed
qed

text \<open>Both steps write headers only.\<close>

lemma coalesce_forward_frame:
  assumes ch: "chain m p a (xs @ (n, True) # ys) 0" and a0: "0 < a"
    and bound: "a + extent (xs @ (n, True) # ys) < 2 ^ 32"
    and run: "coalesce_forward (of_nat (a + extent xs)) (m, st) = (m', st')"
    and out: "\<not> header a (xs @ (n, True) # ys) x"
  shows "m' x = m x"
proof -
  define c where "c = a + extent xs"
  have cu: "unat (of_nat c :: u32) = c" using bound by (intro unat32_of_nat) (simp add: c_def)
  have nx: "m (c + 12) = of_nat (if ys = [] then 0 else c + 24 + n)"
    using chain_header(4)[OF ch] by (intro u32_of_unat) (simp add: c_def)
  have run': "coalesce_forward (of_nat c) (m, st) = (m', st')" using run by (simp add: c_def)
  show ?thesis
  proof (cases ys)
    case Nil
    then show ?thesis using run' nx cu by (simp add: coalesce_forward_absorb fld_def)
  next
    case (Cons y ys')
    obtain k f where y: "y = (k, f)" by (cases y)
    have "absorb (of_nat c) (of_nat (c + 24 + n)) m x = m x"
      using absorb_frame[of m p a xs n True k f ys' x] ch a0 bound out Cons y by (simp add: c_def)
    then show ?thesis using run' nx cu Cons by (auto simp: coalesce_forward_absorb fld_def split: if_splits)
  qed
qed

lemma coalesce_backward_frame:
  assumes ch: "chain m 0 a (xs @ (n, True) # ys) 0" and a0: "0 < a"
    and bound: "a + extent (xs @ (n, True) # ys) < 2 ^ 32"
    and run: "coalesce_backward (of_nat (a + extent xs)) (m, st) = (m', st')"
    and out: "\<not> header a (xs @ (n, True) # ys) x"
  shows "m' x = m x"
proof -
  define c where "c = a + extent xs"
  have cu: "unat (of_nat c :: u32) = c" using bound by (intro unat32_of_nat) (simp add: c_def)
  have pv: "m (c + 8) = of_nat (last_addr 0 a xs)"
    using chain_header(3)[OF ch] by (intro u32_of_unat) (simp add: c_def)
  have run': "coalesce_backward (of_nat c) (m, st) = (m', st')" using run by (simp add: c_def)
  show ?thesis
  proof (cases xs rule: rev_cases)
    case Nil
    then show ?thesis using run' pv cu by (simp add: coalesce_backward_absorb fld_def)
  next
    case (snoc ws w)
    obtain k f where w: "w = (k, f)" by (cases w)
    have ch': "chain m 0 a (ws @ (k, f) # (n, True) # ys) 0" using ch snoc w by simp
    have cd: "c = a + extent ws + 24 + k" using snoc w by (simp add: c_def)
    have "absorb (of_nat (a + extent ws)) (of_nat c) m x = m x"
      using absorb_frame[OF ch' a0] bound out snoc w by (simp add: cd)
    then show ?thesis
      using run' pv cu snoc w by (auto simp: coalesce_backward_absorb fld_def split: if_splits)
  qed
qed

lemma merge_next_header: "header a (merge_next n ys) x \<Longrightarrow> header a ((n, True) # ys) x"
  by (cases "(n, ys)" rule: merge_next.cases) (auto simp: algebra_simps)

text \<open>What merging does to the abstract block list\<close>

lemma merge_free_extent: "extent (merge_free xs n ys) = extent (xs @ (n, True) # ys)"
proof -
  have "extent (merge_prev xs k) = extent xs + 24 + k" for k
    by (cases xs rule: rev_cases) (auto simp: merge_prev_def)
  moreover have "24 + fst (hd (merge_next n ys)) + extent (tl (merge_next n ys)) = 24 + n + extent ys"
    using extent_merge_next[of n ys] by (subst (asm) merge_next_Cons) simp
  ultimately show ?thesis by (simp add: merge_free_def)
qed

lemma merge_next_allocs: "allocs a (merge_next n ys) = allocs (a + 24 + n) ys"
  by (cases "(n, ys)" rule: merge_next.cases) (auto simp: algebra_simps)

lemma merge_prev_allocs: "allocs a (merge_prev xs n) = allocs a xs"
proof (cases xs rule: rev_cases)
  case (snoc ws w)
  then show ?thesis by (cases w) (auto simp: merge_prev_def allocs_append)
qed (simp add: merge_prev_def)

lemma merge_free_allocs: "allocs a (merge_free xs n ys) = allocs a xs \<union> allocs (a + extent xs + 24 + n) ys"
proof -
  have e: "extent (merge_prev xs k) = extent xs + 24 + k" for k
    by (cases xs rule: rev_cases) (auto simp: merge_prev_def)
  have "allocs (a + extent xs) (merge_next n ys) = allocs (a + extent xs + 24 + n) ys"
    by (rule merge_next_allocs)
  then have "allocs (a + extent xs + 24 + fst (hd (merge_next n ys))) (tl (merge_next n ys))
      = allocs (a + extent xs + 24 + n) ys"
    by (subst (asm) merge_next_Cons) simp
  then show ?thesis by (simp add: merge_free_def allocs_append merge_prev_allocs e add.assoc)
qed

lemma merge_next_bytes: "alloc_bytes (tl (merge_next n ys)) = alloc_bytes ys"
  by (cases "(n, ys)" rule: merge_next.cases) auto

lemma merge_free_bytes: "alloc_bytes (merge_free xs n ys) = alloc_bytes xs + alloc_bytes ys"
proof -
  have "alloc_bytes (merge_prev xs k) = alloc_bytes xs" for k
  proof (cases xs rule: rev_cases)
    case (snoc ws w)
    then show ?thesis by (cases w) (auto simp: merge_prev_def)
  qed (simp add: merge_prev_def)
  then show ?thesis by (simp add: merge_free_def merge_next_bytes)
qed

lemma merge_next_props:
  assumes "wf_blocks ((n, False) # ys)" and "coalesced ys"
  shows "wf_blocks (merge_next n ys)" and "coalesced (merge_next n ys)"
  using assms by (cases "(n, ys)" rule: merge_next.cases; auto simp: coalesced_Cons)+

lemma merge_free_props:
  assumes wf: "wf_blocks (xs @ (n, False) # ys)" and co: "coalesced (xs @ (n, False) # ys)"
  shows "wf_blocks (merge_free xs n ys)" and "coalesced (merge_free xs n ys)"
proof -
  define k where "k = fst (hd (merge_next n ys))"
  define zs where "zs = tl (merge_next n ys)"
  have mn: "merge_next n ys = (k, True) # zs" unfolding k_def zs_def by (rule merge_next_Cons)
  have wf1: "wf_blocks xs" "wf_blocks ((k, True) # zs)"
    using wf merge_next_props(1)[of n ys] co mn by (auto simp: coalesced_append coalesced_Cons)
  have co1: "coalesced xs" "coalesced ((k, True) # zs)"
    using co merge_next_props(2)[of n ys] wf mn by (auto simp: coalesced_append coalesced_Cons)
  show "wf_blocks (merge_free xs n ys)"
  proof (cases xs rule: rev_cases)
    case (snoc ws w)
    then show ?thesis using wf1 mn by (cases w) (auto simp: merge_free_def merge_prev_def intro!: dvd_add)
  qed (use wf1 mn in \<open>auto simp: merge_free_def merge_prev_def\<close>)
  show "coalesced (merge_free xs n ys)"
  proof (cases xs rule: rev_cases)
    case (snoc ws w)
    then show ?thesis using co1 mn
      by (cases w) (auto simp: merge_free_def merge_prev_def coalesced_append coalesced_Cons)
  qed (use co1 mn in \<open>auto simp: merge_free_def merge_prev_def coalesced_append coalesced_Cons\<close>)
qed

lemma coalesce_keeps_header:
  assumes ch: "chain m 0 a (xs @ (n, True) # ys) 0" and a0: "0 < a"
    and bound: "a + extent (xs @ (n, True) # ys) < 2 ^ 32"
    and f: "coalesce_forward (of_nat (a + extent xs)) (m, st) = (m1, st1)"
    and b: "coalesce_backward (of_nat (a + extent xs)) (m1, st1) = (m2, st2)"
  shows "m2 (a + extent xs) = m (a + extent xs)"
proof -
  define c where "c = a + extent xs"
  have cu: "unat (of_nat c :: u32) = c" using bound by (intro unat32_of_nat) (simp add: c_def)
  define k where "k = fst (hd (merge_next n ys))"
  have ch1: "chain m1 0 a (xs @ (k, True) # tl (merge_next n ys)) 0"
    using coalesce_forward_chain(1)[OF ch a0 bound f] merge_next_Cons[of n ys] by (simp add: k_def)
  have m1: "m1 c = MK_BLOCK_MAGIC_FREE" and mc: "m c = MK_BLOCK_MAGIC_FREE"
    using chain_header(1)[OF ch1] chain_header(1)[OF ch] by (simp_all add: c_def)
  have b': "coalesce_backward (of_nat c) (m1, st1) = (m2, st2)" using b by (simp add: c_def)
  have pv: "m1 (c + 8) = of_nat (last_addr 0 a xs)"
    using chain_header(3)[OF ch1] by (intro u32_of_unat) (simp add: c_def)
  have "m2 c = m1 c"
  proof (cases xs rule: rev_cases)
    case Nil
    then show ?thesis using b' pv cu by (simp add: coalesce_backward_absorb fld_def)
  next
    case (snoc ws w)
    obtain j f where w: "w = (j, f)" by (cases w)
    have bnd: "(a + extent ws) + extent ((j, f) # (k, True) # tl (merge_next n ys)) < 2 ^ 32"
      using bound snoc w extent_merge_next[of n ys] merge_next_Cons[of n ys]
      by (simp add: k_def)
    have sub: "chain m1 (last_addr 0 a ws) (a + extent ws) ((j, f) # (k, True) # tl (merge_next n ys)) 0"
      using ch1 snoc w by (simp add: chain_append)
    have cd: "c = a + extent ws + 24 + j" using snoc w by (simp add: c_def)
    have "absorb (of_nat (a + extent ws)) (of_nat c) m1 c = m1 c"
      using absorb_apply[OF sub _ bnd, of c] a0 by (simp add: cd)
    then show ?thesis using b' pv snoc w cu by (auto simp: coalesce_backward_absorb fld_def split: if_splits)
  qed
  then show ?thesis using m1 mc by (simp add: c_def)
qed

text \<open>The checks of \<open>my_free\<close> on a live pointer\<close>

lemma live_pointer:
  assumes inv: "heap_inv s (xs @ (n, False) # ys)"
  defines "c \<equiv> unat (mm_arena s) + extent xs"
  shows "unat (of_nat (c + 24) :: u32) = c + 24"
    and "\<not> of_nat (c + 24) < mm_arena s + sizeof_mem_block"
    and "\<not> mm_arena s + MK_ARENA_SIZE \<le> of_nat (c + 24)"
    and "(of_nat (c + 24) :: u32) AND 7 = 0"
proof -
  have a: "8 dvd unat (mm_arena s)" "unat (mm_arena s) + 131072 < 2 ^ 32"
    and ext: "extent xs + 24 + n + extent ys = 131072" and n: "8 \<le> n" and wf: "wf_blocks xs"
    using inv by (auto simp: heap_inv_def arena_ok_def)
  have c: "c + 24 + 8 \<le> unat (mm_arena s) + 131072" using ext n by (simp add: c_def)
  then show u: "unat (of_nat (c + 24) :: u32) = c + 24"
    using a by (intro unat32_of_nat) linarith
  have s1: "unat (mm_arena s + sizeof_mem_block) = unat (mm_arena s) + 24"
    and s2: "unat (mm_arena s + MK_ARENA_SIZE) = unat (mm_arena s) + 131072"
    using a by (simp_all add: unat_add_small sizeof_mem_block_def MK_ARENA_SIZE_def)
  show "\<not> of_nat (c + 24) < mm_arena s + sizeof_mem_block"
    unfolding word_less_nat_alt u s1 by (simp add: c_def)
  show "\<not> mm_arena s + MK_ARENA_SIZE \<le> of_nat (c + 24)"
    unfolding word_le_nat_alt u s2 using c by simp
  have "8 dvd c + 24" using a extent_dvd[OF wf] by (simp add: c_def)
  then have "unat ((of_nat (c + 24) :: u32) AND 7) = 0" unfolding and_7_mod u by simp
  then show "(of_nat (c + 24) :: u32) AND 7 = 0" by (simp add: unat_eq_0)
qed

lemma free_live:
  assumes inv: "heap_inv s (xs @ (n, False) # ys)"
  defines "c \<equiv> unat (mm_arena s) + extent xs"
  obtains s' where "my_free now (of_nat (c + 24)) (s, fm) = (s', fm)"
    and "heap_inv s' (merge_free xs n ys)" and "mm_arena s' = mm_arena s"
    and "mm_mem s' c = MK_BLOCK_MAGIC_FREE"
    and "unat (used_bytes (mm_stats s')) + n = unat (used_bytes (mm_stats s))"
    and "free_count (mm_stats s') = free_count (mm_stats s) + 1"
    and "\<And>x. \<not> header (unat (mm_arena s)) (xs @ (n, False) # ys) x \<Longrightarrow> mm_mem s' x = mm_mem s x"
proof -
  let ?a = "unat (mm_arena s)" and ?bs = "xs @ (n, False) # ys" and ?m = "mm_mem s"
  obtain p where p: "p = (of_nat (c + 24) :: u32)" by simp
  have ch: "chain ?m 0 ?a ?bs 0" and a0: "0 < ?a" and ext: "extent ?bs = 131072"
    and b32: "?a + extent (xs @ (n, True) # ys) < 2 ^ 32" and ini: "mm_initialized s"
    and used: "unat (used_bytes (mm_stats s)) = alloc_bytes ?bs" and wf: "wf_blocks ?bs" and co: "coalesced ?bs"
    using inv by (auto simp: heap_inv_def arena_ok_def)
  note lp = live_pointer[OF inv, folded c_def]
  have cu: "unat (of_nat c :: u32) = c" using b32 by (intro unat32_of_nat) (simp add: c_def)
  have blk: "p - sizeof_mem_block = of_nat c" by (simp add: p sizeof_mem_block_def)
  have pz: "p \<noteq> 0" using lp(1) unfolding p by (metis add_is_0 unat_0 zero_neq_numeral)
  have hd: "?m c = MK_BLOCK_MAGIC_ALLOC" "?m (c + 16) = 0" "unat (?m (c + 4)) = n"
    using chain_header[OF ch] by (simp_all add: c_def)
  define m1 where "m1 = ?m(c := MK_BLOCK_MAGIC_FREE, c + 16 := 1)"
  have ch1: "chain m1 0 ?a (xs @ (n, True) # ys) 0"
    using ch by (rule chain_flag) (simp_all add: m1_def c_def)
  have le: "m1 (c + 4) \<le> used_bytes (mm_stats s)" using hd(3) used by (simp add: m1_def word_le_nat_alt)
  define st1 where "st1 = (mm_stats s)\<lparr>used_bytes := used_bytes (mm_stats s) - m1 (c + 4),
      free_bytes := free_bytes (mm_stats s) + m1 (c + 4), free_count := free_count (mm_stats s) + 1\<rparr>"
  obtain m2 st2 where f: "coalesce_forward (of_nat c) (m1, st1) = (m2, st2)" by fastforce
  obtain m3 st3 where b: "coalesce_backward (of_nat c) (m2, st2) = (m3, st3)" by fastforce
  let ?s = "s\<lparr>mm_mem := m3, mm_stats := st3\<rparr>"
  have run: "my_free now p (s, fm) = (?s, fm)"
    using pz ini lp(2-4)[folded p] hd le f b cu
    by (simp add: my_free_def Let_def blk fld_def put_fld_def m1_def st1_def)
  have ch2: "chain m2 0 ?a (xs @ merge_next n ys) 0" and u2: "used_bytes st2 = used_bytes st1"
    using coalesce_forward_chain[OF ch1 a0 b32] f by (simp_all add: c_def)
  define k where "k = fst (hd (merge_next n ys))"
  have mn: "merge_next n ys = (k, True) # tl (merge_next n ys)" unfolding k_def by (rule merge_next_Cons)
  have b32': "?a + extent (xs @ (k, True) # tl (merge_next n ys)) < 2 ^ 32"
    using b32 extent_merge_next[of n ys] mn[symmetric] by simp
  have ch2': "chain m2 0 ?a (xs @ (k, True) # tl (merge_next n ys)) 0" using ch2 mn by simp
  have ch3: "chain m3 0 ?a (merge_free xs n ys) 0" and u3: "used_bytes st3 = used_bytes st2"
    using coalesce_backward_chain[OF ch2' a0 b32'] b by (simp_all add: c_def merge_free_def k_def)
  have u1: "unat (used_bytes st1) = alloc_bytes xs + alloc_bytes ys"
    using hd(3) le used by (simp add: st1_def m1_def unat_sub_small)
  have fc: "free_count st3 = free_count (mm_stats s) + 1"
    using f b by (auto simp: coalesce_forward_absorb coalesce_backward_absorb st1_def split: if_splits)
  have "heap_inv ?s (merge_free xs n ys)"
    using inv ini ext ch3 merge_free_extent[of xs n ys] merge_free_props[OF wf co] merge_free_bytes[of xs n ys]
      u1 u2 u3
    by (simp add: heap_inv_def arena_ok_def)
  moreover have "m3 c = MK_BLOCK_MAGIC_FREE"
    using coalesce_keeps_header[OF ch1 a0 b32] f b by (simp add: c_def m1_def)
  moreover have "m3 x = ?m x" if "\<not> header ?a ?bs x" for x
  proof -
    have o: "\<not> header ?a (xs @ (n, True) # ys) x" using that by (simp add: header_append)
    then have "x \<noteq> c \<and> x \<noteq> c + 16" by (auto simp: header_append c_def)
    then have "m1 x = ?m x" by (simp add: m1_def)
    moreover have "m2 x = m1 x" using coalesce_forward_frame[OF ch1 a0 b32 _ o] f by (simp add: c_def)
    moreover have "\<not> header ?a (xs @ (k, True) # tl (merge_next n ys)) x"
      using o merge_next_header[of "?a + extent xs" n ys x] mn[symmetric] by (auto simp: header_append)
    then have "m3 x = m2 x" using coalesce_backward_frame[OF ch2' a0 b32'] b by (simp add: c_def)
    ultimately show ?thesis by simp
  qed
  ultimately show ?thesis using run[unfolded p] u1 u2 u3 fc used by (intro that[of ?s]) simp_all
qed

text \<open>A second free of the same pointer is refused and recorded.\<close>

lemma free_twice:
  assumes inv: "heap_inv s (xs @ (n, False) # ys)"
  defines "c \<equiv> unat (mm_arena s) + extent xs"
  assumes s': "mm_arena s' = mm_arena s" "mm_initialized s'" and mg: "mm_mem s' c = MK_BLOCK_MAGIC_FREE"
  shows "my_free now (of_nat (c + 24)) (s', fm) =
    (s'\<lparr>mm_stats := (mm_stats s')\<lparr>double_free_attempts := double_free_attempts (mm_stats s') + 1\<rparr>\<rparr>,
     mk_fault_record_full now MK_FAULT_MEMORY_DOUBLE_FREE MK_FAULT_SRC_MEMORY MK_FAULT_SEV_WARNING
       0xBAD00004 (of_nat (c + 24)) fm)"
proof -
  note lp = live_pointer[OF inv, folded c_def]
  have cu: "unat (of_nat c :: u32) = c" using lp(1) by (intro unat32_of_nat) (use inv in \<open>simp add: heap_inv_def arena_ok_def c_def\<close>)
  obtain p where p: "p = (of_nat (c + 24) :: u32)" by simp
  have blk: "p - sizeof_mem_block = of_nat c" by (simp add: p sizeof_mem_block_def)
  have pz: "p \<noteq> 0" using lp(1) unfolding p by (metis add_is_0 unat_0 zero_neq_numeral)
  show ?thesis using lp(2-4) pz s' mg cu unfolding p[symmetric] by (simp add: my_free_def Let_def blk fld_def)
qed

end
