(* ===== verification/Allocator.thy ===== *)
theory Allocator
  imports Main
begin

text \<open>
  What the clients of the two allocators of the kernel rely on: the interface \<open>allocator\<close>, and what
  a client can conclude from it about any sequence of requests and releases. \<^verbatim>\<open>my_malloc\<close>/\<^verbatim>\<open>my_free\<close>
  and \<^verbatim>\<open>mk_pool_alloc\<close>/\<^verbatim>\<open>mk_pool_free\<close> implement it.
\<close>

section \<open>Client sessions\<close>

datatype 'z request = Request 'z | Release nat

definition drop_nth :: "nat \<Rightarrow> 'a list \<Rightarrow> 'a list" where
  "drop_nth i xs = take i xs @ drop (Suc i) xs"

text \<open>A client keeps a list of the pointers it holds, with the size it asked for. It releases by
  position. \<open>None\<close> is a request that does not return.\<close>

fun session ::
  "('z \<Rightarrow> 's \<Rightarrow> (nat \<times> 's) option) \<Rightarrow> (nat \<Rightarrow> 's \<Rightarrow> 's) \<Rightarrow> 'z request list \<Rightarrow> 's \<times> (nat \<times> 'z) list
   \<Rightarrow> ('s \<times> (nat \<times> 'z) list) option" where
  "session alloc free [] st = Some st"
| "session alloc free (Request z # rs) (s, live) =
     (case alloc z s of None \<Rightarrow> None
      | Some (p, s') \<Rightarrow> session alloc free rs (s', if p = 0 then live else live @ [(p, z)]))"
| "session alloc free (Release i # rs) (s, live) =
     (if i < length live then session alloc free rs (free (fst (live ! i)) s, drop_nth i live)
      else session alloc free rs (s, live))"

lemma set_drop_nth:
  assumes "distinct gs" and "i < length gs"
  shows "set (drop_nth i gs) = set gs - {gs ! i}" and "distinct (drop_nth i gs)"
proof -
  have e: "gs = take i gs @ gs ! i # drop (Suc i) gs" using assms(2) by (rule id_take_nth_drop)
  have d: "distinct (take i gs @ gs ! i # drop (Suc i) gs)" using assms(1) e by simp
  have "set gs = insert (gs ! i) (set (drop_nth i gs))"
    by (subst e) (auto simp: drop_nth_def)
  moreover have "gs ! i \<notin> set (drop_nth i gs)" using d by (auto simp: drop_nth_def)
  ultimately show "set (drop_nth i gs) = set gs - {gs ! i}" by blast
  show "distinct (drop_nth i gs)" using d by (auto simp: drop_nth_def)
qed

lemma list_all2_drop_nth: "list_all2 P xs ys \<Longrightarrow> list_all2 P (drop_nth i xs) (drop_nth i ys)"
  by (auto simp: drop_nth_def intro!: list_all2_appendI)

section \<open>The interface\<close>

text \<open>\<open>inv s L\<close>: state \<open>s\<close> is well formed and \<open>L\<close> are its live blocks, with address and size.\<close>

locale allocator =
  fixes inv :: "'s \<Rightarrow> (nat \<times> nat) set \<Rightarrow> bool"
    and bytes :: "'z \<Rightarrow> nat"
    and alloc :: "'z \<Rightarrow> 's \<Rightarrow> (nat \<times> 's) option"
    and free :: "nat \<Rightarrow> 's \<Rightarrow> 's"
  assumes live_aligned: "inv s L \<Longrightarrow> (p, n) \<in> L \<Longrightarrow> 8 dvd p"
    and live_apart: "inv s L \<Longrightarrow> (p, n) \<in> L \<Longrightarrow> (q, k) \<in> L \<Longrightarrow> (p, n) \<noteq> (q, k) \<Longrightarrow> p + n \<le> q \<or> q + k \<le> p"
    and alloc_live: "inv s L \<Longrightarrow> \<exists>p s'. alloc z s = Some (p, s') \<and>
        (p = 0 \<and> inv s' L \<or> p \<noteq> 0 \<and> (\<exists>n. bytes z \<le> n \<and> (p, n) \<notin> L \<and> inv s' (insert (p, n) L)))"
    and free_live: "inv s L \<Longrightarrow> (p, n) \<in> L \<Longrightarrow> inv (free p s) (L - {(p, n)})"
begin

definition tracked :: "'s \<Rightarrow> (nat \<times> 'z) list \<Rightarrow> bool" where
  "tracked s live \<longleftrightarrow> (\<exists>L gs. inv s L \<and> set gs = L \<and> distinct gs
     \<and> list_all2 (\<lambda>(p, z) (q, n). p = q \<and> bytes z \<le> n) live gs)"

lemma session_tracked:
  "tracked s live \<Longrightarrow> \<exists>s' live'. session alloc free rs (s, live) = Some (s', live') \<and> tracked s' live'"
proof (induction rs arbitrary: s live)
  case Nil
  then show ?case by simp
next
  case (Cons r rs)
  obtain gs where inv: "inv s (set gs)" and d: "distinct gs"
    and l: "list_all2 (\<lambda>(p, z) (q, n). p = q \<and> bytes z \<le> n) live gs" using Cons.prems by (auto simp: tracked_def)
  show ?case
  proof (cases r)
    case (Request z)
    obtain p s' where r: "alloc z s = Some (p, s')"
      and c: "p = 0 \<and> inv s' (set gs) \<or> p \<noteq> 0 \<and> (\<exists>n. bytes z \<le> n \<and> (p, n) \<notin> set gs \<and> inv s' (insert (p, n) (set gs)))"
      using alloc_live[OF inv] by blast
    have "tracked s' (if p = 0 then live else live @ [(p, z)])"
    proof (cases "p = 0")
      case True
      then show ?thesis using c d l by (auto simp: tracked_def)
    next
      case False
      then obtain n where n: "bytes z \<le> n" "(p, n) \<notin> set gs" "inv s' (insert (p, n) (set gs))" using c by blast
      then show ?thesis unfolding tracked_def using False d l
        by (intro exI[of _ "insert (p, n) (set gs)"] exI[of _ "gs @ [(p, n)]"]) (auto intro: list_all2_appendI)
    qed
    from Cons.IH[OF this] show ?thesis using Request r by simp
  next
    case (Release i)
    show ?thesis
    proof (cases "i < length live")
      case False
      then show ?thesis using Cons.IH[OF Cons.prems] Release by simp
    next
      case True
      then have i: "i < length gs" using l by (simp add: list_all2_lengthD)
      obtain p n where g: "gs ! i = (p, n)" by fastforce
      have p: "fst (live ! i) = p" using list_all2_nthD[OF l True] g by (auto split: prod.splits)
      have "(p, n) \<in> set gs" unfolding g[symmetric] using i by (rule nth_mem)
      from free_live[OF inv this] have "tracked (free p s) (drop_nth i live)"
        unfolding tracked_def using set_drop_nth[OF d i] list_all2_drop_nth[OF l] g
        by (intro exI[of _ "set gs - {(p, n)}"] exI[of _ "drop_nth i gs"]) simp
      from Cons.IH[OF this] show ?thesis using Release True p by simp
    qed
  qed
qed

text \<open>What a client knows: its blocks are aligned and do not overlap.\<close>

lemma tracked_safe:
  assumes "tracked s live" and "i < length live"
  shows "8 dvd fst (live ! i)"
    and "j < length live \<Longrightarrow> i \<noteq> j \<Longrightarrow>
      fst (live ! i) + bytes (snd (live ! i)) \<le> fst (live ! j) \<or> fst (live ! j) + bytes (snd (live ! j)) \<le> fst (live ! i)"
proof -
  obtain gs where inv: "inv s (set gs)" and d: "distinct gs"
    and l: "list_all2 (\<lambda>(p, z) (q, n). p = q \<and> bytes z \<le> n) live gs" using assms(1) by (auto simp: tracked_def)
  have at: "gs ! k \<in> set gs \<and> fst (live ! k) = fst (gs ! k) \<and> bytes (snd (live ! k)) \<le> snd (gs ! k)"
    if "k < length live" for k
    using list_all2_nthD[OF l that] that l by (auto simp: list_all2_lengthD split: prod.splits)
  have mem: "(fst (gs ! i), snd (gs ! i)) \<in> set gs" using at[OF assms(2)] by simp
  show "8 dvd fst (live ! i)" using live_aligned[OF inv mem] at[OF assms(2)] by simp
  assume j: "j < length live" "i \<noteq> j"
  have memj: "(fst (gs ! j), snd (gs ! j)) \<in> set gs" using at[OF j(1)] by simp
  have "gs ! i \<noteq> gs ! j" using d assms(2) j l by (simp add: nth_eq_iff_index_eq list_all2_lengthD)
  then have "fst (gs ! i) + snd (gs ! i) \<le> fst (gs ! j) \<or> fst (gs ! j) + snd (gs ! j) \<le> fst (gs ! i)"
    by (intro live_apart[OF inv mem memj]) (simp add: prod_eq_iff)
  then show "fst (live ! i) + bytes (snd (live ! i)) \<le> fst (live ! j)
      \<or> fst (live ! j) + bytes (snd (live ! j)) \<le> fst (live ! i)"
    using at[OF assms(2)] at[OF j(1)] by linarith
qed

lemma tracked_empty: "inv s {} \<Longrightarrow> tracked s []"
  by (auto simp: tracked_def)

end

end
