(* ===== verification/Memory_Client.thy ===== *)
theory Memory_Client
  imports Memory_Safety Allocator
begin

text \<open>
  The allocator as its clients use it: any sequence of allocations, frees of live blocks, refused
  frees and stores into live blocks. The client keeps, for every live block, its pointer, the size
  it asked for and what it stored; the invariant says that the arena agrees.
\<close>

section \<open>Clients\<close>

datatype heap_op = Malloc u32 | Free_nth nat | Bad_free u32 | Store nat nat u32

record live_block =
  lb_ptr :: u32
  lb_req :: u32
  lb_data :: "nat \<Rightarrow> u32 option"

text \<open>\<open>None\<close> is a call that does not return. A client frees live blocks, or a pointer the checks of
  \<open>my_free\<close> refuse; it stores aligned words inside its blocks.\<close>

fun client_step :: "u32 option \<Rightarrow> heap_op \<Rightarrow> memory \<times> fault_manager \<times> live_block list
    \<Rightarrow> (memory \<times> fault_manager \<times> live_block list) option" where
  "client_step now (Malloc req) (s, fm, live) =
     (case my_malloc now req (s, fm) of None \<Rightarrow> None
      | Some (p, s', fm') \<Rightarrow> Some (s', fm', if p = 0 then live
          else live @ [\<lparr>lb_ptr = p, lb_req = req, lb_data = (\<lambda>_. None)\<rparr>]))"
| "client_step now (Free_nth i) (s, fm, live) =
     (if i < length live
      then case my_free now (lb_ptr (live ! i)) (s, fm) of (s', fm') \<Rightarrow> Some (s', fm', drop_nth i live)
      else Some (s, fm, live))"
| "client_step now (Bad_free p) (s, fm, live) =
     (if p = 0 \<or> p < mm_arena s + sizeof_mem_block \<or> mm_arena s + MK_ARENA_SIZE \<le> p \<or> p AND 7 \<noteq> 0
      then case my_free now p (s, fm) of (s', fm') \<Rightarrow> Some (s', fm', live)
      else Some (s, fm, live))"
| "client_step now (Store i off v) (s, fm, live) =
     (if i < length live \<and> off + 4 \<le> unat (lb_req (live ! i)) \<and> 4 dvd off
      then Some (s\<lparr>mm_mem := (mm_mem s)(unat (lb_ptr (live ! i)) + off := v)\<rparr>, fm,
                 live[i := (live ! i)\<lparr>lb_data := (lb_data (live ! i))(off := Some v)\<rparr>])
      else Some (s, fm, live))"

fun client_run :: "u32 option \<Rightarrow> heap_op list \<Rightarrow> memory \<times> fault_manager \<times> live_block list
    \<Rightarrow> (memory \<times> fault_manager \<times> live_block list) option" where
  "client_run now [] st = Some st"
| "client_run now (op # ops) st =
     (case client_step now op st of None \<Rightarrow> None | Some st' \<Rightarrow> client_run now ops st')"

text \<open>\<open>holds m l (q, n)\<close>: live block \<open>l\<close> is the allocation of \<open>n\<close> bytes at \<open>q\<close>, with its data.\<close>

definition holds :: "(nat \<Rightarrow> u32) \<Rightarrow> live_block \<Rightarrow> nat \<times> nat \<Rightarrow> bool" where
  "holds m l g \<longleftrightarrow> unat (lb_ptr l) = fst g \<and> unat (lb_req l) \<le> snd g
     \<and> (\<forall>off v. lb_data l off = Some v \<longrightarrow> off < snd g \<and> m (fst g + off) = v)"

definition client_inv :: "memory \<Rightarrow> live_block list \<Rightarrow> bool" where
  "client_inv s live \<longleftrightarrow> (\<exists>bs gs. heap_inv s bs \<and> distinct gs \<and> set gs = allocs (unat (mm_arena s)) bs
     \<and> list_all2 (holds (mm_mem s)) live gs)"

section \<open>Auxiliary facts\<close>

lemma allocs_no_header:
  "(q, n) \<in> allocs a bs \<Longrightarrow> q \<le> x \<Longrightarrow> x < q + n \<Longrightarrow> \<not> header a bs x"
proof (induction bs arbitrary: a rule: extent.induct)
  case 1
  then show ?case by simp
next
  case (2 k f bs)
  then consider "(q, n) = (a + 24, k)" | "(q, n) \<in> allocs (a + 24 + k) bs" by (auto split: if_splits)
  then show ?case
  proof cases
    case 1
    then show ?thesis using "2.prems" header_ge[of "a + 24 + k" bs x] by auto
  next
    case 2
    then show ?thesis using "2.IH" "2.prems" allocs_bounds[OF 2] by auto
  qed
qed

lemma holds_frame:
  assumes "holds m l g" and "\<And>x. fst g \<le> x \<Longrightarrow> x < fst g + snd g \<Longrightarrow> m' x = m x"
  shows "holds m' l g"
  using assms by (auto simp: holds_def)

lemma set_drop_nth_subset: "set (drop_nth i gs) \<subseteq> set gs"
  by (auto simp: drop_nth_def dest: in_set_takeD in_set_dropD)

text \<open>A frame step keeps every live block it leaves alone.\<close>

lemma live_frame:
  assumes l: "list_all2 (holds m) live gs"
    and same: "\<And>q n x. (q, n) \<in> set gs \<Longrightarrow> q \<le> x \<Longrightarrow> x < q + n \<Longrightarrow> m' x = m x"
  shows "list_all2 (holds m') live gs"
  unfolding list_all2_conv_all_nth
proof (intro conjI allI impI)
  show "length live = length gs" using l by (rule list_all2_lengthD)
  fix i assume i: "i < length live"
  then have g: "gs ! i \<in> set gs" using l by (simp add: list_all2_lengthD)
  have "holds m (live ! i) (gs ! i)" using l i by (rule list_all2_nthD)
  then show "holds m' (live ! i) (gs ! i)"
    by (rule holds_frame) (use g same[of "fst (gs ! i)" "snd (gs ! i)"] in simp)
qed

section \<open>Every operation keeps the invariant\<close>

lemma client_inv_stats:
  assumes "client_inv s live" and "used_bytes st = used_bytes (mm_stats s)"
  shows "client_inv (s\<lparr>mm_stats := st\<rparr>) live"
  using assms by (simp add: client_inv_def heap_inv_def arena_ok_def)

text \<open>A request either fails and leaves the arena alone, or adds one live block and no store reaches
  the others.\<close>

lemma malloc_live:
  assumes h: "heap_inv s bs"
  obtains (refused) s' fm' where "my_malloc now req (s, fm) = Some (0, s', fm')" and "heap_inv s' bs"
      and "mm_arena s' = mm_arena s" and "mm_mem s' = mm_mem s"
  | (granted) p s' n bs' where "my_malloc now req (s, fm) = Some (p, s', fm)" and "heap_inv s' bs'"
      and "mm_arena s' = mm_arena s" and "p \<noteq> 0" and "unat req \<le> n"
      and "(unat p, n) \<notin> allocs (unat (mm_arena s)) bs"
      and "allocs (unat (mm_arena s)) bs' = insert (unat p, n) (allocs (unat (mm_arena s)) bs)"
      and "\<And>q k x. (q, k) \<in> allocs (unat (mm_arena s)) bs \<Longrightarrow> q \<le> x \<Longrightarrow> x < q + k \<Longrightarrow> mm_mem s' x = mm_mem s x"
proof -
  let ?a = "unat (mm_arena s)"
  have a: "0 < ?a" "?a + 131072 < 2 ^ 32" "extent bs = 131072" "mm_initialized s"
    using h by (auto simp: heap_inv_def arena_ok_def)
  have st: "heap_inv (s\<lparr>mm_stats := (mm_stats s)\<lparr>failed_allocations := m\<rparr>\<rparr>) bs" for m
    using h by (simp add: heap_inv_def arena_ok_def)
  consider "\<not> (0 < req \<and> unat req \<le> 131048)" | "0 < req" "unat req \<le> 131048" by blast
  then show ?thesis
  proof cases
    case 1
    then have "req = 0 \<or> MK_ARENA_SIZE - sizeof_mem_block < req"
      by (auto simp: MK_ARENA_SIZE_def sizeof_mem_block_def word_less_nat_alt unat_eq_0)
    then have "my_malloc now req (s, fm) = Some (0, s\<lparr>mm_stats := (mm_stats s)\<lparr>failed_allocations :=
        failed_allocations (mm_stats s) + 1\<rparr>\<rparr>, fm)"
      using a(4) by (auto simp: my_malloc_def Let_def)
    then show ?thesis by (rule refused) (simp_all add: st)
  next
    case 2
    note sz = 2
    show ?thesis
    proof (cases rule: fit_cases[of "unat (MK_ALIGN req)" bs])
      case 1
      show ?thesis by (rule refused[OF malloc_exhausted[OF h sz 1]]) (simp_all add: st)
    next
      case (2 xs n ys)
      let ?k = "unat (MK_ALIGN req)"
      define c where "c = ?a + extent xs"
      have hb: "heap_inv s (xs @ (n, True) # ys)" using h 2(1) by simp
      obtain s' where run: "my_malloc now req (s, fm) = Some (of_nat (c + 24), s', fm)"
        and h': "heap_inv s' (xs @ taken n ?k @ ys)"
        and m': "mm_mem s' = take_block (of_nat c) (MK_ALIGN req) (mm_mem s)"
        and ar: "mm_arena s' = mm_arena s"
        using malloc_found[OF hb sz 2(2,3)] unfolding c_def by blast
      have cb: "c + 24 + n + extent ys = ?a + 131072" using a 2(1) by (simp add: c_def)
      then have pu: "unat (of_nat (c + 24) :: u32) = c + 24" using a by (intro unat32_of_nat) linarith
      then have pz: "(of_nat (c + 24) :: u32) \<noteq> 0" by (metis add_is_0 unat_0 zero_neq_numeral)
      define z where "z = fst (hd (taken n ?k))"
      have zk: "unat req \<le> z" using MK_ALIGN_bounds(3)[OF sz] 2(2) by (simp add: z_def taken_def)
      have al: "allocs ?a (xs @ taken n ?k @ ys) = insert (c + 24, z) (allocs ?a bs)"
        using 2(1,2) by (auto simp: allocs_append taken_def z_def c_def add.assoc)
      have out: "q + k \<le> c \<or> c + 24 + n + 24 \<le> q" if "(q, k) \<in> allocs ?a bs" for q k
        using that allocs_bounds[of q k ?a xs] allocs_bounds[of q k "c + 24 + n" ys] 2(1)
        by (auto simp: allocs_append c_def)
      have nin: "(c + 24, z) \<notin> allocs ?a bs" using out[of "c + 24" z] by auto
      have "mm_mem s' x = mm_mem s x" if q: "(q, k) \<in> allocs ?a bs" "q \<le> x" "x < q + k" for q k x
      proof -
        have b32: "?a + extent (xs @ (n, True) # ys) < 2 ^ 32" using a 2(1) by simp
        have ch: "chain (mm_mem s) 0 ?a (xs @ (n, True) # ys) 0" using hb by (simp add: heap_inv_def)
        show ?thesis
          unfolding m' c_def using out[OF q(1)] q(2,3)
          by (intro take_block_frame[OF ch a(1) b32 2(2)]) (auto simp: c_def)
      qed
      then show ?thesis by (intro granted[OF run h' ar pz zk]) (simp_all only: pu nin al not_False_eq_True)
    qed
  qed
qed

text \<open>Freeing a live block removes just that block.\<close>

lemma free_one:
  assumes h: "heap_inv s bs" and q: "(q, n) \<in> allocs (unat (mm_arena s)) bs"
  obtains s' bs' where "my_free now (of_nat q) (s, fm) = (s', fm)" and "heap_inv s' bs'" and "mm_arena s' = mm_arena s"
    and "allocs (unat (mm_arena s)) bs' = allocs (unat (mm_arena s)) bs - {(q, n)}"
    and "\<And>b k x. (b, k) \<in> allocs (unat (mm_arena s)) bs \<Longrightarrow> b \<le> x \<Longrightarrow> x < b + k \<Longrightarrow> mm_mem s' x = mm_mem s x"
proof -
  let ?a = "unat (mm_arena s)"
  obtain xs ys where bs: "bs = xs @ (n, False) # ys" and qa: "q = ?a + extent xs + 24"
    using q by (rule allocs_split)
  have hb: "heap_inv s (xs @ (n, False) # ys)" using h bs by simp
  obtain s' where run: "my_free now (of_nat q) (s, fm) = (s', fm)"
    and h': "heap_inv s' (merge_free xs n ys)" and ar: "mm_arena s' = mm_arena s"
    and fr: "\<And>x. \<not> header ?a bs x \<Longrightarrow> mm_mem s' x = mm_mem s x"
    using free_live[OF hb, where now = now and fm = fm] unfolding qa bs by blast
  have nin: "(q, n) \<notin> allocs ?a xs" "(q, n) \<notin> allocs (?a + extent xs + 24 + n) ys"
    using allocs_bounds[of q n ?a xs] allocs_bounds[of q n "?a + extent xs + 24 + n" ys] qa by auto
  then have al: "allocs ?a (merge_free xs n ys) = allocs ?a bs - {(q, n)}"
    by (auto simp: bs merge_free_allocs allocs_append qa add.assoc)
  show ?thesis by (rule that[OF run h' ar al]) (rule fr[OF allocs_no_header])
qed

lemma client_malloc:
  assumes inv: "client_inv s live"
  shows "\<exists>s' fm' live'. client_step now (Malloc req) (s, fm, live) = Some (s', fm', live')
    \<and> client_inv s' live' \<and> mm_arena s' = mm_arena s"
proof -
  obtain bs gs where h: "heap_inv s bs" and d: "distinct gs" and g: "set gs = allocs (unat (mm_arena s)) bs"
    and l: "list_all2 (holds (mm_mem s)) live gs" using inv by (auto simp: client_inv_def)
  show ?thesis
  proof (cases rule: malloc_live[OF h, of now req fm])
    case (1 s' fm')
    then have "client_inv s' live" using d g l by (auto simp: client_inv_def)
    then show ?thesis using 1 by simp
  next
    case (2 p s' n bs')
    have "list_all2 (holds (mm_mem s')) live gs" using l by (rule live_frame) (rule 2(8), simp_all add: g)
    then have "client_inv s' (live @ [\<lparr>lb_ptr = p, lb_req = req, lb_data = (\<lambda>_. None)\<rparr>])"
      unfolding client_inv_def using 2(2-7) d g
      by (intro exI[of _ bs'] exI[of _ "gs @ [(unat p, n)]"]) (auto simp: holds_def list_all2_appendI)
    then show ?thesis using 2 by simp
  qed
qed

text \<open>A pointer the range and alignment checks refuse\<close>

lemma client_bad_free:
  assumes inv: "client_inv s live"
  shows "\<exists>s' fm'. client_step now (Bad_free p) (s, fm, live) = Some (s', fm', live)
    \<and> client_inv s' live \<and> mm_arena s' = mm_arena s"
proof -
  have "mm_initialized s" using inv by (auto simp: client_inv_def heap_inv_def)
  then show ?thesis using inv by (auto simp: my_free_def Let_def client_inv_stats)
qed

lemma client_free:
  assumes inv: "client_inv s live"
  shows "\<exists>s' fm' live'. client_step now (Free_nth i) (s, fm, live) = Some (s', fm', live')
    \<and> client_inv s' live' \<and> mm_arena s' = mm_arena s"
proof (cases "i < length live")
  case False
  then show ?thesis using inv by simp
next
  case True
  obtain bs gs where h: "heap_inv s bs" and d: "distinct gs" and g: "set gs = allocs (unat (mm_arena s)) bs"
    and l: "list_all2 (holds (mm_mem s)) live gs" using inv by (auto simp: client_inv_def)
  have ig: "i < length gs" using True l by (simp add: list_all2_lengthD)
  have hi: "holds (mm_mem s) (live ! i) (gs ! i)" using l True by (rule list_all2_nthD)
  obtain q n where qn: "gs ! i = (q, n)" by fastforce
  have qa: "(q, n) \<in> allocs (unat (mm_arena s)) bs"
    unfolding g[symmetric] qn[symmetric] using ig by (rule nth_mem)
  have p: "lb_ptr (live ! i) = of_nat q" using hi qn by (intro u32_of_unat) (simp add: holds_def)
  show ?thesis
  proof (cases rule: free_one[OF h qa, of now fm])
    case (1 s' bs')
    have "list_all2 (holds (mm_mem s')) (drop_nth i live) (drop_nth i gs)"
    proof (rule live_frame)
      show "list_all2 (holds (mm_mem s)) (drop_nth i live) (drop_nth i gs)" using l by (rule list_all2_drop_nth)
      fix b k x assume b: "(b, k) \<in> set (drop_nth i gs)" "b \<le> x" "x < b + k"
      have "(b, k) \<in> allocs (unat (mm_arena s)) bs"
        unfolding g[symmetric] using b(1) by (rule subsetD[OF set_drop_nth_subset])
      then show "mm_mem s' x = mm_mem s x" using b(2,3) by (rule 1(5))
    qed
    then have "client_inv s' (drop_nth i live)"
      unfolding client_inv_def using 1(2-4) g set_drop_nth[OF d ig] qn
      by (intro exI[of _ bs'] exI[of _ "drop_nth i gs"]) simp
    then show ?thesis using True 1(1,3) p by simp
  qed
qed

lemma client_store:
  assumes inv: "client_inv s live"
  shows "\<exists>s' live'. client_step now (Store i off v) (s, fm, live) = Some (s', fm, live')
    \<and> client_inv s' live' \<and> mm_arena s' = mm_arena s"
proof (cases "i < length live \<and> off + 4 \<le> unat (lb_req (live ! i)) \<and> 4 dvd off")
  case False
  then show ?thesis using inv by (simp only: client_step.simps if_False) blast
next
  case True
  obtain bs gs where h: "heap_inv s bs" and d: "distinct gs" and g: "set gs = allocs (unat (mm_arena s)) bs"
    and l: "list_all2 (holds (mm_mem s)) live gs" using inv by (auto simp: client_inv_def)
  let ?a = "unat (mm_arena s)"
  have ig: "i < length gs" and len: "length live = length gs" using True l by (simp_all add: list_all2_lengthD)
  have hi: "holds (mm_mem s) (live ! i) (gs ! i)" using l True by (simp add: list_all2_nthD)
  obtain q n where qn: "gs ! i = (q, n)" by fastforce
  have qa: "(q, n) \<in> allocs ?a bs" unfolding g[symmetric] qn[symmetric] using ig by (rule nth_mem)
  have pq: "unat (lb_ptr (live ! i)) = q" and offn: "off < n" using hi qn True by (auto simp: holds_def)
  let ?m = "(mm_mem s)(q + off := v)"
  let ?s = "s\<lparr>mm_mem := ?m\<rparr>"
  let ?l = "(live ! i)\<lparr>lb_data := (lb_data (live ! i))(off := Some v)\<rparr>"
  have "chain ?m 0 ?a bs 0 \<longleftrightarrow> chain (mm_mem s) 0 ?a bs 0"
    using allocs_no_header[OF qa, of "q + off"] offn by (intro chain_header_frame) auto
  then have h': "heap_inv ?s bs" using h by (simp add: heap_inv_def arena_ok_def)
  have "list_all2 (holds ?m) (live[i := ?l]) gs"
    unfolding list_all2_conv_all_nth
  proof (intro conjI allI impI)
    show "length (live[i := ?l]) = length gs" using len by simp
    fix j assume j: "j < length (live[i := ?l])"
    have hj: "holds (mm_mem s) (live ! j) (gs ! j)" using l j by (simp add: list_all2_nthD)
    show "holds ?m (live[i := ?l] ! j) (gs ! j)"
    proof (cases "j = i")
      case True
      then show ?thesis using hi qn offn j by (auto simp: holds_def)
    next
      case False
      have "gs ! j \<in> allocs ?a bs" using j len g by (metis length_list_update nth_mem)
      moreover have "gs ! j \<noteq> gs ! i" using d False j ig len by (simp add: nth_eq_iff_index_eq)
      ultimately have "fst (gs ! j) + snd (gs ! j) + 24 \<le> q \<or> q + n + 24 \<le> fst (gs ! j)"
        using allocs_disjoint[of "fst (gs ! j)" "snd (gs ! j)" ?a bs q n] qa qn by auto
      then have "holds ?m (live ! j) (gs ! j)" using offn by (intro holds_frame[OF hj]) auto
      then show ?thesis using False by simp
    qed
  qed
  then have "client_inv ?s (live[i := ?l])" using h' d g by (auto simp: client_inv_def)
  then show ?thesis using True pq by simp
qed

lemma client_step_inv:
  assumes "client_inv s live"
  shows "\<exists>s' fm' live'. client_step now op (s, fm, live) = Some (s', fm', live')
    \<and> client_inv s' live' \<and> mm_arena s' = mm_arena s"
proof (cases op)
  case (Malloc req)
  then show ?thesis using client_malloc[OF assms] by blast
next
  case (Free_nth i)
  then show ?thesis using client_free[OF assms] by blast
next
  case (Bad_free p)
  then show ?thesis using client_bad_free[OF assms] by blast
next
  case (Store i off v)
  then show ?thesis using client_store[OF assms] by blast
qed

lemma client_run_inv:
  assumes "client_inv s live"
  shows "\<exists>s' fm' live'. client_run now ops (s, fm, live) = Some (s', fm', live')
    \<and> client_inv s' live' \<and> mm_arena s' = mm_arena s"
  using assms
proof (induction ops arbitrary: s fm live)
  case Nil
  then show ?case by simp
next
  case (Cons op ops)
  obtain s1 fm1 live1 where 1: "client_step now op (s, fm, live) = Some (s1, fm1, live1)"
    "client_inv s1 live1" "mm_arena s1 = mm_arena s" using client_step_inv[OF Cons.prems] by blast
  then show ?case using Cons.IH[OF 1(2), of fm1] by auto
qed

lemma client_init:
  assumes "arena_ok s"
  shows "client_inv (snd (mk_memory_init s)) []"
  using memory_init_heap[OF assms] unfolding client_inv_def
  by (intro exI[of _ "[(131048, True)]"] exI[of _ "[]"]) simp

section \<open>What the invariant gives\<close>

lemma finite_allocs: "finite (allocs a bs)"
  by (induction bs arbitrary: a rule: extent.induct) auto

lemma alloc_bytes_sum: "alloc_bytes bs = (\<Sum>g \<in> allocs a bs. snd g)"
proof (induction bs arbitrary: a rule: extent.induct)
  case 1
  then show ?case by simp
next
  case (2 n f bs)
  have "(a + 24, n) \<notin> allocs (a + 24 + n) bs"
    using allocs_bounds[of "a + 24" n "a + 24 + n" bs] by auto
  then show ?case using "2.IH"[of "a + 24 + n"] by (auto simp: finite_allocs)
qed

lemma live_sizes: "list_all2 (holds m) live gs \<Longrightarrow> (\<Sum>l\<leftarrow>live. unat (lb_req l)) \<le> (\<Sum>g\<leftarrow>gs. snd g)"
  by (induction rule: list_all2_induct) (auto simp: holds_def)

lemma client_inv_used:
  assumes "client_inv s live"
  shows "(\<Sum>l\<leftarrow>live. unat (lb_req l)) \<le> unat (mk_memory_used s)" and "unat (mk_memory_used s) \<le> 131072"
proof -
  obtain bs gs where h: "heap_inv s bs" and d: "distinct gs" and g: "set gs = allocs (unat (mm_arena s)) bs"
    and l: "list_all2 (holds (mm_mem s)) live gs" using assms by (auto simp: client_inv_def)
  have "(\<Sum>g\<leftarrow>gs. snd g) = unat (mk_memory_used s)"
    using h d g alloc_bytes_sum[of bs "unat (mm_arena s)"]
    by (simp add: heap_inv_def mk_memory_used_def sum_list_distinct_conv_sum_set)
  then show "(\<Sum>l\<leftarrow>live. unat (lb_req l)) \<le> unat (mk_memory_used s)" using live_sizes[OF l] by simp
  show "unat (mk_memory_used s) \<le> 131072"
    using h alloc_bytes_extent[of bs] by (simp add: heap_inv_def mk_memory_used_def)
qed

lemma client_inv_live:
  assumes "client_inv s live" and "l \<in> set live"
  shows "8 dvd unat (lb_ptr l)" and "unat (mm_arena s) + 24 \<le> unat (lb_ptr l)"
    and "unat (lb_ptr l) + unat (lb_req l) \<le> unat (mm_arena s) + 131072"
    and "lb_data l off = Some v \<Longrightarrow> mm_mem s (unat (lb_ptr l) + off) = v"
proof -
  obtain bs gs where h: "heap_inv s bs" and g: "set gs = allocs (unat (mm_arena s)) bs"
    and ll: "list_all2 (holds (mm_mem s)) live gs" using assms by (auto simp: client_inv_def)
  obtain i where i: "i < length live" "l = live ! i" using assms(2) by (auto simp: in_set_conv_nth)
  have hi: "holds (mm_mem s) l (gs ! i)" using ll i by (simp add: list_all2_nthD)
  obtain q n where qn: "gs ! i = (q, n)" by fastforce
  have qa: "(q, n) \<in> allocs (unat (mm_arena s)) bs"
    unfolding g[symmetric] qn[symmetric] using i ll by (intro nth_mem) (simp add: list_all2_lengthD)
  have e: "extent bs = 131072" using h by (simp add: heap_inv_def)
  obtain xs ys where bs: "bs = xs @ (n, False) # ys" and q: "q = unat (mm_arena s) + extent xs + 24"
    using qa by (rule allocs_split)
  have "8 dvd unat (mm_arena s) \<and> 8 dvd extent xs"
    using h bs extent_dvd[of xs] by (simp add: heap_inv_def arena_ok_def)
  then have "8 dvd q" by (simp add: q)
  then show "8 dvd unat (lb_ptr l)" using hi qn by (simp add: holds_def)
  show "unat (mm_arena s) + 24 \<le> unat (lb_ptr l)"
    and "unat (lb_ptr l) + unat (lb_req l) \<le> unat (mm_arena s) + 131072"
    using allocs_bounds[OF qa] e hi qn by (auto simp: holds_def)
  show "lb_data l off = Some v \<Longrightarrow> mm_mem s (unat (lb_ptr l) + off) = v"
    using hi by (simp add: holds_def)
qed

lemma client_inv_apart:
  assumes "client_inv s live" and "i < length live" and "j < length live" and "i \<noteq> j"
  shows "unat (lb_ptr (live ! i)) + unat (lb_req (live ! i)) \<le> unat (lb_ptr (live ! j))
    \<or> unat (lb_ptr (live ! j)) + unat (lb_req (live ! j)) \<le> unat (lb_ptr (live ! i))"
proof -
  obtain bs gs where d: "distinct gs" and g: "set gs = allocs (unat (mm_arena s)) bs"
    and l: "list_all2 (holds (mm_mem s)) live gs" using assms by (auto simp: client_inv_def)
  have len: "i < length gs" "j < length gs" using assms l by (simp_all add: list_all2_lengthD)
  have hi: "holds (mm_mem s) (live ! i) (gs ! i)" and hj: "holds (mm_mem s) (live ! j) (gs ! j)"
    using l assms by (simp_all add: list_all2_nthD)
  have "gs ! i \<noteq> gs ! j" using d assms(4) len by (simp add: nth_eq_iff_index_eq)
  moreover have "gs ! i \<in> allocs (unat (mm_arena s)) bs" "gs ! j \<in> allocs (unat (mm_arena s)) bs"
    using g len nth_mem by blast+
  ultimately have "fst (gs ! i) + snd (gs ! i) \<le> fst (gs ! j) \<or> fst (gs ! j) + snd (gs ! j) \<le> fst (gs ! i)"
    using allocs_disjoint[of "fst (gs ! i)" "snd (gs ! i)" "unat (mm_arena s)" bs "fst (gs ! j)" "snd (gs ! j)"] by auto
  then show ?thesis using hi hj by (auto simp: holds_def)
qed

text \<open>With no live block the arena is one free block again.\<close>

lemma allocs_empty: "allocs a bs = {} \<Longrightarrow> \<forall>b \<in> set bs. snd b"
  by (induction bs arbitrary: a rule: extent.induct) (auto split: if_splits)

lemma heap_inv_all_free:
  assumes h: "heap_inv s bs" and e: "allocs a bs = {}"
  shows "bs = [(131048, True)]"
proof -
  have x: "extent bs = 131072" and c: "coalesced bs" using h by (simp_all add: heap_inv_def)
  obtain n f bs' where bs: "bs = (n, f) # bs'" using x by (cases bs) auto
  have "bs' = []"
    using c allocs_empty[OF e] bs by (cases bs') (auto simp: coalesced_Cons)
  then show ?thesis using x bs allocs_empty[OF e] by simp
qed

section \<open>The allocator interface\<close>

definition heap_live :: "memory \<times> fault_manager \<Rightarrow> (nat \<times> nat) set \<Rightarrow> bool" where
  "heap_live s L \<longleftrightarrow> (\<exists>bs. heap_inv (fst s) bs \<and> L = allocs (unat (mm_arena (fst s))) bs)"

definition heap_alloc :: "u32 option \<Rightarrow> u32 \<Rightarrow> memory \<times> fault_manager \<Rightarrow> (nat \<times> memory \<times> fault_manager) option" where
  "heap_alloc now z s = map_option (\<lambda>(p, s'). (unat p, s')) (my_malloc now z s)"

definition heap_free :: "u32 option \<Rightarrow> nat \<Rightarrow> memory \<times> fault_manager \<Rightarrow> memory \<times> fault_manager" where
  "heap_free now p s = my_free now (of_nat p) s"

interpretation heap: allocator heap_live unat "heap_alloc now" "heap_free now" for now
proof
  fix s :: "memory \<times> fault_manager" and L p n
  assume inv: "heap_live s L"
  then obtain bs where h: "heap_inv (fst s) bs" and L: "L = allocs (unat (mm_arena (fst s))) bs"
    by (auto simp: heap_live_def)
  let ?a = "unat (mm_arena (fst s))"
  show "p + n \<le> q \<or> q + k \<le> p" if "(p, n) \<in> L" "(q, k) \<in> L" "(p, n) \<noteq> (q, k)" for q k
    using allocs_disjoint[of p n ?a bs q k] that L by auto
  show "\<exists>p s'. heap_alloc now z s = Some (p, s') \<and> (p = 0 \<and> heap_live s' L
      \<or> p \<noteq> 0 \<and> (\<exists>n. unat z \<le> n \<and> (p, n) \<notin> L \<and> heap_live s' (insert (p, n) L)))" for now z
    by (cases rule: malloc_live[OF h, of now z "snd s"])
       (use L in \<open>fastforce simp: heap_alloc_def heap_live_def unat_eq_0\<close>)+
  assume pn: "(p, n) \<in> L"
  obtain xs ys where bs: "bs = xs @ (n, False) # ys" and p: "p = ?a + extent xs + 24"
    using pn unfolding L by (rule allocs_split)
  have "8 dvd ?a \<and> 8 dvd extent xs" using h bs extent_dvd[of xs] by (simp add: heap_inv_def arena_ok_def)
  then show "8 dvd p" by (simp add: p)
  show "heap_live (heap_free now p s) (L - {(p, n)})" for now
    by (rule free_one[OF h pn[unfolded L], of now "snd s"]) (use L in \<open>auto simp: heap_free_def heap_live_def\<close>)
qed

section \<open>Properties\<close>

text \<open>C1. Whatever a client does after \<open>mk_memory_init\<close>, every call of \<open>my_malloc\<close> and \<open>my_free\<close>
  returns; every live block is 8-byte aligned, inside the arena and disjoint from the others,
  and still holds what was stored in it; the used-bytes counter covers what is live.\<close>

theorem heap_client_sound:
  assumes "arena_ok s"
  shows "\<exists>s' fm' live. client_run now ops (snd (mk_memory_init s), fm, []) = Some (s', fm', live)
    \<and> (\<forall>l \<in> set live. 8 dvd unat (lb_ptr l) \<and> unat (mm_arena s) + 24 \<le> unat (lb_ptr l)
          \<and> unat (lb_ptr l) + unat (lb_req l) \<le> unat (mm_arena s) + 131072
          \<and> (\<forall>off v. lb_data l off = Some v \<longrightarrow> mm_mem s' (unat (lb_ptr l) + off) = v))
    \<and> (\<forall>i < length live. \<forall>j < length live. i \<noteq> j \<longrightarrow>
          unat (lb_ptr (live ! i)) + unat (lb_req (live ! i)) \<le> unat (lb_ptr (live ! j))
          \<or> unat (lb_ptr (live ! j)) + unat (lb_req (live ! j)) \<le> unat (lb_ptr (live ! i)))
    \<and> (\<Sum>l\<leftarrow>live. unat (lb_req l)) \<le> unat (mk_memory_used s') \<and> unat (mk_memory_used s') \<le> 131072"
proof -
  have a: "mm_arena (snd (mk_memory_init s)) = mm_arena s" by (simp add: mk_memory_init_def Let_def)
  obtain s' fm' live where r: "client_run now ops (snd (mk_memory_init s), fm, []) = Some (s', fm', live)"
    and inv: "client_inv s' live" and ar: "mm_arena s' = mm_arena s"
    using client_run_inv[OF client_init[OF assms]] a by metis
  note f = client_inv_live[OF inv] client_inv_apart[OF inv] client_inv_used[OF inv]
  show ?thesis
    by (intro exI[of _ s'] exI[of _ fm'] exI[of _ live] conjI ballI allI impI r)
       (use f in \<open>simp_all add: ar\<close>)
qed

definition demo_arena :: memory where
  "demo_arena = \<lparr>mm_arena = 0x3FC80000, mm_mem = (\<lambda>_. 0), mm_head = 0, mm_initialized = False,
     mm_stats = mem_stats_zero\<rparr>"

lemma demo_arena_ok: "arena_ok demo_arena"
  by (simp add: demo_arena_def arena_ok_def)

theorem heap_client_sound_witness:
  "\<exists>s' fm' live. client_run None [Malloc 100, Malloc 20, Store 1 8 7, Free_nth 0, Malloc 60]
      (snd (mk_memory_init demo_arena), fault_manager_static, []) = Some (s', fm', live)
    \<and> (\<Sum>l\<leftarrow>live. unat (lb_req l)) \<le> unat (mk_memory_used s')"
  using heap_client_sound[OF demo_arena_ok, where now = None and fm = fault_manager_static
      and ops = "[Malloc 100, Malloc 20, Store 1 8 7, Free_nth 0, Malloc 60]"] by blast

text \<open>C27. When a client has freed all its blocks, the coalescing has restored the arena: a
  request of any size up to the whole payload area succeeds, at the start of the arena.\<close>

theorem heap_reclaims_all:
  assumes "arena_ok s" and "client_run now ops (snd (mk_memory_init s), fm, []) = Some (s', fm', [])"
    and "0 < req" and "unat req \<le> 131048"
  shows "\<exists>s''. my_malloc now req (s', fm') = Some (mm_arena s + 24, s'', fm')"
proof -
  have a: "mm_arena (snd (mk_memory_init s)) = mm_arena s" by (simp add: mk_memory_init_def Let_def)
  have inv: "client_inv s' []" and ar: "mm_arena s' = mm_arena s"
    using client_run_inv[OF client_init[OF assms(1)], of now ops fm] assms(2) a by auto
  obtain bs where h: "heap_inv s' bs" and e: "allocs (unat (mm_arena s')) bs = {}"
    using inv by (auto simp: client_inv_def)
  have bs: "heap_inv s' ([] @ (131048, True) # [])" using heap_inv_all_free[OF h e] h by simp
  have "no_fit (unat (MK_ALIGN req)) []" by (simp add: no_fit_def)
  then obtain s'' where "my_malloc now req (s', fm') = Some (of_nat (unat (mm_arena s') + extent [] + 24), s'', fm')"
    using malloc_found[OF bs assms(3,4) MK_ALIGN_bounds(4)[OF assms(3,4)], where now = now and fm = fm'] by blast
  then show ?thesis by (simp add: ar)
qed

theorem heap_reclaims_all_witness:
  "\<exists>s''. my_malloc None 131048 (snd (mk_memory_init demo_arena), fault_manager_static)
     = Some (mm_arena demo_arena + 24, s'', fault_manager_static)"
  by (rule heap_reclaims_all[OF demo_arena_ok, where ops = "[]" and fm = fault_manager_static]) simp_all

text \<open>C29. A request of a valid size takes the first free block that is large enough; it fails,
  with an exhaustion fault and nothing else changed, exactly when there is none.\<close>

theorem malloc_first_fit:
  assumes "heap_inv s bs" and "0 < req" and "unat req \<le> 131048"
  shows "(no_fit (unat (MK_ALIGN req)) bs \<and>
      my_malloc now req (s, fm) = Some (0,
        s\<lparr>mm_stats := (mm_stats s)\<lparr>failed_allocations := failed_allocations (mm_stats s) + 1\<rparr>\<rparr>,
        mk_fault_record_full now MK_FAULT_MEMORY_EXHAUSTED MK_FAULT_SRC_MEMORY MK_FAULT_SEV_WARNING
          (MK_ALIGN req) 0 fm))
    \<or> (\<exists>xs n ys s'. bs = xs @ (n, True) # ys \<and> no_fit (unat (MK_ALIGN req)) xs
        \<and> unat (MK_ALIGN req) \<le> n
        \<and> my_malloc now req (s, fm) = Some (of_nat (unat (mm_arena s) + extent xs + 24), s', fm)
        \<and> heap_inv s' (xs @ taken n (unat (MK_ALIGN req)) @ ys))"
proof (cases rule: fit_cases[of "unat (MK_ALIGN req)" bs])
  case 1
  then show ?thesis using malloc_exhausted[OF assms] by simp
next
  case (2 xs n ys)
  then have h: "heap_inv s (xs @ (n, True) # ys)" using assms(1) by simp
  obtain s' where "my_malloc now req (s, fm) = Some (of_nat (unat (mm_arena s) + extent xs + 24), s', fm)"
    "heap_inv s' (xs @ taken n (unat (MK_ALIGN req)) @ ys)"
    using malloc_found[OF h assms(2,3) 2(2,3), where now = now and fm = fm] by blast
  then show ?thesis
    by (intro disjI2 exI[of _ xs] exI[of _ n] exI[of _ ys] exI[of _ s'] conjI 2)
qed

theorem malloc_first_fit_witness:
  "\<exists>xs n ys s'. [(131048, True)] = xs @ (n, True) # ys
    \<and> my_malloc None 64 (snd (mk_memory_init demo_arena), fault_manager_static)
       = Some (of_nat (unat (mm_arena (snd (mk_memory_init demo_arena))) + extent xs + 24), s', fault_manager_static)"
proof -
  have "\<not> no_fit (unat (MK_ALIGN 64)) [(131048, True)]" by (simp add: no_fit_def MK_ALIGN_def)
  then show ?thesis
    using malloc_first_fit[OF memory_init_heap[OF demo_arena_ok], of 64 None fault_manager_static] by auto
qed

text \<open>C30. Freeing a live block merges it with its free neighbours and records no fault; freeing the
  same pointer again changes nothing but a counter and records a double-free fault.\<close>

theorem free_then_double_free:
  assumes "heap_inv s (xs @ (n, False) # ys)"
  shows "let p = of_nat (unat (mm_arena s) + extent xs + 24); (s1, fm1) = my_free now p (s, fm)
    in fm1 = fm \<and> heap_inv s1 (merge_free xs n ys)
      \<and> my_free now p (s1, fm1) =
         (s1\<lparr>mm_stats := (mm_stats s1)\<lparr>double_free_attempts := double_free_attempts (mm_stats s1) + 1\<rparr>\<rparr>,
          mk_fault_record_full now MK_FAULT_MEMORY_DOUBLE_FREE MK_FAULT_SRC_MEMORY MK_FAULT_SEV_WARNING
            0xBAD00004 p fm)"
proof -
  let ?p = "of_nat (unat (mm_arena s) + extent xs + 24) :: u32"
  obtain s1 where r: "my_free now ?p (s, fm) = (s1, fm)" and h: "heap_inv s1 (merge_free xs n ys)"
    and ar: "mm_arena s1 = mm_arena s" and mg: "mm_mem s1 (unat (mm_arena s) + extent xs) = MK_BLOCK_MAGIC_FREE"
    using free_live[OF assms, where now = now and fm = fm] by blast
  have "mm_initialized s1" using h by (simp add: heap_inv_def)
  from free_twice[OF assms ar this mg] show ?thesis using r h by (simp only: Let_def r case_prod_conv simp_thms)
qed

lemma demo_allocated:
  "\<exists>s. heap_inv s [(64, False), (130960, True)] \<and> mm_arena s = 0x3FC80000"
proof -
  have al: "unat (MK_ALIGN 64) = 64" by (simp add: MK_ALIGN_def)
  have ar: "mm_arena (snd (mk_memory_init demo_arena)) = 0x3FC80000"
    by (simp add: mk_memory_init_def Let_def demo_arena_def)
  have "heap_inv (snd (mk_memory_init demo_arena)) ([] @ (131048, True) # [])"
    using memory_init_heap[OF demo_arena_ok] by simp
  then obtain s where "heap_inv s ([] @ taken 131048 (unat (MK_ALIGN 64)) @ [])"
    and "mm_arena s = mm_arena (snd (mk_memory_init demo_arena))"
    by (rule malloc_found[where req = 64]) (simp_all add: al no_fit_def)
  then show ?thesis unfolding al ar by (auto simp: taken_def)
qed

theorem free_then_double_free_witness:
  "\<exists>s s1. heap_inv s [(64, False), (130960, True)]
     \<and> my_free None 0x3FC80018 (s, fault_manager_static) = (s1, fault_manager_static)
     \<and> heap_inv s1 [(131048, True)]"
proof -
  obtain s where h: "heap_inv s ([] @ (64, False) # [(130960, True)])" and a: "mm_arena s = 0x3FC80000"
    using demo_allocated by auto
  have "merge_free [] 64 [(130960, True)] = [(131048, True)]" by (simp add: merge_free_def merge_prev_def)
  then show ?thesis
    using free_then_double_free[OF h, of None fault_manager_static] h a by (auto simp: Let_def)
qed

end
