(* ===== verification/Memory_Pool.thy ===== *)
theory Memory_Pool
  imports Fault_Manager Allocator
begin

text \<open>
  \<^verbatim>\<open>os/kernel/memory_pool.c\<close>: five classes of fixed-size blocks with a free list each. An address
  is a natural number, 0 is NULL; the memory maps the address of a node header to the header.
  The header has 16 bytes, the size it has with the 64-bit pointers of the host build: the
  static assertion of the file does not hold with 32-bit pointers (12 bytes).
\<close>

section \<open>State\<close>

definition MK_POOL_MAGIC_FREE :: u32 where "MK_POOL_MAGIC_FREE = 0x46524545"
definition MK_POOL_MAGIC_ALLOC :: u32 where "MK_POOL_MAGIC_ALLOC = 0x504F4F4C"
definition MK_POOL_CLASSES_COUNT :: nat where "MK_POOL_CLASSES_COUNT = 5"
definition sizeof_pool_node :: nat where "sizeof_pool_node = 16"

record mk_pool_node =
  pn_magic :: u32
  pn_class_idx :: u8
  pn_in_use :: u8
  pn_reserved :: u16
  pn_next_free :: nat

definition s_block_sizes :: "nat list" where "s_block_sizes = [16, 32, 64, 128, 256]"
definition s_class_counts :: "nat list" where "s_class_counts = [32, 32, 32, 16, 8]"

record mk_pool_class_stats =
  pc_block_size :: u64
  pc_total_blocks :: u32
  pc_allocated_blocks :: u32
  pc_peak_allocated :: u32
  pc_allocation_failures :: u32

record mk_pool_stats =
  ps_total_capacity_bytes :: u64
  ps_total_used_bytes :: u64
  ps_classes :: "mk_pool_class_stats list"

definition pool_class_stats_zero :: mk_pool_class_stats where
  "pool_class_stats_zero = \<lparr>pc_block_size = 0, pc_total_blocks = 0, pc_allocated_blocks = 0,
     pc_peak_allocated = 0, pc_allocation_failures = 0\<rparr>"

definition pool_stats_zero :: mk_pool_stats where
  "pool_stats_zero = \<lparr>ps_total_capacity_bytes = 0, ps_total_used_bytes = 0,
     ps_classes = replicate MK_POOL_CLASSES_COUNT pool_class_stats_zero\<rparr>"

text \<open>\<open>pl_buffers\<close> are the addresses the linker gave to the five static buffers.\<close>

record pool =
  pl_buffers :: "nat list"
  pl_mem :: "nat \<Rightarrow> mk_pool_node"
  pl_heads :: "nat list"
  pl_stats :: mk_pool_stats
  pl_initialized :: bool

section \<open>Operations\<close>

definition slot_size :: "nat \<Rightarrow> nat" where
  "slot_size c = sizeof_pool_node + s_block_sizes ! c"

text \<open>The inner loop of \<open>mk_pool_init\<close>: the free list of one class\<close>

fun build_list :: "nat \<Rightarrow> nat \<Rightarrow> nat \<Rightarrow> (nat \<Rightarrow> mk_pool_node) \<Rightarrow> (nat \<Rightarrow> mk_pool_node) \<times> nat" where
  "build_list c base 0 m = (m, 0)"
| "build_list c base (Suc i) m =
     (case build_list c base i m of (m1, head) \<Rightarrow>
        let node = base + i * slot_size c
        in (m1(node := \<lparr>pn_magic = MK_POOL_MAGIC_FREE, pn_class_idx = of_nat c, pn_in_use = 0, pn_reserved = 0,
                        pn_next_free = head\<rparr>), node))"

definition init_class :: "nat \<Rightarrow> pool \<Rightarrow> pool" where
  "init_class c p =
     (let sz = s_block_sizes ! c; count = s_class_counts ! c; st = pl_stats p;
          (m, head) = build_list c (pl_buffers p ! c) count (pl_mem p)
      in p\<lparr>pl_mem := m, pl_heads := (pl_heads p)[c := head],
           pl_stats := st\<lparr>ps_total_capacity_bytes := ps_total_capacity_bytes st + of_nat (count * sz),
             ps_classes := (ps_classes st)[c := (ps_classes st ! c)\<lparr>pc_block_size := of_nat sz,
                                             pc_total_blocks := of_nat count\<rparr>]\<rparr>\<rparr>)"

definition mk_pool_init :: "pool \<Rightarrow> mk_status \<times> pool" where
  "mk_pool_init p =
     (MK_STATUS_OK,
      (fold init_class [0..<MK_POOL_CLASSES_COUNT] (p\<lparr>pl_stats := pool_stats_zero\<rparr>))\<lparr>pl_initialized := True\<rparr>)"

definition update_class :: "nat \<Rightarrow> (mk_pool_class_stats \<Rightarrow> mk_pool_class_stats) \<Rightarrow> mk_pool_stats \<Rightarrow> mk_pool_stats" where
  "update_class c f st = st\<lparr>ps_classes := (ps_classes st)[c := f (ps_classes st ! c)]\<rparr>"

text \<open>The class of a request: the first whose blocks are large enough\<close>

definition target_class :: "u64 \<Rightarrow> nat option" where
  "target_class sz = find (\<lambda>c. unat sz \<le> s_block_sizes ! c) [0..<MK_POOL_CLASSES_COUNT]"

definition mk_pool_alloc :: "u32 option \<Rightarrow> u64 \<Rightarrow> pool \<times> fault_manager \<Rightarrow> nat \<times> pool \<times> fault_manager" where
  "mk_pool_alloc now sz s0 =
     (case s0 of (p0, fm) \<Rightarrow>
      let (ist, p) = (if pl_initialized p0 then (MK_STATUS_OK, p0) else mk_pool_init p0)
      in if ist \<noteq> MK_STATUS_OK then (0, p, fm)
         else if sz = 0 \<or> s_block_sizes ! (MK_POOL_CLASSES_COUNT - 1) < unat sz then (0, p, fm)
         else case target_class sz of
           None \<Rightarrow> (0, p, fm)
         | Some c \<Rightarrow>
             let node = pl_heads p ! c
             in if node = 0
                then (0, p\<lparr>pl_stats := update_class c (\<lambda>k. k\<lparr>pc_allocation_failures := pc_allocation_failures k + 1\<rparr>)
                                        (pl_stats p)\<rparr>,
                      mk_fault_record_full now MK_FAULT_MEMORY_EXHAUSTED MK_FAULT_SRC_MEMORY MK_FAULT_SEV_WARNING
                        (ucast sz) (of_nat c) fm)
                else
                  let n = pl_mem p node;
                      st1 = update_class c (\<lambda>k. k\<lparr>pc_allocated_blocks := pc_allocated_blocks k + 1\<rparr>) (pl_stats p);
                      st2 = st1\<lparr>ps_total_used_bytes := ps_total_used_bytes st1 + of_nat (s_block_sizes ! c)\<rparr>;
                      st3 = update_class c (\<lambda>k. if pc_peak_allocated k < pc_allocated_blocks k
                                                then k\<lparr>pc_peak_allocated := pc_allocated_blocks k\<rparr> else k) st2
                  in (node + sizeof_pool_node,
                      p\<lparr>pl_heads := (pl_heads p)[c := pn_next_free n],
                        pl_mem := (pl_mem p)(node := n\<lparr>pn_next_free := 0, pn_magic := MK_POOL_MAGIC_ALLOC, pn_in_use := 1\<rparr>),
                        pl_stats := st3\<rparr>, fm))"

definition mk_pool_free :: "u32 option \<Rightarrow> nat \<Rightarrow> pool \<times> fault_manager \<Rightarrow> pool \<times> fault_manager" where
  "mk_pool_free now ptr s =
     (case s of (p, fm) \<Rightarrow>
      if ptr = 0 \<or> \<not> pl_initialized p then (p, fm)
      else let node = ptr - sizeof_pool_node; n = pl_mem p node
           in if pn_magic n \<noteq> MK_POOL_MAGIC_ALLOC \<or> pn_in_use n \<noteq> 1
              then (p, mk_fault_record_full now MK_FAULT_MEMORY_DOUBLE_FREE MK_FAULT_SRC_MEMORY MK_FAULT_SEV_WARNING
                         0xBAD10001 (of_nat ptr) fm)
              else let c = unat (pn_class_idx n)
                   in if MK_POOL_CLASSES_COUNT \<le> c
                      then (p, mk_fault_record_full now MK_FAULT_MEMORY_CORRUPTION MK_FAULT_SRC_MEMORY
                                 MK_FAULT_SEV_CRITICAL 0xBAD10002 0 fm)
                      else
                        let st = pl_stats p;
                            st1 = (if 0 < pc_allocated_blocks (ps_classes st ! c)
                                   then update_class c (\<lambda>k. k\<lparr>pc_allocated_blocks := pc_allocated_blocks k - 1\<rparr>) st
                                   else st);
                            st2 = (if of_nat (s_block_sizes ! c) \<le> ps_total_used_bytes st1
                                   then st1\<lparr>ps_total_used_bytes := ps_total_used_bytes st1 - of_nat (s_block_sizes ! c)\<rparr>
                                   else st1)
                        in (p\<lparr>pl_mem := (pl_mem p)(node := n\<lparr>pn_magic := MK_POOL_MAGIC_FREE, pn_in_use := 0,
                                                           pn_next_free := pl_heads p ! c\<rparr>),
                              pl_heads := (pl_heads p)[c := node], pl_stats := st2\<rparr>, fm))"

definition mk_pool_get_stats :: "pool \<Rightarrow> mk_pool_stats" where
  "mk_pool_get_stats p = pl_stats p"

section \<open>The invariant\<close>

definition slots :: "nat \<Rightarrow> nat \<Rightarrow> nat set" where
  "slots base c = (\<lambda>i. base + i * slot_size c) ` {..<s_class_counts ! c}"

text \<open>What the linker guarantees of the five buffers\<close>

definition buffers_ok :: "nat list \<Rightarrow> bool" where
  "buffers_ok bs \<longleftrightarrow> length bs = 5 \<and> (\<forall>c < 5. 0 < bs ! c \<and> 8 dvd bs ! c)
     \<and> (\<forall>c < 5. \<forall>d < 5. c \<noteq> d \<longrightarrow> bs ! c + s_class_counts ! c * slot_size c \<le> bs ! d
                            \<or> bs ! d + s_class_counts ! d * slot_size d \<le> bs ! c)"

fun flist :: "(nat \<Rightarrow> mk_pool_node) \<Rightarrow> nat \<Rightarrow> nat list \<Rightarrow> bool" where
  "flist m p [] \<longleftrightarrow> p = 0"
| "flist m p (a # as) \<longleftrightarrow> p = a \<and> a \<noteq> 0 \<and> flist m (pn_next_free (m a)) as"

definition class_inv :: "(nat \<Rightarrow> mk_pool_node) \<Rightarrow> nat list \<Rightarrow> nat \<Rightarrow> nat \<Rightarrow> nat \<Rightarrow> bool" where
  "class_inv m fl c base head \<longleftrightarrow> flist m head fl \<and> distinct fl \<and> set fl \<subseteq> slots base c
     \<and> (\<forall>a \<in> slots base c. pn_class_idx (m a) = of_nat c
          \<and> (a \<in> set fl \<longrightarrow> pn_magic (m a) = MK_POOL_MAGIC_FREE \<and> pn_in_use (m a) = 0)
          \<and> (a \<notin> set fl \<longrightarrow> pn_magic (m a) = MK_POOL_MAGIC_ALLOC \<and> pn_in_use (m a) = 1))"

definition pool_inv :: "pool \<Rightarrow> (nat \<Rightarrow> nat list) \<Rightarrow> bool" where
  "pool_inv p fl \<longleftrightarrow> pl_initialized p \<and> buffers_ok (pl_buffers p) \<and> length (pl_heads p) = 5
     \<and> length (ps_classes (pl_stats p)) = 5
     \<and> (\<forall>c < 5. class_inv (pl_mem p) (fl c) c (pl_buffers p ! c) (pl_heads p ! c)
          \<and> unat (pc_allocated_blocks (ps_classes (pl_stats p) ! c)) + length (fl c) = s_class_counts ! c)"

lemma all5: "(\<forall>c < (5 :: nat). P c) \<longleftrightarrow> P 0 \<and> P 1 \<and> P 2 \<and> P 3 \<and> P 4"
  by (auto simp: numeral_eq_Suc less_Suc_eq)

lemma class_facts:
  assumes "c < 5"
  shows "8 dvd slot_size c" and "slot_size c = 16 + s_block_sizes ! c" and "s_class_counts ! c < 2 ^ 32"
    and "unat (of_nat c :: u8) = c" and "0 < slot_size c"
proof -
  have c: "c \<in> {0, 1, 2, 3, 4}" using assms by auto
  show "8 dvd slot_size c" "s_class_counts ! c < 2 ^ 32"
    using c by (auto simp: slot_size_def sizeof_pool_node_def s_block_sizes_def s_class_counts_def)
  show "slot_size c = 16 + s_block_sizes ! c" "0 < slot_size c" by (simp_all add: slot_size_def sizeof_pool_node_def)
  show "unat (of_nat c :: u8) = c" using c by (auto simp: unat_of_nat)
qed

lemma slots_range: "a \<in> slots base c \<Longrightarrow> base \<le> a \<and> a + slot_size c \<le> base + s_class_counts ! c * slot_size c"
proof -
  assume "a \<in> slots base c"
  then obtain i where "i < s_class_counts ! c" "a = base + i * slot_size c" by (auto simp: slots_def)
  moreover have "Suc i * slot_size c \<le> s_class_counts ! c * slot_size c"
    using calculation(1) by (intro mult_le_mono1) simp
  ultimately show ?thesis by simp
qed

lemma slots_apart:
  assumes "a \<in> slots base c" and "b \<in> slots base c" and "a \<noteq> b"
  shows "a + slot_size c \<le> b \<or> b + slot_size c \<le> a"
proof -
  obtain i j where i: "a = base + i * slot_size c" and j: "b = base + j * slot_size c"
    using assms by (auto simp: slots_def)
  then have "i \<noteq> j" using assms(3) by auto
  then have "Suc i * slot_size c \<le> j * slot_size c \<or> Suc j * slot_size c \<le> i * slot_size c"
    by (metis Suc_leI linorder_neqE_nat mult_le_mono1)
  then show ?thesis using i j by auto
qed

lemma slots_classes:
  assumes "buffers_ok bs" and "c < 5" "d < 5" "c \<noteq> d" and "a \<in> slots (bs ! c) c" "b \<in> slots (bs ! d) d"
  shows "a + slot_size c \<le> b \<or> b + slot_size d \<le> a"
proof -
  have "bs ! c + s_class_counts ! c * slot_size c \<le> bs ! d \<or> bs ! d + s_class_counts ! d * slot_size d \<le> bs ! c"
    using assms(1-4) by (auto simp: buffers_ok_def)
  then show ?thesis using slots_range[OF assms(5)] slots_range[OF assms(6)] by linarith
qed

lemma slots_classes_neq:
  assumes "buffers_ok bs" and "c < 5" "d < 5" "c \<noteq> d" and "a \<in> slots (bs ! c) c" "b \<in> slots (bs ! d) d"
  shows "a \<noteq> b"
  using slots_classes[OF assms] class_facts(5)[OF assms(2)] class_facts(5)[OF assms(3)] by auto

lemma flist_frame: "(\<And>a. a \<in> set fl \<Longrightarrow> m' a = m a) \<Longrightarrow> flist m' p fl \<longleftrightarrow> flist m p fl"
  by (induction fl arbitrary: p) auto

lemma class_inv_frame:
  assumes "\<And>a. a \<in> slots base c \<Longrightarrow> m' a = m a"
  shows "class_inv m' fl c base head \<longleftrightarrow> class_inv m fl c base head"
proof -
  have "flist m' head fl \<longleftrightarrow> flist m head fl" if "set fl \<subseteq> slots base c"
    using that assms by (intro flist_frame) blast
  then show ?thesis using assms by (auto simp: class_inv_def)
qed

section \<open>Initialisation\<close>

lemma build_list_result:
  assumes "0 < base" and "c < 5" and "build_list c base n m = (m', head)"
  shows "flist m' head (rev (map (\<lambda>i. base + i * slot_size c) [0..<n]))
    \<and> (\<forall>i < n. pn_magic (m' (base + i * slot_size c)) = MK_POOL_MAGIC_FREE
          \<and> pn_in_use (m' (base + i * slot_size c)) = 0 \<and> pn_class_idx (m' (base + i * slot_size c)) = of_nat c)
    \<and> (\<forall>x. x \<notin> (\<lambda>i. base + i * slot_size c) ` {..<n} \<longrightarrow> m' x = m x)"
  using assms(3)
proof (induction n arbitrary: m' head)
  case 0
  then show ?case by simp
next
  case (Suc n)
  obtain m1 h where b: "build_list c base n m = (m1, h)" by fastforce
  let ?node = "base + n * slot_size c"
  have m': "m' = m1(?node := \<lparr>pn_magic = MK_POOL_MAGIC_FREE, pn_class_idx = of_nat c, pn_in_use = 0,
      pn_reserved = 0, pn_next_free = h\<rparr>)" and head: "head = ?node"
    using Suc.prems b by (auto simp: Let_def)
  have neq: "base + i * slot_size c \<noteq> ?node" if "i < n" for i
    using that class_facts(5)[OF assms(2)] by simp
  have fr: "flist m' h (rev (map (\<lambda>i. base + i * slot_size c) [0..<n]))
      \<longleftrightarrow> flist m1 h (rev (map (\<lambda>i. base + i * slot_size c) [0..<n]))"
    using neq by (intro flist_frame) (force simp: m')
  moreover have "m' x = m x" if "x \<notin> (\<lambda>i. base + i * slot_size c) ` {..<Suc n}" for x
  proof -
    have "x \<noteq> ?node" "x \<notin> (\<lambda>i. base + i * slot_size c) ` {..<n}" using that by auto
    then show ?thesis using Suc.IH[OF b] by (simp add: m')
  qed
  moreover have "pn_magic (m' (base + i * slot_size c)) = MK_POOL_MAGIC_FREE
      \<and> pn_in_use (m' (base + i * slot_size c)) = 0 \<and> pn_class_idx (m' (base + i * slot_size c)) = of_nat c"
    if "i < Suc n" for i
  proof (cases "i = n")
    case True
    then show ?thesis by (simp add: m')
  next
    case False
    then have i: "i < n" using that by simp
    have "m' (base + i * slot_size c) = m1 (base + i * slot_size c)" unfolding m' by (rule fun_upd_other[OF neq[OF i]])
    then show ?thesis using Suc.IH[OF b] i by simp
  qed
  moreover have "flist m' head (rev (map (\<lambda>i. base + i * slot_size c) [0..<Suc n]))"
    using Suc.IH[OF b] assms(1) fr by (simp add: head) (simp add: m')
  ultimately show ?case by blast
qed

definition all_slots :: "nat \<Rightarrow> nat \<Rightarrow> nat list" where
  "all_slots base c = rev (map (\<lambda>i. base + i * slot_size c) [0..<s_class_counts ! c])"

lemma init_class_effect:
  assumes ok: "buffers_ok (pl_buffers p)" and c: "c < 5" and len: "length (pl_heads p) = 5" "length (ps_classes (pl_stats p)) = 5"
  shows "class_inv (pl_mem (init_class c p)) (all_slots (pl_buffers p ! c) c) c (pl_buffers p ! c) (pl_heads (init_class c p) ! c)"
    and "\<And>x. x \<notin> slots (pl_buffers p ! c) c \<Longrightarrow> pl_mem (init_class c p) x = pl_mem p x"
    and "pl_buffers (init_class c p) = pl_buffers p" and "length (pl_heads (init_class c p)) = 5"
    and "length (ps_classes (pl_stats (init_class c p))) = 5"
    and "\<And>d. d \<noteq> c \<Longrightarrow> pl_heads (init_class c p) ! d = pl_heads p ! d"
    and "map pc_allocated_blocks (ps_classes (pl_stats (init_class c p))) = map pc_allocated_blocks (ps_classes (pl_stats p))"
proof -
  obtain m head where b: "build_list c (pl_buffers p ! c) (s_class_counts ! c) (pl_mem p) = (m, head)" by fastforce
  have base: "0 < pl_buffers p ! c" using ok c by (simp add: buffers_ok_def)
  note r = build_list_result[OF base c b]
  have e: "pl_mem (init_class c p) = m" "pl_heads (init_class c p) = (pl_heads p)[c := head]"
    using b by (simp_all add: init_class_def Let_def)
  have "distinct (all_slots (pl_buffers p ! c) c)"
    using class_facts(5)[OF c] by (auto simp: all_slots_def distinct_map inj_on_def)
  moreover have "set (all_slots (pl_buffers p ! c) c) = slots (pl_buffers p ! c) c"
    by (auto simp: all_slots_def slots_def)
  ultimately show "class_inv (pl_mem (init_class c p)) (all_slots (pl_buffers p ! c) c) c (pl_buffers p ! c) (pl_heads (init_class c p) ! c)"
    using r len c by (auto simp: class_inv_def e all_slots_def slots_def)
  show "\<And>x. x \<notin> slots (pl_buffers p ! c) c \<Longrightarrow> pl_mem (init_class c p) x = pl_mem p x"
    using r by (simp add: e slots_def)
  show "pl_buffers (init_class c p) = pl_buffers p" "length (pl_heads (init_class c p)) = 5"
    "length (ps_classes (pl_stats (init_class c p))) = 5"
    "\<And>d. d \<noteq> c \<Longrightarrow> pl_heads (init_class c p) ! d = pl_heads p ! d"
    using b len by (simp_all add: init_class_def Let_def)
  show "map pc_allocated_blocks (ps_classes (pl_stats (init_class c p))) = map pc_allocated_blocks (ps_classes (pl_stats p))"
    using b len c by (simp add: init_class_def Let_def map_update list_update_same_conv)
qed

lemma init_prefix:
  assumes ok: "buffers_ok (pl_buffers p)" and len: "length (pl_heads p) = 5" "length (ps_classes (pl_stats p)) = 5"
    and "k \<le> 5"
  defines "q \<equiv> fold init_class [0..<k] p"
  shows "pl_buffers q = pl_buffers p \<and> length (pl_heads q) = 5 \<and> length (ps_classes (pl_stats q)) = 5
    \<and> map pc_allocated_blocks (ps_classes (pl_stats q)) = map pc_allocated_blocks (ps_classes (pl_stats p))
    \<and> (\<forall>c < k. class_inv (pl_mem q) (all_slots (pl_buffers p ! c) c) c (pl_buffers p ! c) (pl_heads q ! c))"
  unfolding q_def using \<open>k \<le> 5\<close>
proof (induction k)
  case 0
  then show ?case using len by simp
next
  case (Suc k)
  have k: "k < 5" using Suc.prems by simp
  define r where "r = fold init_class [0..<k] p"
  have bu: "pl_buffers r = pl_buffers p" and hl: "length (pl_heads r) = 5" and sl: "length (ps_classes (pl_stats r)) = 5"
    and al: "map pc_allocated_blocks (ps_classes (pl_stats r)) = map pc_allocated_blocks (ps_classes (pl_stats p))"
    and ci: "\<And>c. c < k \<Longrightarrow> class_inv (pl_mem r) (all_slots (pl_buffers p ! c) c) c (pl_buffers p ! c) (pl_heads r ! c)"
    using Suc.IH[OF Suc_leD[OF Suc.prems]] by (simp_all only: r_def[symmetric] simp_thms)
  note e = init_class_effect[OF _ k hl sl, unfolded bu, OF ok]
  have cl: "class_inv (pl_mem (init_class k r)) (all_slots (pl_buffers p ! c) c) c (pl_buffers p ! c)
      (pl_heads (init_class k r) ! c)" if "c < Suc k" for c
  proof (cases "c = k")
    case True
    then show ?thesis using e(1) by simp
  next
    case False
    then have old: "class_inv (pl_mem r) (all_slots (pl_buffers p ! c) c) c (pl_buffers p ! c) (pl_heads r ! c)"
      using that by (intro ci) simp
    have same: "pl_mem (init_class k r) a = pl_mem r a" if a: "a \<in> slots (pl_buffers p ! c) c" for a
    proof (rule e(2), rule notI)
      assume "a \<in> slots (pl_buffers p ! k) k"
      moreover have "c < 5" using \<open>c < Suc k\<close> k by simp
      ultimately show False using slots_classes_neq[OF ok _ k False a, of a] by simp
    qed
    have "class_inv (pl_mem (init_class k r)) fl c (pl_buffers p ! c) h \<longleftrightarrow> class_inv (pl_mem r) fl c (pl_buffers p ! c) h"
      for fl h by (rule class_inv_frame) (rule same)
    then show ?thesis using old e(6)[OF False] by simp
  qed
  have fs: "fold init_class [0..<Suc k] p = init_class k r" by (simp add: r_def)
  show ?case
    unfolding fs by (intro conjI allI impI cl e(3-5) trans[OF e(7) al])
qed

lemma pool_init_inv:
  assumes "buffers_ok (pl_buffers p)" and "length (pl_heads p) = 5"
  shows "pool_inv (snd (mk_pool_init p)) (\<lambda>c. all_slots (pl_buffers p ! c) c)"
    and "pl_buffers (snd (mk_pool_init p)) = pl_buffers p"
proof -
  let ?p = "p\<lparr>pl_stats := pool_stats_zero\<rparr>"
  let ?q = "fold init_class [0..<5] ?p"
  have p: "buffers_ok (pl_buffers ?p)" "length (pl_heads ?p) = 5" "length (ps_classes (pl_stats ?p)) = 5"
    using assms by (simp_all add: pool_stats_zero_def MK_POOL_CLASSES_COUNT_def)
  note r = init_prefix[OF p le_refl]
  have z: "map pc_allocated_blocks (ps_classes (pl_stats ?q)) = replicate 5 0"
    using r by (simp add: pool_stats_zero_def pool_class_stats_zero_def MK_POOL_CLASSES_COUNT_def)
  have qlen: "length (ps_classes (pl_stats ?q)) = 5" using r by blast
  have "pc_allocated_blocks (ps_classes (pl_stats ?q) ! c) = 0" if "c < 5" for c
    using arg_cong[OF z, of "\<lambda>l. l ! c"] that qlen by simp
  then show "pool_inv (snd (mk_pool_init p)) (\<lambda>c. all_slots (pl_buffers p ! c) c)"
    using r assms by (simp add: pool_inv_def mk_pool_init_def MK_POOL_CLASSES_COUNT_def all_slots_def)
  show "pl_buffers (snd (mk_pool_init p)) = pl_buffers p"
    using r by (simp add: mk_pool_init_def MK_POOL_CLASSES_COUNT_def)
qed

section \<open>Allocation and release\<close>

text \<open>The class chosen is the smallest that fits.\<close>

lemma target_class_some:
  assumes "sz \<noteq> 0" and "unat sz \<le> 256"
  obtains c where "target_class sz = Some c" and "c < 5" and "unat sz \<le> s_block_sizes ! c"
    and "\<And>d. d < c \<Longrightarrow> s_block_sizes ! d < unat sz"
proof (cases "target_class sz")
  case None
  then show ?thesis using assms(2)
    by (auto simp: target_class_def find_None_iff MK_POOL_CLASSES_COUNT_def s_block_sizes_def dest!: spec[of _ 4])
next
  case (Some c)
  then obtain i where i: "i < 5" "unat sz \<le> s_block_sizes ! ([0..<5] ! i)" "c = [0..<5] ! i"
    "\<forall>j < i. \<not> unat sz \<le> s_block_sizes ! ([0..<5] ! j)"
    by (auto simp: target_class_def find_Some_iff MK_POOL_CLASSES_COUNT_def)
  then have "c = i" by simp
  moreover have "s_block_sizes ! d < unat sz" if "d < i" for d
    using i(1,4) that by (metis add_0 less_trans not_le nth_upt)
  ultimately show ?thesis using that[of c] Some i by simp
qed

lemma pool_inv_stats:
  assumes "pool_inv p fl" and "length (ps_classes st) = 5"
    and "map pc_allocated_blocks (ps_classes st) = map pc_allocated_blocks (ps_classes (pl_stats p))"
  shows "pool_inv (p\<lparr>pl_stats := st\<rparr>) fl"
proof -
  have "pc_allocated_blocks (ps_classes st ! c) = pc_allocated_blocks (ps_classes (pl_stats p) ! c)" if "c < 5" for c
    using arg_cong[OF assms(3), of "\<lambda>l. l ! c"] that assms(1,2) by (simp add: pool_inv_def)
  then show ?thesis using assms(1,2) by (simp add: pool_inv_def)
qed

lemma pool_alloc_empty:
  assumes inv: "pool_inv p fl" and sz: "sz \<noteq> 0" "unat sz \<le> 256" and c: "target_class sz = Some c" and e: "fl c = []"
    and c5: "c < 5"
  obtains p' where "mk_pool_alloc now sz (p, fm) = (0, p', mk_fault_record_full now MK_FAULT_MEMORY_EXHAUSTED
      MK_FAULT_SRC_MEMORY MK_FAULT_SEV_WARNING (ucast sz) (of_nat c) fm)"
    and "pool_inv p' fl" and "pl_buffers p' = pl_buffers p"
proof -
  have h: "pl_heads p ! c = 0" using inv c5 e by (auto simp: pool_inv_def class_inv_def)
  let ?f = "\<lambda>k. k\<lparr>pc_allocation_failures := pc_allocation_failures k + 1\<rparr>"
  let ?p = "p\<lparr>pl_stats := update_class c ?f (pl_stats p)\<rparr>"
  have len: "length (ps_classes (pl_stats p)) = 5" using inv by (simp add: pool_inv_def)
  have "mk_pool_alloc now sz (p, fm) = (0, ?p, mk_fault_record_full now MK_FAULT_MEMORY_EXHAUSTED
      MK_FAULT_SRC_MEMORY MK_FAULT_SEV_WARNING (ucast sz) (of_nat c) fm)"
    using inv sz c h by (simp add: mk_pool_alloc_def pool_inv_def Let_def s_block_sizes_def MK_POOL_CLASSES_COUNT_def)
  moreover have "pool_inv ?p fl"
    using inv len c5 by (intro pool_inv_stats) (simp_all add: update_class_def map_update list_update_same_conv)
  ultimately show ?thesis by (rule that) simp
qed

text \<open>Taking the head of a free list, and putting a slot back\<close>

lemma class_inv_pop:
  assumes "class_inv m (a # as) c base head"
  shows "class_inv (m(a := (m a)\<lparr>pn_next_free := 0, pn_magic := MK_POOL_MAGIC_ALLOC, pn_in_use := 1\<rparr>)) as c base
      (pn_next_free (m a))" and "head = a" and "a \<noteq> 0" and "a \<in> slots base c"
proof -
  have "a \<notin> set as" "flist m (pn_next_free (m a)) as" using assms by (auto simp: class_inv_def)
  then have "flist (m(a := (m a)\<lparr>pn_next_free := 0, pn_magic := MK_POOL_MAGIC_ALLOC, pn_in_use := 1\<rparr>)) (pn_next_free (m a)) as"
    by (subst flist_frame[where m = m]) auto
  then show "class_inv (m(a := (m a)\<lparr>pn_next_free := 0, pn_magic := MK_POOL_MAGIC_ALLOC, pn_in_use := 1\<rparr>)) as c base
      (pn_next_free (m a))"
    using assms \<open>a \<notin> set as\<close> by (auto simp: class_inv_def)
  show "head = a" "a \<noteq> 0" "a \<in> slots base c" using assms by (auto simp: class_inv_def)
qed

lemma class_inv_push:
  assumes "class_inv m fl c base head" and "a \<in> slots base c" and "a \<notin> set fl" and "a \<noteq> 0"
  shows "class_inv (m(a := (m a)\<lparr>pn_magic := MK_POOL_MAGIC_FREE, pn_in_use := 0, pn_next_free := head\<rparr>)) (a # fl) c base a"
proof -
  have "flist (m(a := (m a)\<lparr>pn_magic := MK_POOL_MAGIC_FREE, pn_in_use := 0, pn_next_free := head\<rparr>)) head fl"
    using assms by (subst flist_frame[where m = m]) (auto simp: class_inv_def)
  then show ?thesis using assms by (auto simp: class_inv_def)
qed

text \<open>Changing one node and one head keeps the other classes.\<close>

lemma pool_inv_update:
  assumes inv: "pool_inv p fl" and c: "c < 5" and a: "a \<in> slots (pl_buffers p ! c) c"
    and cl: "class_inv ((pl_mem p)(a := n)) l c (pl_buffers p ! c) h"
    and st: "length (ps_classes st) = 5" "unat (pc_allocated_blocks (ps_classes st ! c)) + length l = s_class_counts ! c"
      "\<And>d. d < 5 \<Longrightarrow> d \<noteq> c \<Longrightarrow> pc_allocated_blocks (ps_classes st ! d) = pc_allocated_blocks (ps_classes (pl_stats p) ! d)"
  shows "pool_inv (p\<lparr>pl_mem := (pl_mem p)(a := n), pl_heads := (pl_heads p)[c := h], pl_stats := st\<rparr>) (fl(c := l))"
proof -
  let ?m = "(pl_mem p)(a := n)"
  have ok: "buffers_ok (pl_buffers p)" and hl: "length (pl_heads p) = 5" using inv by (simp_all add: pool_inv_def)
  have "class_inv ?m ((fl(c := l)) d) d (pl_buffers p ! d) ((pl_heads p)[c := h] ! d)
      \<and> unat (pc_allocated_blocks (ps_classes st ! d)) + length ((fl(c := l)) d) = s_class_counts ! d" if d: "d < 5" for d
  proof (cases "d = c")
    case True
    then show ?thesis using cl st hl c by simp
  next
    case False
    have "class_inv ?m (fl d) d (pl_buffers p ! d) (pl_heads p ! d)
        \<longleftrightarrow> class_inv (pl_mem p) (fl d) d (pl_buffers p ! d) (pl_heads p ! d)"
      using slots_classes_neq[OF ok c d _ a] False by (intro class_inv_frame) fastforce
    then show ?thesis using inv False d st(3)[OF d False] by (simp add: pool_inv_def)
  qed
  then show ?thesis using inv st(1) by (simp add: pool_inv_def)
qed

lemma pool_alloc_some:
  assumes inv: "pool_inv p fl" and sz: "sz \<noteq> 0" "unat sz \<le> 256" and c: "target_class sz = Some c" "c < 5"
    and fl: "fl c = a # as"
  obtains p' where "mk_pool_alloc now sz (p, fm) = (a + 16, p', fm)" and "pool_inv p' (fl(c := as))"
    and "pl_buffers p' = pl_buffers p" and "a \<in> slots (pl_buffers p ! c) c"
proof -
  have cl: "class_inv (pl_mem p) (a # as) c (pl_buffers p ! c) (pl_heads p ! c)"
    and cnt: "unat (pc_allocated_blocks (ps_classes (pl_stats p) ! c)) + length (a # as) = s_class_counts ! c"
    and len: "length (ps_classes (pl_stats p)) = 5"
    using inv c(2) fl unfolding pool_inv_def by metis+
  note pop = class_inv_pop[OF cl]
  define n where "n = pl_mem p a"
  define st1 where "st1 = update_class c (\<lambda>k. k\<lparr>pc_allocated_blocks := pc_allocated_blocks k + 1\<rparr>) (pl_stats p)"
  define st2 where "st2 = st1\<lparr>ps_total_used_bytes := ps_total_used_bytes st1 + of_nat (s_block_sizes ! c)\<rparr>"
  define st3 where "st3 = update_class c (\<lambda>k. if pc_peak_allocated k < pc_allocated_blocks k
      then k\<lparr>pc_peak_allocated := pc_allocated_blocks k\<rparr> else k) st2"
  let ?p = "p\<lparr>pl_mem := (pl_mem p)(a := n\<lparr>pn_next_free := 0, pn_magic := MK_POOL_MAGIC_ALLOC, pn_in_use := 1\<rparr>),
      pl_heads := (pl_heads p)[c := pn_next_free n], pl_stats := st3\<rparr>"
  have run: "mk_pool_alloc now sz (p, fm) = (a + 16, ?p, fm)"
    using inv sz c(1) pop(2,3)
    by (simp add: mk_pool_alloc_def pool_inv_def Let_def s_block_sizes_def[THEN arg_cong[where f = "\<lambda>l. l ! 4"]]
        MK_POOL_CLASSES_COUNT_def sizeof_pool_node_def n_def[symmetric] st1_def[symmetric] st2_def[symmetric] st3_def[symmetric])
  have al: "pc_allocated_blocks (ps_classes st3 ! d) = pc_allocated_blocks (ps_classes (pl_stats p) ! d) + (if d = c then 1 else 0)"
    if "d < 5" for d
    using that len c(2) by (auto simp: st3_def st2_def st1_def update_class_def nth_list_update)
  have sm: "s_class_counts ! c < 2 ^ 32" by (rule class_facts(3)[OF c(2)])
  have "unat (pc_allocated_blocks (ps_classes (pl_stats p) ! c) + 1) = unat (pc_allocated_blocks (ps_classes (pl_stats p) ! c)) + 1"
    using cnt sm by (simp add: unat_add_small)
  then have "unat (pc_allocated_blocks (ps_classes st3 ! c)) + length as = s_class_counts ! c"
    using al[OF c(2)] cnt by simp
  then have "pool_inv ?p (fl(c := as))"
    using pop(1) al len by (intro pool_inv_update[OF inv c(2) pop(4)])
      (simp_all add: n_def st3_def st2_def st1_def update_class_def)
  then show ?thesis using run pop(4) by (intro that[of ?p]) simp_all
qed

lemma pool_free_slot:
  assumes inv: "pool_inv p fl" and c: "c < 5" and a: "a \<in> slots (pl_buffers p ! c) c" "a \<notin> set (fl c)"
  obtains p' where "mk_pool_free now (a + 16) (p, fm) = (p', fm)" and "pool_inv p' (fl(c := a # fl c))"
    and "pl_buffers p' = pl_buffers p"
proof -
  have cl: "class_inv (pl_mem p) (fl c) c (pl_buffers p ! c) (pl_heads p ! c)"
    and cnt: "unat (pc_allocated_blocks (ps_classes (pl_stats p) ! c)) + length (fl c) = s_class_counts ! c"
    and len: "length (ps_classes (pl_stats p)) = 5" and ini: "pl_initialized p"
    using inv c unfolding pool_inv_def by metis+
  have a0: "a \<noteq> 0" using slots_range[OF a(1)] inv c by (auto simp: pool_inv_def buffers_ok_def)
  define n where "n = pl_mem p a"
  have n: "pn_magic n = MK_POOL_MAGIC_ALLOC" "pn_in_use n = 1" "pn_class_idx n = of_nat c"
    using cl a by (auto simp: class_inv_def n_def)
  have sub: "set (fl c) \<subset> slots (pl_buffers p ! c) c" using cl a by (auto simp: class_inv_def)
  then have "card (set (fl c)) < card (slots (pl_buffers p ! c) c)"
    by (intro psubset_card_mono) (auto simp: slots_def)
  moreover have "card (slots (pl_buffers p ! c) c) = s_class_counts ! c"
    using class_facts(5)[OF c] by (simp add: slots_def card_image inj_on_def)
  moreover have "card (set (fl c)) = length (fl c)" using cl by (simp add: class_inv_def distinct_card)
  ultimately have pos: "0 < pc_allocated_blocks (ps_classes (pl_stats p) ! c)"
    using cnt by (auto simp: word_less_nat_alt)
  define st1 where "st1 = update_class c (\<lambda>k. k\<lparr>pc_allocated_blocks := pc_allocated_blocks k - 1\<rparr>) (pl_stats p)"
  define st2 where "st2 = (if of_nat (s_block_sizes ! c) \<le> ps_total_used_bytes st1
      then st1\<lparr>ps_total_used_bytes := ps_total_used_bytes st1 - of_nat (s_block_sizes ! c)\<rparr> else st1)"
  let ?p = "p\<lparr>pl_mem := (pl_mem p)(a := n\<lparr>pn_magic := MK_POOL_MAGIC_FREE, pn_in_use := 0, pn_next_free := pl_heads p ! c\<rparr>),
      pl_heads := (pl_heads p)[c := a], pl_stats := st2\<rparr>"
  have run: "mk_pool_free now (a + 16) (p, fm) = (?p, fm)"
    using ini n pos c class_facts(4)[OF c]
    by (simp add: mk_pool_free_def Let_def sizeof_pool_node_def n_def[symmetric] st1_def[symmetric] st2_def
        MK_POOL_CLASSES_COUNT_def)
  have al: "pc_allocated_blocks (ps_classes st2 ! d) = pc_allocated_blocks (ps_classes (pl_stats p) ! d) - (if d = c then 1 else 0)"
    if "d < 5" for d
    using that len c by (auto simp: st2_def st1_def update_class_def nth_list_update)
  have "unat (pc_allocated_blocks (ps_classes (pl_stats p) ! c) - 1) = unat (pc_allocated_blocks (ps_classes (pl_stats p) ! c)) - 1"
    using pos by (intro unat_pred_pos) auto
  then have "unat (pc_allocated_blocks (ps_classes st2 ! c)) + length (a # fl c) = s_class_counts ! c"
    using al[OF c] cnt pos by (simp add: word_less_nat_alt)
  moreover have "length (ps_classes st2) = 5" using len by (simp add: st2_def st1_def update_class_def)
  ultimately have "pool_inv ?p (fl(c := a # fl c))"
    using class_inv_push[OF cl a a0] al by (intro pool_inv_update[OF inv c a(1)]) (simp_all add: n_def)
  then show ?thesis using run by (intro that[of ?p]) simp_all
qed

section \<open>The allocator interface\<close>

definition live_blocks :: "pool \<Rightarrow> (nat \<Rightarrow> nat list) \<Rightarrow> (nat \<times> nat) set" where
  "live_blocks p fl = (\<Union>c < 5. (\<lambda>a. (a + 16, s_block_sizes ! c)) ` (slots (pl_buffers p ! c) c - set (fl c)))"

definition pool_live :: "pool \<times> fault_manager \<Rightarrow> (nat \<times> nat) set \<Rightarrow> bool" where
  "pool_live s L \<longleftrightarrow> (\<exists>fl. pool_inv (fst s) fl \<and> L = live_blocks (fst s) fl)"

definition pool_alloc :: "u32 option \<Rightarrow> u64 \<Rightarrow> pool \<times> fault_manager \<Rightarrow> (nat \<times> pool \<times> fault_manager) option" where
  "pool_alloc now z s = Some (mk_pool_alloc now z s)"

lemma live_blocks_iff:
  "(q, k) \<in> live_blocks p fl \<longleftrightarrow>
   (\<exists>c < 5. \<exists>a \<in> slots (pl_buffers p ! c) c. a \<notin> set (fl c) \<and> q = a + 16 \<and> k = s_block_sizes ! c)"
  by (auto simp: live_blocks_def)

lemma live_blocks_apart:
  assumes ok: "buffers_ok (pl_buffers p)" and "(q, k) \<in> live_blocks p fl" and "(r, l) \<in> live_blocks p fl"
    and "(q, k) \<noteq> (r, l)"
  shows "q + k \<le> r \<or> r + l \<le> q"
proof -
  obtain c a where c: "c < 5" "a \<in> slots (pl_buffers p ! c) c" "q = a + 16" "k = s_block_sizes ! c"
    using assms(2) by (auto simp: live_blocks_iff)
  obtain d b where d: "d < 5" "b \<in> slots (pl_buffers p ! d) d" "r = b + 16" "l = s_block_sizes ! d"
    using assms(3) by (auto simp: live_blocks_iff)
  note sz = class_facts(2)[OF c(1)] class_facts(2)[OF d(1)]
  show ?thesis
  proof (cases "c = d")
    case True
    then have "a \<noteq> b" using assms(4) c d by auto
    then show ?thesis using slots_apart[OF c(2)] d(2) True c d sz by fastforce
  next
    case False
    then show ?thesis using slots_classes[OF ok c(1) d(1) False c(2) d(2)] c d sz by auto
  qed
qed

lemma live_blocks_pop:
  assumes "pool_inv p fl" and "c < 5" and "fl c = a # as" and "a \<in> slots (pl_buffers p ! c) c"
    and "pl_buffers p' = pl_buffers p"
  shows "live_blocks p' (fl(c := as)) = insert (a + 16, s_block_sizes ! c) (live_blocks p fl)"
    and "(a + 16, s_block_sizes ! c) \<notin> live_blocks p fl"
proof -
  have ok: "buffers_ok (pl_buffers p)" and d: "a \<notin> set as"
    using assms(1-3) by (auto simp: pool_inv_def class_inv_def)
  show "(a + 16, s_block_sizes ! c) \<notin> live_blocks p fl"
  proof
    assume "(a + 16, s_block_sizes ! c) \<in> live_blocks p fl"
    then obtain e where e: "e < 5" "a \<in> slots (pl_buffers p ! e) e" "a \<notin> set (fl e)" by (auto simp: live_blocks_iff)
    then have "e \<noteq> c" using assms(3) by auto
    then show False using slots_classes_neq[OF ok e(1) assms(2) _ e(2) assms(4)] by simp
  qed
  show "live_blocks p' (fl(c := as)) = insert (a + 16, s_block_sizes ! c) (live_blocks p fl)"
  proof -
    have key: "x \<notin> set ((fl(c := as)) e) \<longleftrightarrow> x \<notin> set (fl e) \<or> e = c \<and> x = a" for e x
      using d assms(3) by auto
    have "(q, k) \<in> live_blocks p' (fl(c := as)) \<longleftrightarrow> (q, k) = (a + 16, s_block_sizes ! c) \<or> (q, k) \<in> live_blocks p fl"
      for q k unfolding live_blocks_iff key assms(5) using assms(2,4) by blast
    then show ?thesis by auto
  qed
qed

lemma live_blocks_push:
  assumes "pool_inv p fl" and "c < 5" and "a \<in> slots (pl_buffers p ! c) c" and "pl_buffers p' = pl_buffers p"
  shows "live_blocks p' (fl(c := a # fl c)) = live_blocks p fl - {(a + 16, s_block_sizes ! c)}"
proof -
  have ok: "buffers_ok (pl_buffers p)" using assms(1) by (simp add: pool_inv_def)
  have "e = c" if "e < 5" "a \<in> slots (pl_buffers p ! e) e" for e
    using slots_classes_neq[OF ok that(1) assms(2) _ that(2) assms(3)] by blast
  then have one: "e < 5 \<Longrightarrow> a \<in> slots (pl_buffers p ! e) e \<Longrightarrow> e = c" for e .
  have key: "x \<notin> set ((fl(c := a # fl c)) e) \<longleftrightarrow> x \<notin> set (fl e) \<and> \<not> (e = c \<and> x = a)" for e x by auto
  have "(q, k) \<in> live_blocks p' (fl(c := a # fl c))
      \<longleftrightarrow> (q, k) \<in> live_blocks p fl \<and> (q, k) \<noteq> (a + 16, s_block_sizes ! c)" for q k
  proof
    assume "(q, k) \<in> live_blocks p' (fl(c := a # fl c))"
    then obtain e x where e: "e < 5" "x \<in> slots (pl_buffers p ! e) e" "x \<notin> set (fl e)" "\<not> (e = c \<and> x = a)"
      "q = x + 16" "k = s_block_sizes ! e" unfolding live_blocks_iff key assms(4) by blast
    moreover have "x \<noteq> a" using one[OF e(1)] e(2,4) by blast
    ultimately show "(q, k) \<in> live_blocks p fl \<and> (q, k) \<noteq> (a + 16, s_block_sizes ! c)"
      unfolding live_blocks_iff by auto
  next
    assume "(q, k) \<in> live_blocks p fl \<and> (q, k) \<noteq> (a + 16, s_block_sizes ! c)"
    then obtain e x where "e < 5" "x \<in> slots (pl_buffers p ! e) e" "x \<notin> set (fl e)" "\<not> (e = c \<and> x = a)"
      "q = x + 16" "k = s_block_sizes ! e" unfolding live_blocks_iff by blast
    then show "(q, k) \<in> live_blocks p' (fl(c := a # fl c))" unfolding live_blocks_iff key assms(4) by blast
  qed
  then show ?thesis by auto
qed

interpretation pool: allocator pool_live unat "pool_alloc now" "mk_pool_free now" for now
proof
  fix s :: "pool \<times> fault_manager" and L q k
  assume "pool_live s L"
  then obtain fl where inv: "pool_inv (fst s) fl" and L: "L = live_blocks (fst s) fl" by (auto simp: pool_live_def)
  have ok: "buffers_ok (pl_buffers (fst s))" using inv by (simp add: pool_inv_def)
  show "q + k \<le> r \<or> r + l \<le> q" if "(q, k) \<in> L" "(r, l) \<in> L" "(q, k) \<noteq> (r, l)" for r l
    using live_blocks_apart[OF ok] that unfolding L by blast
  show "\<exists>p s'. pool_alloc now z s = Some (p, s') \<and> (p = 0 \<and> pool_live s' L
      \<or> p \<noteq> 0 \<and> (\<exists>n. unat z \<le> n \<and> (p, n) \<notin> L \<and> pool_live s' (insert (p, n) L)))" for now z
  proof (cases "z = 0 \<or> 256 < unat z")
    case True
    then have "mk_pool_alloc now z s = (0, s)"
      using inv by (cases s) (auto simp: mk_pool_alloc_def pool_inv_def Let_def s_block_sizes_def MK_POOL_CLASSES_COUNT_def)
    then show ?thesis using inv L by (auto simp: pool_alloc_def pool_live_def)
  next
    case False
    then have z: "z \<noteq> 0" "unat z \<le> 256" by auto
    obtain c where c: "target_class z = Some c" "c < 5" "unat z \<le> s_block_sizes ! c"
      using target_class_some[OF z] by blast
    show ?thesis
    proof (cases "fl c")
      case Nil
      show ?thesis
        by (rule pool_alloc_empty[OF inv z c(1) Nil c(2), of now "snd s"])
           (use L in \<open>auto simp: pool_alloc_def pool_live_def live_blocks_def\<close>)
    next
      case (Cons a as)
      show ?thesis
      proof (rule pool_alloc_some[OF inv z c(1,2) Cons, of now "snd s"])
        fix p' assume r: "mk_pool_alloc now z (fst s, snd s) = (a + 16, p', snd s)" "pool_inv p' (fl(c := as))"
          "pl_buffers p' = pl_buffers (fst s)" "a \<in> slots (pl_buffers (fst s) ! c) c"
        note lb = live_blocks_pop[OF inv c(2) Cons r(4,3)]
        show ?thesis
          by (rule exI[of _ "a + 16"], rule exI[of _ "(p', snd s)"])
             (use r(1,2) lb c(3) in \<open>auto simp: L pool_alloc_def pool_live_def intro!: exI[of _ "s_block_sizes ! c"]\<close>)
      qed
    qed
  qed
  assume qk: "(q, k) \<in> L"
  obtain c a where c: "c < 5" "a \<in> slots (pl_buffers (fst s) ! c) c" "a \<notin> set (fl c)" "q = a + 16" "k = s_block_sizes ! c"
    using qk unfolding L by (auto simp: live_blocks_iff)
  obtain i where "a = pl_buffers (fst s) ! c + i * slot_size c" using c(2) by (auto simp: slots_def)
  moreover have "8 dvd pl_buffers (fst s) ! c" using ok c(1) by (simp add: buffers_ok_def)
  ultimately show "8 dvd q" using class_facts(1)[OF c(1)] c(4) by simp
  show "pool_live (mk_pool_free now q s) (L - {(q, k)})" for now
    by (rule pool_free_slot[OF inv c(1-3), of now "snd s"])
       (use live_blocks_push[OF inv c(1,2)] in \<open>auto simp: L c(4,5) pool_live_def\<close>)
qed

section \<open>Properties\<close>

lemma pool_init_live:
  assumes "buffers_ok (pl_buffers p)" and "length (pl_heads p) = 5"
  shows "pool_live (snd (mk_pool_init p), fm) {}"
proof -
  have "set (all_slots (pl_buffers p ! c) c) = slots (pl_buffers p ! c) c" for c
    by (auto simp: all_slots_def slots_def)
  then have "live_blocks (snd (mk_pool_init p)) (\<lambda>c. all_slots (pl_buffers p ! c) c) = {}"
    using pool_init_inv(2)[OF assms] by (simp add: live_blocks_def)
  then show ?thesis using pool_init_inv(1)[OF assms] by (auto simp: pool_live_def)
qed


definition demo_pool :: pool where
  "demo_pool = \<lparr>pl_buffers = [4096, 5120, 6656, 9216, 11520], pl_mem = (\<lambda>_. \<lparr>pn_magic = 0, pn_class_idx = 0,
     pn_in_use = 0, pn_reserved = 0, pn_next_free = 0\<rparr>), pl_heads = replicate 5 0, pl_stats = pool_stats_zero,
     pl_initialized = False\<rparr>"

lemma demo_pool_ok: "buffers_ok (pl_buffers demo_pool)" "length (pl_heads demo_pool) = 5"
  by (simp_all add: buffers_ok_def demo_pool_def all5 slot_size_def s_block_sizes_def s_class_counts_def sizeof_pool_node_def)


text \<open>The answers to \<open>k\<close> requests of the same size in a row\<close>

fun alloc_row :: "u32 option \<Rightarrow> u64 \<Rightarrow> nat \<Rightarrow> pool \<times> fault_manager \<Rightarrow> nat list" where
  "alloc_row now sz 0 s = []"
| "alloc_row now sz (Suc k) s = (case mk_pool_alloc now sz s of (p, s') \<Rightarrow> p # alloc_row now sz k s')"

lemma alloc_row_counts:
  assumes "pool_inv p fl" and sz: "sz \<noteq> 0" "unat sz \<le> 256" and c: "target_class sz = Some c" "c < 5"
  shows "map (\<lambda>x. x \<noteq> 0) (alloc_row now sz k (p, fm)) = map (\<lambda>i. i < length (fl c)) [0..<k]"
  using assms(1)
proof (induction k arbitrary: p fl fm)
  case 0
  then show ?case by simp
next
  case (Suc k)
  have up: "[0..<Suc k] = 0 # map Suc [0..<k]" by (simp add: map_Suc_upt upt_conv_Cons del: upt_Suc)
  show ?case
  proof (cases "fl c")
    case Nil
    show ?thesis
    proof (rule pool_alloc_empty[OF Suc.prems sz c(1) Nil c(2), of now fm])
      fix p' assume "mk_pool_alloc now sz (p, fm) = (0, p', mk_fault_record_full now MK_FAULT_MEMORY_EXHAUSTED
          MK_FAULT_SRC_MEMORY MK_FAULT_SEV_WARNING (ucast sz) (of_nat c) fm)" "pool_inv p' fl"
      then show ?thesis using Suc.IH[of p' fl "mk_fault_record_full now MK_FAULT_MEMORY_EXHAUSTED
          MK_FAULT_SRC_MEMORY MK_FAULT_SEV_WARNING (ucast sz) (of_nat c) fm"] Nil unfolding up by (simp add: comp_def)
    qed
  next
    case (Cons a as)
    show ?thesis
    proof (rule pool_alloc_some[OF Suc.prems sz c Cons, of now fm])
      fix p' assume r: "mk_pool_alloc now sz (p, fm) = (a + 16, p', fm)" "pool_inv p' (fl(c := as))"
      then show ?thesis using Suc.IH[OF r(2), of fm] Cons unfolding up by (simp add: comp_def)
    qed
  qed
qed

text \<open>After \<open>mk_pool_init\<close>, requests of one size are granted exactly as often as the smallest
  class that fits has blocks; later ones are refused, even when a larger class has free blocks.\<close>

theorem pool_class_capacity:
  assumes "buffers_ok (pl_buffers p)" and "length (pl_heads p) = 5" and "sz \<noteq> 0" and "unat sz \<le> 256"
  shows "\<exists>c < 5. unat sz \<le> s_block_sizes ! c \<and> (\<forall>d < c. s_block_sizes ! d < unat sz)
    \<and> map (\<lambda>x. x \<noteq> 0) (alloc_row now sz k (snd (mk_pool_init p), fm)) = map (\<lambda>i. i < s_class_counts ! c) [0..<k]"
proof -
  obtain c where c: "target_class sz = Some c" "c < 5" "unat sz \<le> s_block_sizes ! c"
    "\<And>d. d < c \<Longrightarrow> s_block_sizes ! d < unat sz" using target_class_some[OF assms(3,4)] by blast
  have "length (all_slots (pl_buffers p ! c) c) = s_class_counts ! c" by (simp add: all_slots_def)
  then show ?thesis
    using alloc_row_counts[OF pool_init_inv(1)[OF assms(1,2)] assms(3,4) c(1,2), of now k fm] c
    by (intro exI[of _ c] conjI allI impI) simp_all
qed

theorem pool_class_capacity_witness:
  "\<exists>c < 5. map (\<lambda>x. x \<noteq> 0) (alloc_row None 200 9 (snd (mk_pool_init demo_pool), fault_manager_static))
     = map (\<lambda>i. i < s_class_counts ! c) [0..<9]"
  using pool_class_capacity[OF demo_pool_ok, of 200 None 9 fault_manager_static] by auto

text \<open>C33. Releasing a block that is already free changes nothing and records a double-free fault.\<close>

theorem pool_double_free:
  assumes "pool_inv p fl" and "c < 5" and "a \<in> set (fl c)"
  shows "mk_pool_free now (a + 16) (p, fm) = (p, mk_fault_record_full now MK_FAULT_MEMORY_DOUBLE_FREE
      MK_FAULT_SRC_MEMORY MK_FAULT_SEV_WARNING 0xBAD10001 (of_nat (a + 16)) fm)"
proof -
  have "class_inv (pl_mem p) (fl c) c (pl_buffers p ! c) (pl_heads p ! c)" and "pl_initialized p"
    using assms by (auto simp: pool_inv_def)
  then have "pn_in_use (pl_mem p a) = 0" using assms(3) by (auto simp: class_inv_def)
  then show ?thesis using \<open>pl_initialized p\<close> by (simp add: mk_pool_free_def sizeof_pool_node_def Let_def)
qed

theorem pool_double_free_witness:
  "mk_pool_free None (4096 + 16) (snd (mk_pool_init demo_pool), fault_manager_static)
     = (snd (mk_pool_init demo_pool), mk_fault_record_full None MK_FAULT_MEMORY_DOUBLE_FREE
          MK_FAULT_SRC_MEMORY MK_FAULT_SEV_WARNING 0xBAD10001 (of_nat (4096 + 16)) fault_manager_static)"
proof (rule pool_double_free[OF pool_init_inv(1)[OF demo_pool_ok]])
  show "(0 :: nat) < 5" by simp
  show "4096 \<in> set (all_slots (pl_buffers demo_pool ! 0) 0)"
    by (simp add: all_slots_def demo_pool_def s_class_counts_def upt_rec)
qed

end
