(* ===== verification/Bounded_Fifo.thy ===== *)
theory Bounded_Fifo
  imports Prelude
begin

text \<open>
  The interface of a bounded first-in first-out queue that rejects new elements when it is full.
  The kernel event bus, the Wi-Fi frame queue and the simulated serial port of the host protocol
  all promise it. Clients reason with the lemmas of the locale, each component interprets it.
\<close>

section \<open>Operations and the abstract queue\<close>

datatype 'a fifo_op = Put 'a | Get
datatype 'a fifo_out = Accepted bool | Got "'a option"

fun fifo_run ::
  "('a \<Rightarrow> 's \<Rightarrow> bool \<times> 's) \<Rightarrow> ('s \<Rightarrow> 'a option \<times> 's) \<Rightarrow> 'a fifo_op list \<Rightarrow> 's \<Rightarrow>
   'a fifo_out list \<times> 's" where
  "fifo_run put get [] s = ([], s)"
| "fifo_run put get (Put x # ops) s =
     (let (ok, s1) = put x s; (outs, s2) = fifo_run put get ops s1 in (Accepted ok # outs, s2))"
| "fifo_run put get (Get # ops) s =
     (let (v, s1) = get s; (outs, s2) = fifo_run put get ops s1 in (Got v # outs, s2))"

text \<open>The abstract queue is a list of at most \<open>cap\<close> elements.\<close>

definition list_put :: "nat \<Rightarrow> 'a \<Rightarrow> 'a list \<Rightarrow> bool \<times> 'a list" where
  "list_put cap x q = (if length q < cap then (True, q @ [x]) else (False, q))"

definition list_get :: "'a list \<Rightarrow> 'a option \<times> 'a list" where
  "list_get q = (case q of [] \<Rightarrow> (None, []) | x # q' \<Rightarrow> (Some x, q'))"

text \<open>The elements a run took in and the elements it gave out, each in order\<close>

fun taken_in :: "'a fifo_op list \<Rightarrow> 'a fifo_out list \<Rightarrow> 'a list" where
  "taken_in (Put x # ops) (Accepted ok # outs) = (if ok then x # taken_in ops outs else taken_in ops outs)"
| "taken_in (Get # ops) (Got v # outs) = taken_in ops outs"
| "taken_in _ _ = []"

fun given_out :: "'a fifo_out list \<Rightarrow> 'a list" where
  "given_out [] = []"
| "given_out (Got (Some x) # outs) = x # given_out outs"
| "given_out (_ # outs) = given_out outs"

text \<open>The number of elements a run refused\<close>

fun refused :: "'a fifo_out list \<Rightarrow> nat" where
  "refused [] = 0"
| "refused (Accepted ok # outs) = (if ok then 0 else 1) + refused outs"
| "refused (Got v # outs) = refused outs"

text \<open>The abstract queue loses nothing, duplicates nothing and keeps the order.\<close>

lemma list_queue_conservation:
  "fifo_run (list_put cap) list_get ops q = (outs, q') \<Longrightarrow> q @ taken_in ops outs = given_out outs @ q'"
proof (induction ops arbitrary: q outs)
  case Nil
  then show ?case by simp
next
  case (Cons op ops)
  show ?case
  proof (cases op)
    case (Put x)
    with Cons.prems obtain outs1 where
      r: "fifo_run (list_put cap) list_get ops (snd (list_put cap x q)) = (outs1, q')"
      and o: "outs = Accepted (fst (list_put cap x q)) # outs1"
      by (auto simp: Let_def split: prod.splits)
    show ?thesis using Cons.IH[OF r] o Put by (auto simp: list_put_def split: if_splits)
  next
    case Get
    with Cons.prems obtain outs1 where
      r: "fifo_run (list_put cap) list_get ops (snd (list_get q)) = (outs1, q')"
      and o: "outs = Got (fst (list_get q)) # outs1"
      by (auto simp: Let_def split: prod.splits)
    show ?thesis using Cons.IH[OF r] o Get by (cases q) (auto simp: list_get_def)
  qed
qed

section \<open>The interface\<close>

locale bounded_fifo =
  fixes cap :: nat
    and inv :: "'s \<Rightarrow> bool"
    and elems :: "'s \<Rightarrow> 'a list"
    and put :: "'a \<Rightarrow> 's \<Rightarrow> bool \<times> 's"
    and get :: "'s \<Rightarrow> 'a option \<times> 's"
  assumes elems_cap: "inv s \<Longrightarrow> length (elems s) \<le> cap"
    and put_inv: "inv s \<Longrightarrow> inv (snd (put x s))"
    and put_refines: "inv s \<Longrightarrow>
      (fst (put x s), elems (snd (put x s))) = list_put cap x (elems s)"
    and get_inv: "inv s \<Longrightarrow> inv (snd (get s))"
    and get_refines: "inv s \<Longrightarrow>
      (fst (get s), elems (snd (get s))) = list_get (elems s)"
begin

text \<open>A run of the component gives the answers of the abstract queue.\<close>

lemma run_refines:
  "inv s \<Longrightarrow> inv (snd (fifo_run put get ops s))
   \<and> fifo_run (list_put cap) list_get ops (elems s)
     = (fst (fifo_run put get ops s), elems (snd (fifo_run put get ops s)))"
proof (induction ops arbitrary: s)
  case Nil
  then show ?case by simp
next
  case (Cons op ops)
  show ?case
  proof (cases op)
    case (Put x)
    obtain ok s1 where p: "put x s = (ok, s1)" by (cases "put x s") auto
    have "inv s1" using put_inv[OF Cons.prems, of x] p by simp
    moreover have "list_put cap x (elems s) = (ok, elems s1)"
      using put_refines[OF Cons.prems, of x] p by simp
    ultimately show ?thesis
      using Cons.IH[of s1] Put p by (cases "fifo_run put get ops s1") simp
  next
    case Get
    obtain v s1 where p: "get s = (v, s1)" by (cases "get s") auto
    have "inv s1" using get_inv[OF Cons.prems] p by simp
    moreover have "list_get (elems s) = (v, elems s1)"
      using get_refines[OF Cons.prems] p by simp
    ultimately show ?thesis
      using Cons.IH[of s1] Get p by (cases "fifo_run put get ops s1") simp
  qed
qed

lemma run_inv: "inv s \<Longrightarrow> inv (snd (fifo_run put get ops s))"
  using run_refines by blast

lemma run_conservation:
  assumes "inv s" and "fifo_run put get ops s = (outs, s')"
  shows "elems s @ taken_in ops outs = given_out outs @ elems s'"
  using run_refines[OF assms(1), of ops] assms(2)
  by (intro list_queue_conservation[of cap ops]) simp

lemma run_bounded: "inv s \<Longrightarrow> length (elems (snd (fifo_run put get ops s))) \<le> cap"
  using run_inv elems_cap by blast

end

end
