(* ===== verification/Event_Bus.thy ===== *)
theory Event_Bus
  imports Fault_Manager Bounded_Fifo
begin

text \<open>
  \<^verbatim>\<open>os/kernel/event_bus.c\<close>: the ring of 64 pending events. A full queue drops the new event and
  records a fault. Pointer arguments are options, \<open>None\<close> is NULL.
\<close>

section \<open>State\<close>

record event_bus_stats =
  total_events_posted :: u32
  total_events_dispatched :: u32
  queue_overflows :: u32
  current_depth :: u32

record event_bus =
  eb_queue :: "mk_event list"
  eb_head :: u32
  eb_tail :: u32
  eb_count :: u32
  eb_stats :: event_bus_stats
  eb_initialized :: bool

definition event_bus_stats_zero :: event_bus_stats where
  "event_bus_stats_zero = \<lparr>total_events_posted = 0, total_events_dispatched = 0,
     queue_overflows = 0, current_depth = 0\<rparr>"

definition event_bus_static :: event_bus where
  "event_bus_static = \<lparr>eb_queue = replicate (unat MK_EVENT_QUEUE_SIZE) mk_event_zero,
     eb_head = 0, eb_tail = 0, eb_count = 0, eb_stats = event_bus_stats_zero,
     eb_initialized = False\<rparr>"

section \<open>Operations\<close>

definition mk_event_bus_init :: "event_bus \<Rightarrow> mk_status \<times> event_bus" where
  "mk_event_bus_init b = (MK_STATUS_OK,
     \<lparr>eb_queue = replicate (unat MK_EVENT_QUEUE_SIZE) mk_event_zero,
      eb_head = 0, eb_tail = 0, eb_count = 0, eb_stats = event_bus_stats_zero,
      eb_initialized = True\<rparr>)"

definition mk_event_bus_post ::
  "u32 option \<Rightarrow> mk_event option \<Rightarrow> event_bus \<times> fault_manager \<Rightarrow>
   mk_status \<times> event_bus \<times> fault_manager" where
  "mk_event_bus_post now event s =
     (case s of (b0, fm) \<Rightarrow>
      case event of
        None \<Rightarrow> (MK_STATUS_INVALID_ARG, b0, fm)
      | Some e \<Rightarrow>
          (let (ist, b) = (if eb_initialized b0 then (MK_STATUS_OK, b0) else mk_event_bus_init b0)
           in if ist \<noteq> MK_STATUS_OK then (MK_STATUS_ERROR, b, fm)
              else if MK_EVENT_QUEUE_SIZE \<le> eb_count b
              then (MK_STATUS_QUEUE_FULL,
                    b\<lparr>eb_stats := (eb_stats b)\<lparr>queue_overflows := queue_overflows (eb_stats b) + 1\<rparr>\<rparr>,
                    mk_fault_record_full now MK_FAULT_APP_ERROR MK_FAULT_SRC_SYSTEM
                      MK_FAULT_SEV_WARNING 0xEE000001 (of_nat (event_type_ord (ev_type e))) fm)
              else (MK_STATUS_OK,
                    b\<lparr>eb_queue := (eb_queue b)[unat (eb_head b) := e],
                      eb_head := (eb_head b + 1) mod MK_EVENT_QUEUE_SIZE,
                      eb_count := eb_count b + 1,
                      eb_stats := (eb_stats b)
                        \<lparr>total_events_posted := total_events_posted (eb_stats b) + 1,
                         current_depth := eb_count b + 1\<rparr>\<rparr>,
                    fm)))"

definition mk_event_bus_pop :: "bool \<Rightarrow> event_bus \<Rightarrow> mk_status \<times> mk_event option \<times> event_bus" where
  "mk_event_bus_pop out b =
     (if \<not> out then (MK_STATUS_INVALID_ARG, None, b)
      else if \<not> eb_initialized b \<or> eb_count b = 0 then (MK_STATUS_QUEUE_EMPTY, None, b)
      else (MK_STATUS_OK, Some (eb_queue b ! unat (eb_tail b)),
            b\<lparr>eb_tail := (eb_tail b + 1) mod MK_EVENT_QUEUE_SIZE,
              eb_count := eb_count b - 1,
              eb_stats := (eb_stats b)
                \<lparr>total_events_dispatched := total_events_dispatched (eb_stats b) + 1,
                 current_depth := eb_count b - 1\<rparr>\<rparr>))"

definition mk_event_bus_peek :: "bool \<Rightarrow> event_bus \<Rightarrow> mk_status \<times> mk_event option" where
  "mk_event_bus_peek out b =
     (if \<not> out then (MK_STATUS_INVALID_ARG, None)
      else if \<not> eb_initialized b \<or> eb_count b = 0 then (MK_STATUS_QUEUE_EMPTY, None)
      else (MK_STATUS_OK, Some (eb_queue b ! unat (eb_tail b))))"

definition mk_event_bus_pending_count :: "event_bus \<Rightarrow> u32" where
  "mk_event_bus_pending_count b = eb_count b"

definition mk_event_bus_get_stats :: "event_bus \<Rightarrow> event_bus_stats" where
  "mk_event_bus_get_stats b = (eb_stats b)\<lparr>current_depth := eb_count b\<rparr>"

section \<open>Invariant and abstraction\<close>

definition event_bus_inv :: "event_bus \<Rightarrow> bool" where
  "event_bus_inv b \<longleftrightarrow> length (eb_queue b) = 64 \<and> unat (eb_tail b) < 64 \<and> unat (eb_count b) \<le> 64
     \<and> unat (eb_head b) = (unat (eb_tail b) + unat (eb_count b)) mod 64
     \<and> (\<not> eb_initialized b \<longrightarrow> eb_count b = 0)"

text \<open>The counters agree with the depth of the queue, whatever wrapped.\<close>

definition event_stats_inv :: "event_bus \<Rightarrow> bool" where
  "event_stats_inv b \<longleftrightarrow>
     total_events_posted (eb_stats b) = total_events_dispatched (eb_stats b) + eb_count b
     \<and> current_depth (eb_stats b) = eb_count b"

definition event_list :: "event_bus \<Rightarrow> mk_event list" where
  "event_list b = ring_list (eb_queue b) (unat (eb_tail b)) (unat (eb_count b))"

lemma event_bus_inv_init [inv_intros]: "event_bus_inv (snd (mk_event_bus_init b))"
  by (simp add: mk_event_bus_init_def event_bus_inv_def MK_EVENT_QUEUE_SIZE_def)

lemma event_bus_inv_static [inv_intros]: "event_bus_inv event_bus_static"
  by (simp add: event_bus_static_def event_bus_inv_def MK_EVENT_QUEUE_SIZE_def)

lemma event_list_init: "event_list (snd (mk_event_bus_init b)) = []"
  by (simp add: mk_event_bus_init_def event_list_def)

lemma event_list_length: "length (event_list b) = unat (eb_count b)"
  by (simp add: event_list_def)

text \<open>The call that initialises a bus never used before changes nothing an observer sees.\<close>

definition ready_bus :: "event_bus \<Rightarrow> event_bus" where
  "ready_bus b = (if eb_initialized b then b else snd (mk_event_bus_init b))"

lemma ready_bus_inv: "event_bus_inv b \<Longrightarrow> event_bus_inv (ready_bus b)"
  by (simp add: ready_bus_def event_bus_inv_init)

lemma ready_bus_list: "event_bus_inv b \<Longrightarrow> event_list (ready_bus b) = event_list b"
  by (auto simp: ready_bus_def event_list_def mk_event_bus_init_def event_bus_inv_def)

lemma ready_bus_initialized [simp]: "eb_initialized (ready_bus b)"
  by (simp add: ready_bus_def mk_event_bus_init_def)

lemma post_ready:
  "mk_event_bus_post now (Some e) (b, fm) = mk_event_bus_post now (Some e) (ready_bus b, fm)"
  by (simp add: mk_event_bus_post_def ready_bus_def mk_event_bus_init_def)

text \<open>Both outcomes of a post on an initialised bus\<close>

lemma post_room:
  assumes "eb_initialized b" and "unat (eb_count b) < 64"
  shows "mk_event_bus_post now (Some e) (b, fm) = (MK_STATUS_OK,
    b\<lparr>eb_queue := (eb_queue b)[unat (eb_head b) := e], eb_head := (eb_head b + 1) mod 64,
      eb_count := eb_count b + 1,
      eb_stats := (eb_stats b)\<lparr>total_events_posted := total_events_posted (eb_stats b) + 1,
                               current_depth := eb_count b + 1\<rparr>\<rparr>, fm)"
  using assms by (simp add: mk_event_bus_post_def MK_EVENT_QUEUE_SIZE_def word_le_nat_alt)

lemma post_full:
  assumes "eb_initialized b" and "64 \<le> unat (eb_count b)"
  shows "mk_event_bus_post now (Some e) (b, fm) = (MK_STATUS_QUEUE_FULL,
    b\<lparr>eb_stats := (eb_stats b)\<lparr>queue_overflows := queue_overflows (eb_stats b) + 1\<rparr>\<rparr>,
    mk_fault_record_full now MK_FAULT_APP_ERROR MK_FAULT_SRC_SYSTEM MK_FAULT_SEV_WARNING
      0xEE000001 (of_nat (event_type_ord (ev_type e))) fm)"
  using assms by (simp add: mk_event_bus_post_def MK_EVENT_QUEUE_SIZE_def word_le_nat_alt)

lemma post_room_list:
  assumes inv: "event_bus_inv b" and room: "unat (eb_count b) < 64" and ini: "eb_initialized b"
    and b'_def: "b' = fst (snd (mk_event_bus_post now (Some e) (b, fm)))"
  shows "event_bus_inv b'" and "event_list b' = event_list b @ [e]"
proof -
  have h: "unat (eb_head b) < 64" using inv by (simp add: event_bus_inv_def)
  show "event_bus_inv b'"
    using inv room h unfolding b'_def post_room[OF ini room]
    by (simp add: event_bus_inv_def unat_next_64 unat_count_up mod_Suc_eq ini)
  show "event_list b' = event_list b @ [e]"
    using inv room ring_list_push[of "unat (eb_count b)" "eb_queue b" "unat (eb_tail b)" e]
    unfolding b'_def post_room[OF ini room]
    by (simp add: event_list_def event_bus_inv_def unat_count_up)
qed

lemma post_full_list:
  assumes inv: "event_bus_inv b" and full: "64 \<le> unat (eb_count b)" and ini: "eb_initialized b"
    and b'_def: "b' = fst (snd (mk_event_bus_post now (Some e) (b, fm)))"
  shows "event_bus_inv b'" and "event_list b' = event_list b"
  using inv unfolding b'_def post_full[OF ini full] by (simp_all add: event_bus_inv_def event_list_def)

lemma pop_list:
  assumes inv: "event_bus_inv b"
  shows "event_bus_inv (snd (snd (mk_event_bus_pop True b)))"
    and "(fst (snd (mk_event_bus_pop True b)), event_list (snd (snd (mk_event_bus_pop True b))))
         = list_get (event_list b)"
proof -
  let ?t = "unat (eb_tail b)" and ?c = "unat (eb_count b)"
  have t: "?t < 64" and len: "length (eb_queue b) = 64" and c: "?c \<le> 64"
    and hd: "unat (eb_head b) = (?t + ?c) mod 64"
    using inv by (auto simp: event_bus_inv_def)
  have c1: "unat (eb_count b - 1) = ?c - 1" if "eb_count b \<noteq> 0"
    using that by (rule unat_pred_pos)
  have pos: "0 < ?c" if "eb_count b \<noteq> 0" using that by (simp add: unat_gt_0)
  have hd': "(Suc ?t mod 64 + (?c - 1)) mod 64 = (?t + ?c) mod 64" if "0 < ?c"
    using that by (rule ring_pop_head)
  show "event_bus_inv (snd (snd (mk_event_bus_pop True b)))"
    using inv t c1 hd' pos unat_next_64[OF t]
    by (auto simp: mk_event_bus_pop_def event_bus_inv_def MK_EVENT_QUEUE_SIZE_def)
  show "(fst (snd (mk_event_bus_pop True b)), event_list (snd (snd (mk_event_bus_pop True b))))
        = list_get (event_list b)"
  proof (cases "eb_count b = 0")
    case True
    then show ?thesis by (simp add: mk_event_bus_pop_def event_list_def list_get_def)
  next
    case False
    then have "eb_initialized b" using inv by (auto simp: event_bus_inv_def)
    then show ?thesis
      using False ring_list_pop[OF pos[OF False], of "eb_queue b" ?t] t len c1 unat_next_64[OF t]
      by (simp add: mk_event_bus_pop_def event_list_def list_get_def MK_EVENT_QUEUE_SIZE_def)
  qed
qed

section \<open>The event bus is a bounded queue\<close>

definition bus_put ::
  "u32 option \<Rightarrow> mk_event \<Rightarrow> event_bus \<times> fault_manager \<Rightarrow> bool \<times> event_bus \<times> fault_manager" where
  "bus_put now e s = (let (st, s') = mk_event_bus_post now (Some e) s in (st = MK_STATUS_OK, s'))"

definition bus_get ::
  "event_bus \<times> fault_manager \<Rightarrow> mk_event option \<times> event_bus \<times> fault_manager" where
  "bus_get s = (let (st, v, b) = mk_event_bus_pop True (fst s) in (v, b, snd s))"

lemma bus_put_room:
  assumes "event_bus_inv b" and "unat (eb_count (ready_bus b)) < 64"
  shows "event_bus_inv (fst (snd (bus_put now e (b, fm))))"
    and "(fst (bus_put now e (b, fm)), event_list (fst (snd (bus_put now e (b, fm)))))
         = (True, event_list b @ [e])"
  using assms post_room_list[of "ready_bus b" _ now e fm, OF _ _ _ refl] ready_bus_inv[of b] ready_bus_list[of b]
    post_room[of "ready_bus b" now e fm]
  by (simp_all add: bus_put_def post_ready[of now e b fm])

lemma bus_put_full:
  assumes "event_bus_inv b" and "64 \<le> unat (eb_count (ready_bus b))"
  shows "event_bus_inv (fst (snd (bus_put now e (b, fm))))"
    and "(fst (bus_put now e (b, fm)), event_list (fst (snd (bus_put now e (b, fm)))))
         = (False, event_list b)"
  using assms post_full_list[of "ready_bus b" _ now e fm, OF _ _ _ refl] ready_bus_inv[of b] ready_bus_list[of b]
    post_full[of "ready_bus b" now e fm]
  by (simp_all add: bus_put_def post_ready[of now e b fm])

lemma bus_put_refines:
  assumes "event_bus_inv b"
  shows "event_bus_inv (fst (snd (bus_put now e (b, fm))))"
    and "(fst (bus_put now e (b, fm)), event_list (fst (snd (bus_put now e (b, fm)))))
         = list_put 64 e (event_list b)"
proof -
  have "length (event_list b) = unat (eb_count (ready_bus b))"
    using ready_bus_list[OF assms] event_list_length[of "ready_bus b"] by simp
  then show "event_bus_inv (fst (snd (bus_put now e (b, fm))))"
    and "(fst (bus_put now e (b, fm)), event_list (fst (snd (bus_put now e (b, fm)))))
         = list_put 64 e (event_list b)"
    using assms bus_put_room[of b now e fm] bus_put_full[of b now e fm]
    by (cases "unat (eb_count (ready_bus b)) < 64"; simp add: list_put_def not_less)+
qed

interpretation bus: bounded_fifo 64 "\<lambda>s. event_bus_inv (fst s)" "\<lambda>s. event_list (fst s)"
  "bus_put now" bus_get for now
proof unfold_locales
  fix s :: "event_bus \<times> fault_manager" and x :: mk_event
  assume inv: "event_bus_inv (fst s)"
  show "length (event_list (fst s)) \<le> 64"
    using inv by (simp add: event_list_length event_bus_inv_def)
  show "event_bus_inv (fst (snd (bus_put now x s)))"
    using bus_put_refines(1)[OF inv, of now x "snd s"] by simp
  show "(fst (bus_put now x s), event_list (fst (snd (bus_put now x s)))) = list_put 64 x (event_list (fst s))"
    using bus_put_refines(2)[OF inv, of now x "snd s"] by simp
  show "event_bus_inv (fst (snd (bus_get s)))"
    using pop_list(1)[OF inv] by (cases "mk_event_bus_pop True (fst s)") (simp add: bus_get_def)
  show "(fst (bus_get s), event_list (fst (snd (bus_get s)))) = list_get (event_list (fst s))"
    using pop_list(2)[OF inv] by (cases "mk_event_bus_pop True (fst s)") (simp add: bus_get_def)
qed

section \<open>Properties\<close>

text \<open>C9. From initialisation on, any interleaving of posts and pops gives the answers of an abstract
  first-in first-out queue of capacity 64 that refuses new events when full, and ends with its
  contents; nothing is lost, duplicated or reordered.\<close>

theorem event_bus_is_fifo:
  assumes "fifo_run (bus_put now) bus_get ops (snd (mk_event_bus_init b), fm) = (outs, s')"
  shows "fifo_run (list_put 64) list_get ops [] = (outs, event_list (fst s'))
    \<and> taken_in ops outs = given_out outs @ event_list (fst s') \<and> length (event_list (fst s')) \<le> 64"
proof -
  have i: "event_bus_inv (fst (snd (mk_event_bus_init b), fm))" by (simp add: event_bus_inv_init)
  show ?thesis
    using bus.run_refines[OF i, of now ops] bus.run_conservation[OF i assms] bus.run_bounded[OF i, of now ops] assms
    by (simp add: event_list_init)
qed

theorem event_bus_is_fifo_witness:
  "fst (fifo_run (bus_put None) bus_get [Put mk_event_zero, Get, Get] (snd (mk_event_bus_init event_bus_static), fault_manager_static))
     = [Accepted True, Got (Some mk_event_zero), Got None]"
proof -
  obtain outs s' where r: "fifo_run (bus_put None) bus_get [Put mk_event_zero, Get, Get]
      (snd (mk_event_bus_init event_bus_static), fault_manager_static) = (outs, s')" using prod.exhaust_sel by blast
  then show ?thesis using event_bus_is_fifo[OF r] by (simp add: list_put_def list_get_def)
qed

lemma bus_put_accounts:
  assumes "event_bus_inv b" and "eb_initialized b" and "fm_initialized fm" and "event_stats_inv b"
    and "bus_put now e (b, fm) = (ok, b', fm')"
  shows "eb_initialized b' \<and> fm_initialized fm' \<and> event_stats_inv b'
    \<and> total_events_posted (eb_stats b') = total_events_posted (eb_stats b) + (if ok then 1 else 0)
    \<and> queue_overflows (eb_stats b') = queue_overflows (eb_stats b) + (if ok then 0 else 1)
    \<and> fm_total_faults fm' = fm_total_faults fm + (if ok then 0 else 1)"
proof (cases "unat (eb_count b) < 64")
  case True
  then show ?thesis using assms
    by (auto simp: bus_put_def post_room event_stats_inv_def)
next
  case False
  then have f: "64 \<le> unat (eb_count b)" by simp
  show ?thesis using assms f
    by (auto simp: bus_put_def post_full[OF assms(2) f] event_stats_inv_def fm_total_record)
qed

lemma bus_run_accounts:
  assumes "event_bus_inv b" and "eb_initialized b" and "fm_initialized fm" and "event_stats_inv b"
    and "fifo_run (bus_put now) bus_get ops (b, fm) = (outs, b', fm')"
  shows "event_stats_inv b'
    \<and> total_events_posted (eb_stats b') = total_events_posted (eb_stats b) + of_nat (length (taken_in ops outs))
    \<and> queue_overflows (eb_stats b') = queue_overflows (eb_stats b) + of_nat (refused outs)
    \<and> fm_total_faults fm' = fm_total_faults fm + of_nat (refused outs)"
  using assms
proof (induction ops arbitrary: b fm outs)
  case Nil
  then show ?case by simp
next
  case (Cons op ops)
  show ?case
  proof (cases op)
    case (Put e)
    obtain ok b1 fm1 where p: "bus_put now e (b, fm) = (ok, b1, fm1)" by (metis prod_cases3)
    obtain outs1 where o: "fifo_run (bus_put now) bus_get ops (b1, fm1) = (outs1, b', fm')" "outs = Accepted ok # outs1"
      using Cons.prems(5) Put p by (auto split: prod.splits)
    have "event_bus_inv b1" using bus_put_refines(1)[OF Cons.prems(1), of now e fm] p by simp
    then show ?thesis
      using Cons.IH[OF _ _ _ _ o(1)] bus_put_accounts[OF Cons.prems(1-4) p] o(2) Put by (auto simp: algebra_simps)
  next
    case Get
    obtain st v b1 where p: "mk_event_bus_pop True b = (st, v, b1)" by (metis prod_cases3)
    then have g: "bus_get (b, fm) = (v, b1, fm)" by (simp add: bus_get_def)
    obtain outs1 where o: "fifo_run (bus_put now) bus_get ops (b1, fm) = (outs1, b', fm')" "outs = Got v # outs1"
      using Cons.prems(5) Get g by (auto split: prod.splits)
    have i: "event_bus_inv b1" using pop_list(1)[OF Cons.prems(1)] p by simp
    have "eb_initialized b1 \<and> event_stats_inv b1 \<and> total_events_posted (eb_stats b1) = total_events_posted (eb_stats b)
        \<and> queue_overflows (eb_stats b1) = queue_overflows (eb_stats b)"
      using p Cons.prems(2,4) by (auto simp: mk_event_bus_pop_def event_stats_inv_def split: if_splits)
    then show ?thesis using Cons.IH[OF i _ Cons.prems(3) _ o(1)] o(2) Get by simp
  qed
qed

text \<open>C38. The statistics of the bus are exact (modulo their 32 bits): the posts accepted are counted as posted,
  they equal what was dispatched plus what is pending, and every refused post is counted as an
  overflow and recorded as one fault.\<close>

theorem event_bus_accounting:
  assumes "fm_initialized fm"
    and "fifo_run (bus_put now) bus_get ops (snd (mk_event_bus_init b), fm) = (outs, b', fm')"
  shows "total_events_posted (eb_stats b') = of_nat (length (taken_in ops outs))
    \<and> total_events_posted (eb_stats b') = total_events_dispatched (eb_stats b') + mk_event_bus_pending_count b'
    \<and> queue_overflows (eb_stats b') = of_nat (refused outs)
    \<and> fm_total_faults fm' = fm_total_faults fm + of_nat (refused outs)"
proof -
  let ?i = "snd (mk_event_bus_init b)"
  have "eb_initialized ?i" "event_stats_inv ?i" "total_events_posted (eb_stats ?i) = 0" "queue_overflows (eb_stats ?i) = 0"
    by (simp_all add: mk_event_bus_init_def event_stats_inv_def event_bus_stats_zero_def)
  then show ?thesis
    using bus_run_accounts[OF event_bus_inv_init _ assms(1) _ assms(2)]
    by (auto simp: event_stats_inv_def mk_event_bus_pending_count_def)
qed

theorem event_bus_accounting_witness:
  "queue_overflows (eb_stats (fst (snd (fifo_run (bus_put None) bus_get [Put mk_event_zero, Get]
      (snd (mk_event_bus_init event_bus_static), snd (mk_fault_manager_init fault_manager_static)))))) = 0"
proof -
  let ?fm = "snd (mk_fault_manager_init fault_manager_static)"
  have i: "fm_initialized ?fm" by (simp add: mk_fault_manager_init_def)
  obtain outs b' fm' where r: "fifo_run (bus_put None) bus_get [Put mk_event_zero, Get]
      (snd (mk_event_bus_init event_bus_static), ?fm) = (outs, b', fm')" by (metis prod_cases3)
  have "outs = [Accepted True, Got (Some mk_event_zero)]"
    using event_bus_is_fifo[OF r] by (simp add: list_put_def list_get_def)
  then show ?thesis using event_bus_accounting[OF i r] r by simp
qed

end
