(* ===== verification/Hal_Gpio.thy ===== *)
theory Hal_Gpio
  imports Kernel_Types
begin

text \<open>
  \<^verbatim>\<open>os/hal/hal_timer.c\<close> and \<^verbatim>\<open>os/hal/hal_gpio.c\<close>: the time base and the debounced inputs. The clock
  and the pins are hardware: the reading of the microsecond clock, the level of every pin and the
  success of the pin configuration are arguments. In the host build the level is always 1 and the
  configuration always succeeds.
\<close>

section \<open>Time base\<close>

definition hal_timer_init :: mk_status where
  "hal_timer_init = MK_STATUS_OK"

text \<open>The host build joins the seconds and nanoseconds of the monotonic clock.\<close>

definition hal_timer_get_us :: "u64 \<Rightarrow> u64 \<Rightarrow> u64" where
  "hal_timer_get_us tv_sec tv_nsec = tv_sec * 1000000 + tv_nsec div 1000"

definition hal_timer_get_ms :: "u64 \<Rightarrow> u32" where
  "hal_timer_get_ms us = ucast (us div 1000)"

text \<open>The delays change no variable; the value is the call they make. The tick period of FreeRTOS and its conversion
  of milliseconds to ticks are arguments.\<close>

datatype hal_wait = Task_Delay u32 | Ets_Delay_us u32 | Usleep u32

definition hal_timer_delay_ms :: "bool \<Rightarrow> u32 \<Rightarrow> (u32 \<Rightarrow> u32) \<Rightarrow> u32 \<Rightarrow> hal_wait" where
  "hal_timer_delay_ms esp tick_period_ms ms_to_ticks ms =
     (if esp then (if tick_period_ms \<le> ms then Task_Delay (ms_to_ticks ms) else Ets_Delay_us (ms * 1000)) else Usleep (ms * 1000))"

definition hal_timer_delay_us :: "bool \<Rightarrow> u32 \<Rightarrow> hal_wait" where
  "hal_timer_delay_us esp us = (if esp then Ets_Delay_us us else Usleep us)"

text \<open>The host build waits the requested time up to 4,294,967 ms; one more millisecond wraps to 704 microseconds.\<close>

lemma host_delay_exact: "unat ms \<le> 4294967 \<Longrightarrow> \<exists>us. hal_timer_delay_ms False p f ms = Usleep us \<and> unat us = 1000 * unat ms"
  by (simp add: hal_timer_delay_ms_def unat_word_ariths)

lemma host_delay_wraps: "hal_timer_delay_ms False p f 4294968 = Usleep 704"
  by (simp add: hal_timer_delay_ms_def)

section \<open>Pins\<close>

datatype hal_gpio_mode =
  HAL_GPIO_MODE_INPUT | HAL_GPIO_MODE_OUTPUT | HAL_GPIO_MODE_INPUT_PULLUP | HAL_GPIO_MODE_INPUT_PULLDOWN

definition HAL_PIN_BUTTON_UP :: u32 where "HAL_PIN_BUTTON_UP = 12"
definition HAL_PIN_BUTTON_DOWN :: u32 where "HAL_PIN_BUTTON_DOWN = 13"
definition HAL_PIN_BUTTON_LEFT :: u32 where "HAL_PIN_BUTTON_LEFT = 14"
definition HAL_PIN_BUTTON_RIGHT :: u32 where "HAL_PIN_BUTTON_RIGHT = 27"
definition HAL_PIN_BUTTON_A :: u32 where "HAL_PIN_BUTTON_A = 25"
definition HAL_PIN_BUTTON_B :: u32 where "HAL_PIN_BUTTON_B = 26"
definition HAL_PIN_LED_STATUS :: u32 where "HAL_PIN_LED_STATUS = 2"

definition MAX_DEBOUNCE_PINS :: nat where "MAX_DEBOUNCE_PINS = 32"

record debounce_state =
  last_stable_level :: u8
  last_raw_level :: u8
  last_change_time_us :: u64

record gpio =
  gp_debounce_tbl :: "debounce_state list"
  gp_initialized :: bool

definition gpio_static :: gpio where
  "gpio_static = \<lparr>gp_debounce_tbl = replicate MAX_DEBOUNCE_PINS
     \<lparr>last_stable_level = 0, last_raw_level = 0, last_change_time_us = 0\<rparr>, gp_initialized = False\<rparr>"

text \<open>The configuration handed to the driver: the pin mask, whether the pin is an output, and the pull
  resistors. \<open>conf\<close> is the driver's \<open>gpio_config\<close>; it says whether the call succeeds.\<close>

record gpio_conf =
  pin_bit_mask :: u64
  is_output :: bool
  pull_up_en :: bool
  pull_down_en :: bool

definition hal_gpio_config :: "(gpio_conf \<Rightarrow> bool) \<Rightarrow> u32 \<Rightarrow> hal_gpio_mode \<Rightarrow> mk_status" where
  "hal_gpio_config conf pin mode =
     (let io_conf = \<lparr>pin_bit_mask = push_bit (unat pin) 1, is_output = (mode = HAL_GPIO_MODE_OUTPUT),
            pull_up_en = (mode = HAL_GPIO_MODE_INPUT_PULLUP), pull_down_en = (mode = HAL_GPIO_MODE_INPUT_PULLDOWN)\<rparr>
      in if conf io_conf then MK_STATUS_OK else MK_STATUS_ERROR)"

text \<open>\<open>hal_gpio_init\<close> ignores the results of the seven configuration calls.\<close>

definition hal_gpio_init :: "gpio \<Rightarrow> mk_status \<times> gpio" where
  "hal_gpio_init s = (MK_STATUS_OK,
     s\<lparr>gp_debounce_tbl := replicate MAX_DEBOUNCE_PINS
         \<lparr>last_stable_level = 1, last_raw_level = 1, last_change_time_us = 0\<rparr>,
       gp_initialized := True\<rparr>)"

definition hal_gpio_write :: "(u32 \<Rightarrow> bool \<Rightarrow> bool) \<Rightarrow> u32 \<Rightarrow> u8 \<Rightarrow> mk_status" where
  "hal_gpio_write set_level pin level = (if set_level pin (level \<noteq> 0) then MK_STATUS_OK else MK_STATUS_ERROR)"

text \<open>The level of every pin, and the host build's\<close>

definition hal_gpio_read :: "(u32 \<Rightarrow> u8) \<Rightarrow> u32 \<Rightarrow> u8" where
  "hal_gpio_read level pin = level pin"

definition host_level :: "u32 \<Rightarrow> u8" where
  "host_level pin = 1"

text \<open>One reading of a pin\<close>

definition debounce :: "u64 \<Rightarrow> u8 \<Rightarrow> u32 \<Rightarrow> debounce_state \<Rightarrow> debounce_state" where
  "debounce now_us raw debounce_ms st =
     (let st1 = (if raw \<noteq> last_raw_level st then st\<lparr>last_raw_level := raw, last_change_time_us := now_us\<rparr> else st)
      in if ucast debounce_ms * 1000 \<le> now_us - last_change_time_us st1
         then st1\<lparr>last_stable_level := raw\<rparr> else st1)"

definition hal_gpio_read_debounced :: "(u32 \<Rightarrow> u8) \<Rightarrow> u64 \<Rightarrow> u32 \<Rightarrow> u32 \<Rightarrow> gpio \<Rightarrow> u8 \<times> gpio" where
  "hal_gpio_read_debounced level now_us pin debounce_ms s0 =
     (let s = (if gp_initialized s0 then s0 else snd (hal_gpio_init s0))
      in if of_nat MAX_DEBOUNCE_PINS \<le> pin then (hal_gpio_read level pin, s)
         else let st = debounce now_us (hal_gpio_read level pin) debounce_ms (gp_debounce_tbl s ! unat pin)
              in (last_stable_level st, s\<lparr>gp_debounce_tbl := (gp_debounce_tbl s)[unat pin := st]\<rparr>))"

section \<open>Debouncing\<close>

text \<open>A sequence of readings of one pin: the time and the raw level of each\<close>

fun debounce_run :: "u32 \<Rightarrow> (u64 \<times> u8) list \<Rightarrow> debounce_state \<Rightarrow> debounce_state" where
  "debounce_run ms [] st = st"
| "debounce_run ms ((t, raw) # rs) st = debounce_run ms rs (debounce t raw ms st)"

definition settled :: "u8 \<Rightarrow> debounce_state \<Rightarrow> bool" where
  "settled l st \<longleftrightarrow> last_stable_level st = l \<and> last_raw_level st = l"

lemma debounce_run_append: "debounce_run ms (xs @ ys) st = debounce_run ms ys (debounce_run ms xs st)"
  by (induction xs arbitrary: st) auto

lemma debounce_run_snoc [simp]:
  "debounce_run ms (rs @ [(t, raw)]) st = debounce t raw ms (debounce_run ms rs st)"
  by (simp add: debounce_run_append)

text \<open>While the raw level differs from the stable one, the change time is that of the first reading of the
  current level.\<close>

lemma debounce_pending:
  assumes "settled l st"
  shows "last_raw_level (debounce_run ms rs st) \<noteq> last_stable_level (debounce_run ms rs st) \<longrightarrow>
    (\<exists>pre t suf. rs = pre @ (t, last_raw_level (debounce_run ms rs st)) # suf
       \<and> (\<forall>x \<in> set suf. snd x = last_raw_level (debounce_run ms rs st))
       \<and> last_change_time_us (debounce_run ms rs st) = t)"
proof (induction rs rule: rev_induct)
  case Nil
  then show ?case using assms by (simp add: settled_def)
next
  case (snoc x rs)
  obtain t raw where x: "x = (t, raw)" by (cases x)
  let ?s = "debounce_run ms rs st"
  show ?case
  proof (cases "raw = last_raw_level ?s")
    case False
    show ?thesis unfolding x debounce_run_snoc
    proof (intro impI exI conjI)
      show "rs @ [(t, raw)] = rs @ (t, last_raw_level (debounce t raw ms ?s)) # []"
        using False by (simp add: debounce_def Let_def)
    qed (use False in \<open>auto simp: debounce_def Let_def\<close>)
  next
    case True
    show ?thesis unfolding x debounce_run_snoc
    proof (intro impI)
      assume ne: "last_raw_level (debounce t raw ms ?s) \<noteq> last_stable_level (debounce t raw ms ?s)"
      then have d: "debounce t raw ms ?s = ?s" using True by (auto simp: debounce_def Let_def split: if_splits)
      then obtain pre t0 suf where "rs = pre @ (t0, last_raw_level ?s) # suf" "\<forall>x \<in> set suf. snd x = last_raw_level ?s"
        "last_change_time_us ?s = t0" using snoc.IH ne by auto
      then show "\<exists>pre t' suf. rs @ [(t, raw)] = pre @ (t', last_raw_level (debounce t raw ms ?s)) # suf
          \<and> (\<forall>x \<in> set suf. snd x = last_raw_level (debounce t raw ms ?s))
          \<and> last_change_time_us (debounce t raw ms ?s) = t'"
        unfolding d using True by (intro exI[of _ pre] exI[of _ t0] exI[of _ "suf @ [(t, raw)]"]) auto
    qed
  qed
qed

lemma debounce_raw: "last_raw_level (debounce t raw ms st) = raw"
  by (simp add: debounce_def Let_def)

lemma debounce_change_le:
  "last_change_time_us st \<le> t \<Longrightarrow> last_change_time_us (debounce t raw ms st) \<le> t"
  by (simp add: debounce_def Let_def)

text \<open>Readings of one level keep the change time.\<close>

lemma debounce_run_const:
  assumes "\<forall>x \<in> set rs. snd x = v" and "last_raw_level st = v"
  shows "last_raw_level (debounce_run ms rs st) = v \<and> last_change_time_us (debounce_run ms rs st) = last_change_time_us st"
  using assms
proof (induction rs arbitrary: st)
  case (Cons x rs)
  obtain t raw where x: "x = (t, raw)" by (cases x)
  have "last_raw_level (debounce t raw ms st) = v" "last_change_time_us (debounce t raw ms st) = last_change_time_us st"
    using Cons.prems x by (simp_all add: debounce_def Let_def)
  then show ?case using Cons.IH[of "debounce t raw ms st"] Cons.prems x by simp
qed simp

lemma debounce_run_time:
  "sorted (map fst rs) \<Longrightarrow> (\<forall>x \<in> set rs. last_change_time_us st \<le> fst x) \<Longrightarrow> rs \<noteq> [] \<Longrightarrow>
   last_change_time_us (debounce_run ms rs st) \<le> fst (last rs)"
proof (induction rs rule: rev_induct)
  case (snoc x rs)
  obtain t raw where x: "x = (t, raw)" by (cases x)
  have "last_change_time_us (debounce_run ms rs st) \<le> t"
  proof (cases "rs = []")
    case False
    then have "last_change_time_us (debounce_run ms rs st) \<le> fst (last rs)"
      using snoc by (simp add: sorted_append)
    moreover have "fst (last rs) \<le> t" using snoc.prems(1) False x by (simp add: sorted_append)
    ultimately show ?thesis by (rule order.trans)
  qed (use snoc.prems x in simp)
  then show ?case using x debounce_change_le by simp
qed simp

text \<open>C35. The debounced level changes only when every reading since at least \<open>ms\<close> milliseconds had
  the new level; and after readings of one level that span \<open>ms\<close> milliseconds, it is that level.\<close>

theorem debounce_exact:
  assumes "settled l st"
  shows "(last_stable_level (debounce_run ms (rs @ [(t, raw)]) st) \<noteq> last_stable_level (debounce_run ms rs st) \<longrightarrow>
      (\<exists>pre t0 suf. rs @ [(t, raw)] = pre @ (t0, raw) # suf \<and> (\<forall>x \<in> set suf. snd x = raw)
         \<and> ucast ms * 1000 \<le> t - t0 \<and> last_stable_level (debounce_run ms (rs @ [(t, raw)]) st) = raw))
    \<and> (\<forall>pre t0 mid. rs = pre @ (t0, raw) # mid \<longrightarrow> (\<forall>x \<in> set mid. snd x = raw) \<longrightarrow> sorted (map fst (rs @ [(t, raw)])) \<longrightarrow>
         (\<forall>x \<in> set rs. last_change_time_us st \<le> fst x) \<longrightarrow> ucast ms * 1000 \<le> t - t0 \<longrightarrow>
         last_stable_level (debounce_run ms (rs @ [(t, raw)]) st) = raw)"
proof (intro conjI impI allI)
  let ?s = "debounce_run ms rs st"
  assume ch: "last_stable_level (debounce_run ms (rs @ [(t, raw)]) st) \<noteq> last_stable_level ?s"
  then have out: "last_stable_level (debounce t raw ms ?s) = raw"
    by (auto simp: debounce_def Let_def split: if_splits)
  show "\<exists>pre t0 suf. rs @ [(t, raw)] = pre @ (t0, raw) # suf \<and> (\<forall>x \<in> set suf. snd x = raw)
         \<and> ucast ms * 1000 \<le> t - t0 \<and> last_stable_level (debounce_run ms (rs @ [(t, raw)]) st) = raw"
  proof (cases "raw = last_raw_level ?s")
    case False
    then have "ucast ms * 1000 \<le> t - t" using ch by (auto simp: debounce_def Let_def split: if_splits)
    then show ?thesis using out by (intro exI[of _ rs] exI[of _ t] exI[of _ "[]"]) simp
  next
    case True
    then have "last_raw_level ?s \<noteq> last_stable_level ?s" using ch out by simp
    then obtain pre t0 suf where e: "rs = pre @ (t0, raw) # suf" "\<forall>x \<in> set suf. snd x = raw" "last_change_time_us ?s = t0"
      using debounce_pending[OF assms, of ms rs] True by auto
    have "ucast ms * 1000 \<le> t - t0" using ch True e(3) by (auto simp: debounce_def Let_def split: if_splits)
    moreover have "rs @ [(t, raw)] = pre @ (t0, raw) # (suf @ [(t, raw)])" using e(1) by simp
    moreover have "\<forall>x \<in> set (suf @ [(t, raw)]). snd x = raw" using e(2) by simp
    moreover have "last_stable_level (debounce_run ms (rs @ [(t, raw)]) st) = raw" using out by simp
    ultimately show ?thesis by blast
  qed
next
  fix pre t0 mid
  assume rs: "rs = pre @ (t0, raw) # mid" and mid: "\<forall>x \<in> set mid. snd x = raw" and so: "sorted (map fst (rs @ [(t, raw)]))"
    and c0: "\<forall>x \<in> set rs. last_change_time_us st \<le> fst x" and long: "ucast ms * 1000 \<le> t - t0"
  let ?p = "debounce_run ms (pre @ [(t0, raw)]) st"
  have p: "last_raw_level ?p = raw" by (simp add: debounce_raw)
  have "last_change_time_us ?p \<le> fst (last (pre @ [(t0, raw)]))"
    using so c0 unfolding rs by (intro debounce_run_time) (auto simp: sorted_append)
  then have le: "last_change_time_us ?p \<le> t0" by simp
  have s: "debounce_run ms rs st = debounce_run ms mid ?p"
    unfolding rs using debounce_run_append[of ms "pre @ [(t0, raw)]" mid st] by simp
  have q: "last_raw_level (debounce_run ms rs st) = raw" "last_change_time_us (debounce_run ms rs st) \<le> t0"
    using debounce_run_const[OF mid p, of ms] le unfolding s by simp_all
  have t: "t0 \<le> t" using so unfolding rs by (simp add: sorted_append)
  have "t - t0 \<le> t - last_change_time_us (debounce_run ms rs st)"
    using q(2) t by (simp add: word_le_nat_alt unat_sub_if_size)
  then have "ucast ms * 1000 \<le> t - last_change_time_us (debounce_run ms rs st)" using long by (rule order.trans[rotated])
  then show "last_stable_level (debounce_run ms (rs @ [(t, raw)]) st) = raw"
    using q(1) by (simp add: debounce_def Let_def)
qed

text \<open>A bounce of 3 ms does not show, a press of 20 ms does.\<close>

theorem debounce_exact_witness:
  "last_stable_level (debounce_run 15 ([(1000, 0), (4000, 1), (30000, 0), (40000, 0)] @ [(50000, 0)])
     \<lparr>last_stable_level = 1, last_raw_level = 1, last_change_time_us = 0\<rparr>) = 0"
  using debounce_exact[of 1 "\<lparr>last_stable_level = 1, last_raw_level = 1, last_change_time_us = 0\<rparr>" 15
      "[(1000, 0), (4000, 1), (30000, 0), (40000, 0)]" 50000 0, THEN conjunct2, THEN spec, THEN spec, THEN spec,
      of "[(1000, 0), (4000, 1)]" 30000 "[(40000, 0)]"]
  by (simp add: settled_def)

end
