(* ===== verification/Hal_Wifi.thy ===== *)
theory Hal_Wifi
  imports Hal_Gpio Bounded_Fifo
begin

text \<open>
  \<^verbatim>\<open>os/hal/hal_wifi.c\<close>: the ring of the metadata of received frames. The Wi-Fi driver is external; its
  calls change nothing this module keeps, and their success is an argument. The flag \<open>esp\<close> says which
  build runs, \<open>ESP_PLATFORM\<close> or the host simulation; \<open>ms\<close> is the reading of the millisecond clock.
\<close>

section \<open>State\<close>

definition HAL_WIFI_QUEUE_CAPACITY :: u32 where "HAL_WIFI_QUEUE_CAPACITY = 64"

definition WIFI_FRAME_TYPE_MGMT :: u8 where "WIFI_FRAME_TYPE_MGMT = 0"
definition WIFI_FRAME_TYPE_CTRL :: u8 where "WIFI_FRAME_TYPE_CTRL = 1"
definition WIFI_FRAME_TYPE_DATA :: u8 where "WIFI_FRAME_TYPE_DATA = 2"
definition WIFI_FRAME_TYPE_UNKNOWN :: u8 where "WIFI_FRAME_TYPE_UNKNOWN = 3"

text \<open>\<open>rssi\<close> is an \<open>int8_t\<close>; its value is read with \<open>sint\<close>.\<close>

record hal_wifi_frame_meta =
  wm_timestamp_ms :: u32
  wm_rssi :: u8
  wm_channel :: u8
  wm_length :: u16
  wm_frame_type :: u8
  wm_frame_subtype :: u8

definition frame_meta_zero :: hal_wifi_frame_meta where
  "frame_meta_zero = \<lparr>wm_timestamp_ms = 0, wm_rssi = 0, wm_channel = 0, wm_length = 0,
     wm_frame_type = 0, wm_frame_subtype = 0\<rparr>"

record wifi =
  wf_queue :: "hal_wifi_frame_meta list"
  wf_head :: u32
  wf_tail :: u32
  wf_count :: u32
  wf_dropped :: u32
  wf_captured :: u32
  wf_current_channel :: u8
  wf_promiscuous_active :: bool
  wf_sim_tick :: u32

definition wifi_static :: wifi where
  "wifi_static = \<lparr>wf_queue = replicate (unat HAL_WIFI_QUEUE_CAPACITY) frame_meta_zero, wf_head = 0, wf_tail = 0,
     wf_count = 0, wf_dropped = 0, wf_captured = 0, wf_current_channel = 1, wf_promiscuous_active = False,
     wf_sim_tick = 0\<rparr>"

section \<open>Operations\<close>

text \<open>The frame control field: type and subtype\<close>

definition frame_control :: "u8 list \<Rightarrow> u16" where
  "frame_control payload = ucast (payload ! 0) OR push_bit 8 (ucast (payload ! 1))"

definition fc_type :: "u16 \<Rightarrow> u8" where "fc_type fc = ucast (drop_bit 2 fc AND 0x03)"
definition fc_subtype :: "u16 \<Rightarrow> u8" where "fc_subtype fc = ucast (drop_bit 4 fc AND 0x0F)"

definition wifi_enqueue :: "hal_wifi_frame_meta \<Rightarrow> wifi \<Rightarrow> wifi" where
  "wifi_enqueue meta s =
     (if HAL_WIFI_QUEUE_CAPACITY \<le> wf_count s then s\<lparr>wf_dropped := wf_dropped s + 1\<rparr>
      else s\<lparr>wf_queue := (wf_queue s)[unat (wf_head s) := meta],
             wf_head := (wf_head s + 1) mod HAL_WIFI_QUEUE_CAPACITY,
             wf_count := wf_count s + 1, wf_captured := wf_captured s + 1\<rparr>)"

text \<open>What the driver hands to the callback; the payload has at least \<open>sig_len\<close> bytes.\<close>

record wifi_pkt =
  pk_rssi :: u8
  pk_channel :: u8
  pk_sig_len :: nat
  pk_payload :: "u8 list"

definition wifi_promiscuous_rx_cb :: "u32 \<Rightarrow> wifi_pkt option \<Rightarrow> wifi \<Rightarrow> wifi" where
  "wifi_promiscuous_rx_cb ms buf s =
     (case buf of
        None \<Rightarrow> s
      | Some pkt \<Rightarrow>
          if pk_sig_len pkt < 24 then s
          else let fc = frame_control (pk_payload pkt)
               in wifi_enqueue \<lparr>wm_timestamp_ms = ms, wm_rssi = pk_rssi pkt, wm_channel = pk_channel pkt,
                    wm_length = of_nat (pk_sig_len pkt), wm_frame_type = fc_type fc, wm_frame_subtype = fc_subtype fc\<rparr> s)"

definition hal_wifi_init :: "bool \<Rightarrow> wifi \<Rightarrow> mk_status \<times> wifi" where
  "hal_wifi_init driver_ok s =
     (let s1 = s\<lparr>wf_head := 0, wf_tail := 0, wf_count := 0, wf_dropped := 0, wf_captured := 0,
                wf_current_channel := 1, wf_promiscuous_active := False\<rparr>
      in (if driver_ok then MK_STATUS_OK else MK_STATUS_ERROR, s1))"

definition hal_wifi_start_promiscuous :: "bool \<Rightarrow> u8 \<Rightarrow> wifi \<Rightarrow> mk_status \<times> wifi" where
  "hal_wifi_start_promiscuous driver_ok initial_channel s =
     (let s1 = s\<lparr>wf_current_channel := (if 1 \<le> initial_channel \<and> initial_channel \<le> 14 then initial_channel else 1)\<rparr>
      in if driver_ok then (MK_STATUS_OK, s1\<lparr>wf_promiscuous_active := True\<rparr>) else (MK_STATUS_ERROR, s1))"

definition hal_wifi_stop_promiscuous :: "wifi \<Rightarrow> mk_status \<times> wifi" where
  "hal_wifi_stop_promiscuous s = (MK_STATUS_OK, s\<lparr>wf_promiscuous_active := False\<rparr>)"

definition hal_wifi_set_channel :: "u8 \<Rightarrow> wifi \<Rightarrow> mk_status \<times> wifi" where
  "hal_wifi_set_channel channel s =
     (if channel < 1 \<or> 14 < channel then (MK_STATUS_INVALID_ARG, s)
      else (MK_STATUS_OK, s\<lparr>wf_current_channel := channel\<rparr>))"

definition hal_wifi_get_channel :: "wifi \<Rightarrow> u8" where
  "hal_wifi_get_channel s = wf_current_channel s"

text \<open>\<open>None\<close> is the result false. The host build answers every fifth pop of an empty queue with a
  simulated beacon.\<close>

definition hal_wifi_queue_pop :: "bool \<Rightarrow> u32 \<Rightarrow> bool \<Rightarrow> wifi \<Rightarrow> hal_wifi_frame_meta option \<times> wifi" where
  "hal_wifi_queue_pop esp ms out_ok s =
     (if \<not> out_ok then (None, s)
      else if wf_count s = 0
      then (if esp then (None, s)
            else let tick = wf_sim_tick s + 1; s1 = s\<lparr>wf_sim_tick := tick\<rparr>
                 in if tick mod 5 = 0
                    then (Some \<lparr>wm_timestamp_ms = ms, wm_rssi = - 65, wm_channel = wf_current_channel s, wm_length = 128,
                            wm_frame_type = WIFI_FRAME_TYPE_MGMT, wm_frame_subtype = 8\<rparr>,
                          s1\<lparr>wf_captured := wf_captured s + 1\<rparr>)
                    else (None, s1))
      else (Some (wf_queue s ! unat (wf_tail s)),
            s\<lparr>wf_tail := (wf_tail s + 1) mod HAL_WIFI_QUEUE_CAPACITY, wf_count := wf_count s - 1\<rparr>))"

definition hal_wifi_get_dropped_count :: "wifi \<Rightarrow> u32" where
  "hal_wifi_get_dropped_count s = wf_dropped s"

definition hal_wifi_get_captured_count :: "wifi \<Rightarrow> u32" where
  "hal_wifi_get_captured_count s = wf_captured s"

definition hal_wifi_inject_frame_for_test :: "u32 \<Rightarrow> u8 list option \<Rightarrow> u16 \<Rightarrow> u8 \<Rightarrow> wifi \<Rightarrow> wifi" where
  "hal_wifi_inject_frame_for_test ms payload len rssi s =
     (case payload of
        None \<Rightarrow> s
      | Some bs \<Rightarrow>
          if len < 2 then s
          else let fc = frame_control bs
               in wifi_enqueue \<lparr>wm_timestamp_ms = ms, wm_rssi = rssi, wm_channel = wf_current_channel s,
                    wm_length = len, wm_frame_type = fc_type fc, wm_frame_subtype = fc_subtype fc\<rparr> s)"

section \<open>The ring is a bounded queue that drops the newest frame\<close>

definition wifi_inv :: "wifi \<Rightarrow> bool" where
  "wifi_inv s \<longleftrightarrow> length (wf_queue s) = 64 \<and> unat (wf_head s) < 64 \<and> unat (wf_tail s) < 64 \<and> unat (wf_count s) \<le> 64
     \<and> unat (wf_head s) = (unat (wf_tail s) + unat (wf_count s)) mod 64"

definition wifi_frames :: "wifi \<Rightarrow> hal_wifi_frame_meta list" where
  "wifi_frames s = ring_list (wf_queue s) (unat (wf_tail s)) (unat (wf_count s))"

definition wifi_put :: "hal_wifi_frame_meta \<Rightarrow> wifi \<Rightarrow> bool \<times> wifi" where
  "wifi_put meta s = (wf_count s < HAL_WIFI_QUEUE_CAPACITY, wifi_enqueue meta s)"

lemma wifi_inv_init: "wifi_inv s \<Longrightarrow> wifi_inv (snd (hal_wifi_init ok s)) \<and> wifi_frames (snd (hal_wifi_init ok s)) = []"
  by (simp add: hal_wifi_init_def Let_def wifi_inv_def wifi_frames_def)

lemma wifi_inv_static: "wifi_inv wifi_static"
  by (simp add: wifi_static_def wifi_inv_def HAL_WIFI_QUEUE_CAPACITY_def)

lemma enqueue_room:
  assumes "wifi_inv s" and "unat (wf_count s) < 64"
  shows "wifi_inv (wifi_enqueue meta s) \<and> wifi_frames (wifi_enqueue meta s) = wifi_frames s @ [meta]
    \<and> wf_captured (wifi_enqueue meta s) = wf_captured s + 1 \<and> wf_dropped (wifi_enqueue meta s) = wf_dropped s"
proof -
  have e: "wifi_enqueue meta s = s\<lparr>wf_queue := (wf_queue s)[unat (wf_head s) := meta],
      wf_head := (wf_head s + 1) mod 64, wf_count := wf_count s + 1, wf_captured := wf_captured s + 1\<rparr>"
    using assms(2) by (simp add: wifi_enqueue_def HAL_WIFI_QUEUE_CAPACITY_def word_le_nat_alt)
  show ?thesis
    using assms ring_list_push[of "unat (wf_count s)" "wf_queue s" "unat (wf_tail s)" meta]
    by (auto simp: e wifi_inv_def wifi_frames_def unat_next_64 unat_count_up mod_Suc_eq)
qed

lemma enqueue_full:
  assumes "wifi_inv s" and "64 \<le> unat (wf_count s)"
  shows "wifi_inv (wifi_enqueue meta s) \<and> wifi_frames (wifi_enqueue meta s) = wifi_frames s
    \<and> wf_captured (wifi_enqueue meta s) = wf_captured s \<and> wf_dropped (wifi_enqueue meta s) = wf_dropped s + 1"
  using assms by (simp add: wifi_enqueue_def HAL_WIFI_QUEUE_CAPACITY_def word_le_nat_alt wifi_inv_def wifi_frames_def)

lemma wifi_put_refines:
  assumes "wifi_inv s"
  shows "wifi_inv (snd (wifi_put meta s))"
    and "(fst (wifi_put meta s), wifi_frames (snd (wifi_put meta s))) = list_put 64 meta (wifi_frames s)"
proof -
  have l: "length (wifi_frames s) = unat (wf_count s)" by (simp add: wifi_frames_def)
  show "wifi_inv (snd (wifi_put meta s))"
    "(fst (wifi_put meta s), wifi_frames (snd (wifi_put meta s))) = list_put 64 meta (wifi_frames s)"
    using enqueue_room[OF assms, of meta] enqueue_full[OF assms, of meta]
    by (cases "unat (wf_count s) < 64";
        simp add: wifi_put_def list_put_def l HAL_WIFI_QUEUE_CAPACITY_def word_less_nat_alt)+
qed

lemma wifi_pop_refines:
  assumes "wifi_inv s"
  shows "wifi_inv (snd (hal_wifi_queue_pop True ms True s))"
    and "(fst (hal_wifi_queue_pop True ms True s), wifi_frames (snd (hal_wifi_queue_pop True ms True s))) = list_get (wifi_frames s)"
proof -
  let ?t = "unat (wf_tail s)" and ?c = "unat (wf_count s)"
  have t: "?t < 64" and len: "length (wf_queue s) = 64" using assms by (simp_all add: wifi_inv_def)
  have c1: "unat (wf_count s - 1) = ?c - 1" if "wf_count s \<noteq> 0" using that by (rule unat_pred_pos)
  have pos: "0 < ?c" if "wf_count s \<noteq> 0" using that by (simp add: unat_gt_0)
  show "wifi_inv (snd (hal_wifi_queue_pop True ms True s))"
    using assms c1 pos ring_pop_head[of ?c ?t 64] unat_next_64[OF t]
    by (auto simp: hal_wifi_queue_pop_def wifi_inv_def HAL_WIFI_QUEUE_CAPACITY_def)
  show "(fst (hal_wifi_queue_pop True ms True s), wifi_frames (snd (hal_wifi_queue_pop True ms True s))) = list_get (wifi_frames s)"
    using ring_list_pop[of ?c "wf_queue s" ?t] pos t len c1 unat_next_64[OF t]
    by (cases "wf_count s = 0")
       (simp_all add: hal_wifi_queue_pop_def wifi_frames_def list_get_def HAL_WIFI_QUEUE_CAPACITY_def)
qed

interpretation wifi_ring: bounded_fifo 64 wifi_inv wifi_frames wifi_put "hal_wifi_queue_pop True ms True" for ms
proof unfold_locales
  fix s :: wifi and x :: hal_wifi_frame_meta
  assume inv: "wifi_inv s"
  show "length (wifi_frames s) \<le> 64" using inv by (simp add: wifi_frames_def wifi_inv_def)
  show "wifi_inv (snd (wifi_put x s))" "(fst (wifi_put x s), wifi_frames (snd (wifi_put x s))) = list_put 64 x (wifi_frames s)"
    using wifi_put_refines[OF inv] by blast+
  show "wifi_inv (snd (hal_wifi_queue_pop True ms True s))"
    "(fst (hal_wifi_queue_pop True ms True s), wifi_frames (snd (hal_wifi_queue_pop True ms True s))) = list_get (wifi_frames s)"
    using wifi_pop_refines[OF inv] by blast+
qed

lemma wifi_run_counts:
  "wifi_inv s \<Longrightarrow> fifo_run wifi_put (hal_wifi_queue_pop True ms True) ops s = (outs, s') \<Longrightarrow>
   wf_captured s' = wf_captured s + of_nat (length (taken_in ops outs)) \<and> wf_dropped s' = wf_dropped s + of_nat (refused outs)"
proof (induction ops arbitrary: s outs)
  case Nil
  then show ?case by simp
next
  case (Cons op ops)
  show ?case
  proof (cases op)
    case (Put x)
    obtain outs1 where r: "fifo_run wifi_put (hal_wifi_queue_pop True ms True) ops (wifi_enqueue x s) = (outs1, s')"
      and o: "outs = Accepted (wf_count s < 64) # outs1"
      using Cons.prems(2) Put wifi_put_def[of x s] by (auto simp: Let_def HAL_WIFI_QUEUE_CAPACITY_def split: prod.splits)
    have "wifi_inv (wifi_enqueue x s)" using wifi_put_refines(1)[OF Cons.prems(1), of x] by (simp add: wifi_put_def)
    note ih = Cons.IH[OF this r]
    show ?thesis
    proof (cases "wf_count s < 64")
      case True
      then show ?thesis using ih o Put enqueue_room[OF Cons.prems(1), of x] by (simp add: word_less_nat_alt)
    next
      case False
      then show ?thesis using ih o Put enqueue_full[OF Cons.prems(1), of x] by (simp add: word_less_nat_alt)
    qed
  next
    case Get
    let ?g = "hal_wifi_queue_pop True ms True s"
    obtain outs1 where r: "fifo_run wifi_put (hal_wifi_queue_pop True ms True) ops (snd ?g) = (outs1, s')"
      and o: "outs = Got (fst ?g) # outs1"
      using Cons.prems(2) Get by (auto simp: Let_def split: prod.splits)
    have "wf_captured (snd ?g) = wf_captured s" "wf_dropped (snd ?g) = wf_dropped s"
      by (simp_all add: hal_wifi_queue_pop_def)
    then show ?thesis using Cons.IH[OF wifi_pop_refines(1)[OF Cons.prems(1)] r] o Get by simp
  qed
qed



end
