(* ===== verification/Hal.thy ===== *)
theory Hal
  imports Hal_Wifi Fault_Manager
begin

text \<open>
  \<^verbatim>\<open>os/hal/hal_ble.c\<close> and \<^verbatim>\<open>os/hal/hal.c\<close>: the BLE keyboard and the initialisation of the hardware
  layer. The flag \<open>esp\<close> says which build runs; the success of the driver calls is an argument.
\<close>

section \<open>BLE keyboard\<close>

definition HAL_BLE_MOD_NONE :: u8 where "HAL_BLE_MOD_NONE = 0x00"
definition HAL_BLE_MOD_LSHIFT :: u8 where "HAL_BLE_MOD_LSHIFT = 0x02"
definition HAL_BLE_KEY_NONE :: u8 where "HAL_BLE_KEY_NONE = 0x00"
definition HAL_BLE_KEY_A :: u8 where "HAL_BLE_KEY_A = 0x04"
definition HAL_BLE_KEY_ENTER :: u8 where "HAL_BLE_KEY_ENTER = 0x28"
definition HAL_BLE_KEY_SPACE :: u8 where "HAL_BLE_KEY_SPACE = 0x2C"

record hal_ble_hid_report =
  br_modifiers :: u8
  br_reserved :: u8
  br_keycodes :: "u8 list"

text \<open>\<open>bl_reports\<close> is no variable of the code: it records the reports that \<open>hal_ble_send_report\<close> accepts,
  in order, which is where the code hands them to the radio.\<close>

record ble =
  bl_initialized :: bool
  bl_connected :: bool
  bl_advertising :: bool
  bl_reports :: "hal_ble_hid_report list"

definition ble_static :: ble where
  "ble_static = \<lparr>bl_initialized = False, bl_connected = False, bl_advertising = False, bl_reports = []\<rparr>"

definition hal_ble_init :: "bool \<Rightarrow> ble \<Rightarrow> mk_status \<times> ble" where
  "hal_ble_init driver_ok s =
     (if driver_ok then MK_STATUS_OK else MK_STATUS_ERROR,
      s\<lparr>bl_initialized := True, bl_connected := False, bl_advertising := False\<rparr>)"

definition hal_ble_start_advertising :: "ble \<Rightarrow> mk_status \<times> ble" where
  "hal_ble_start_advertising s =
     (if \<not> bl_initialized s then (MK_STATUS_INVALID_STATE, s) else (MK_STATUS_OK, s\<lparr>bl_advertising := True\<rparr>))"

definition hal_ble_stop_advertising :: "ble \<Rightarrow> mk_status \<times> ble" where
  "hal_ble_stop_advertising s = (MK_STATUS_OK, s\<lparr>bl_advertising := False\<rparr>)"

definition hal_ble_is_connected :: "bool \<Rightarrow> ble \<Rightarrow> bool" where
  "hal_ble_is_connected esp s = (if esp then bl_connected s else bl_advertising s)"

definition hal_ble_send_report :: "bool \<Rightarrow> hal_ble_hid_report option \<Rightarrow> ble \<Rightarrow> mk_status \<times> ble" where
  "hal_ble_send_report esp report s =
     (case report of
        None \<Rightarrow> (MK_STATUS_INVALID_ARG, s)
      | Some r \<Rightarrow> if \<not> hal_ble_is_connected esp s then (MK_STATUS_BUSY, s)
                  else (MK_STATUS_OK, s\<lparr>bl_reports := bl_reports s @ [r]\<rparr>))"

definition key_report :: "u8 \<Rightarrow> u8 \<Rightarrow> hal_ble_hid_report" where
  "key_report modifier keycode = \<lparr>br_modifiers = modifier, br_reserved = 0, br_keycodes = [keycode, 0, 0, 0, 0, 0]\<rparr>"

definition hal_ble_send_key :: "bool \<Rightarrow> u8 \<Rightarrow> u8 \<Rightarrow> ble \<Rightarrow> mk_status \<times> ble" where
  "hal_ble_send_key esp modifier keycode s = hal_ble_send_report esp (Some (key_report modifier keycode)) s"

definition hal_ble_send_release :: "bool \<Rightarrow> ble \<Rightarrow> mk_status \<times> ble" where
  "hal_ble_send_release esp s = hal_ble_send_report esp (Some (key_report 0 0)) s"

section \<open>The hardware layer\<close>

record hal =
  h_gpio :: gpio
  h_wifi :: wifi
  h_ble :: ble

definition hal_static :: hal where
  "hal_static = \<lparr>h_gpio = gpio_static, h_wifi = wifi_static, h_ble = ble_static\<rparr>"

text \<open>The four fault calls pass no context, the last parameter of \<open>mk_fault_record_full\<close>; the model passes 0.\<close>

definition hal_init :: "bool \<Rightarrow> bool \<Rightarrow> u32 option \<Rightarrow> hal \<times> fault_manager \<Rightarrow> mk_status \<times> hal \<times> fault_manager" where
  "hal_init wifi_ok ble_ok now s0 =
     (case s0 of (s, fm) \<Rightarrow>
      let status = hal_timer_init
      in if status \<noteq> MK_STATUS_OK
         then (status, s, mk_fault_record_full now MK_FAULT_HAL_FAIL MK_FAULT_SRC_HAL MK_FAULT_SEV_CRITICAL 0x01 0 fm)
         else let (gst, g) = hal_gpio_init (h_gpio s); s1 = s\<lparr>h_gpio := g\<rparr>
         in if gst \<noteq> MK_STATUS_OK
         then (gst, s1, mk_fault_record_full now MK_FAULT_HAL_FAIL MK_FAULT_SRC_HAL MK_FAULT_SEV_CRITICAL 0x02 0 fm)
         else let (wst, w) = hal_wifi_init wifi_ok (h_wifi s1); s2 = s1\<lparr>h_wifi := w\<rparr>;
                  fm1 = (if wst \<noteq> MK_STATUS_OK
                         then mk_fault_record_full now MK_FAULT_HAL_FAIL MK_FAULT_SRC_HAL MK_FAULT_SEV_WARNING 0x04 0 fm else fm);
                  (bst, b) = hal_ble_init ble_ok (h_ble s2); s3 = s2\<lparr>h_ble := b\<rparr>;
                  fm2 = (if bst \<noteq> MK_STATUS_OK
                         then mk_fault_record_full now MK_FAULT_HAL_FAIL MK_FAULT_SRC_HAL MK_FAULT_SEV_WARNING 0x05 0 fm1 else fm1)
              in (MK_STATUS_OK, s3, fm2))"

text \<open>Nothing in the target build ever sets \<open>s_ble_connected\<close>: no report is accepted there.\<close>

lemma target_never_connected:
  "\<not> bl_connected s \<Longrightarrow> \<not> bl_connected (snd (hal_ble_init ok s)) \<and> \<not> bl_connected (snd (hal_ble_start_advertising s))
     \<and> \<not> bl_connected (snd (hal_ble_stop_advertising s))
     \<and> hal_ble_send_report True (Some r) s = (MK_STATUS_BUSY, s)"
  by (simp add: hal_ble_init_def hal_ble_start_advertising_def hal_ble_stop_advertising_def hal_ble_send_report_def
      hal_ble_is_connected_def)

end
