(* ===== verification/C_Format.thy ===== *)
theory C_Format
  imports C_String
begin

text \<open>
  Formatted output and input: the conversions of \<^verbatim>\<open>printf\<close> and \<^verbatim>\<open>sscanf\<close> the code uses, and the character
  classes of \<^verbatim>\<open>ctype.h\<close> in the C locale.
\<close>

section \<open>Output\<close>

text \<open>\<open>%d\<close>\<close>

definition show_int :: "int \<Rightarrow> string" where
  "show_int i = (if i < 0 then CHR ''-'' # show_dec (nat (- i)) else show_dec (nat i))"

definition LF :: string where "LF = [CHR 0x0A]"
definition CRLF :: string where "CRLF = [CHR 0x0D, CHR 0x0A]"

text \<open>The string that \<open>snprintf(buf, n, ...)\<close> leaves in \<open>buf\<close> when the formatted text is \<open>s\<close>\<close>

definition formatted :: "nat \<Rightarrow> string \<Rightarrow> string" where
  "formatted n s = take (n - 1) (cstr s)"

text \<open>\<open>%nu\<close> and \<open>%-ns\<close>: at least \<open>n\<close> characters\<close>

definition pad_left :: "nat \<Rightarrow> string \<Rightarrow> string" where
  "pad_left n s = replicate (n - length s) (CHR '' '') @ s"

definition pad_right :: "nat \<Rightarrow> string \<Rightarrow> string" where
  "pad_right n s = s @ replicate (n - length s) (CHR '' '')"

lemma length_formatted: "length (formatted n s) \<le> n - 1"
  by (simp add: formatted_def)

lemma length_show_dec: "n < 10 ^ Suc k \<Longrightarrow> length (show_dec n) \<le> Suc k"
proof (induction k arbitrary: n)
  case 0
  then show ?case by (simp add: show_dec.simps[of n])
next
  case (Suc k)
  have "length (show_dec (n div 10)) \<le> Suc k"
    using Suc.prems by (intro Suc.IH less_mult_imp_div_less) simp
  then show ?case by (subst show_dec.simps) simp
qed

lemma length_show_u32: "length (show_dec (unat (w :: 32 word))) \<le> 10"
proof -
  have "unat w < 2 ^ 32" using unsigned_less[of w, where 'a = nat] by simp
  also have "(2 :: nat) ^ 32 < 10 ^ Suc 9" by simp
  finally show ?thesis using length_show_dec[of "unat w" 9] by simp
qed

lemma digit_no_NUL: "n < 10 \<Longrightarrow> char_of (48 + n :: nat) \<noteq> NUL"
proof
  assume "n < 10" and "char_of (48 + n :: nat) = NUL"
  then have "(of_char (char_of (48 + n :: nat)) :: nat) = of_char NUL" by simp
  then show False using \<open>n < 10\<close> by (simp add: NUL_def)
qed

lemma show_dec_no_NUL: "NUL \<notin> set (show_dec n)"
proof (induction n rule: less_induct)
  case (less n)
  show ?case
  proof (cases "n < 10")
    case True
    then show ?thesis using digit_no_NUL[of n] by (simp add: show_dec.simps[of n] eq_commute)
  next
    case False
    then show ?thesis using less.IH[of "n div 10"] digit_no_NUL[of "n mod 10"]
      by (subst show_dec.simps) (simp add: eq_commute)
  qed
qed

lemma show_int_no_NUL: "NUL \<notin> set (show_int i)"
  using show_dec_no_NUL by (auto simp: show_int_def NUL_def)

lemma formatted_fits: "NUL \<notin> set s \<Longrightarrow> length s < n \<Longrightarrow> formatted n s = s"
  by (simp add: formatted_def cstr_id)

section \<open>Input\<close>

definition isspace :: "char \<Rightarrow> bool" where
  "isspace c \<longleftrightarrow> c = CHR '' '' \<or> (9 \<le> (of_char c :: int) \<and> (of_char c :: int) \<le> 13)"

definition isdigit :: "char \<Rightarrow> bool" where
  "isdigit c \<longleftrightarrow> 48 \<le> (of_char c :: int) \<and> (of_char c :: int) \<le> 57"

text \<open>\<open>%ns\<close>: the word and the rest of the input, or \<open>None\<close> when the input ends first\<close>

definition scan_word :: "nat \<Rightarrow> string \<Rightarrow> (string \<times> string) option" where
  "scan_word n s =
     (let t = dropWhile isspace s; w = take n (takeWhile (\<lambda>c. \<not> isspace c) t)
      in if w = [] then None else Some (w, drop (length w) t))"

fun dec_value :: "int \<Rightarrow> string \<Rightarrow> int" where
  "dec_value acc [] = acc"
| "dec_value acc (c # s) = dec_value (10 * acc + (of_char c - 48)) s"

text \<open>An optional sign and the digits after it: whether the sign is a minus, and the digits\<close>

definition sign_digits :: "string \<Rightarrow> bool \<times> string" where
  "sign_digits s =
     (let t = dropWhile isspace s;
          (neg, u) = (case t of c # r \<Rightarrow> if c = CHR ''-'' then (True, r) else if c = CHR ''+'' then (False, r) else (False, t)
                              | [] \<Rightarrow> (False, []))
      in (neg, takeWhile isdigit u))"

text \<open>\<open>%u\<close>: the C standard leaves open what is stored for a number of more than 32 bits; \<open>ovf\<close> is that value.\<close>

definition scan_uint :: "(int \<Rightarrow> 32 word) \<Rightarrow> string \<Rightarrow> 32 word option" where
  "scan_uint ovf s =
     (case sign_digits s of (neg, ds) \<Rightarrow>
        if ds = [] then None
        else let n = dec_value 0 ds; w = (if n < 2 ^ 32 then word_of_int n else ovf n) in Some (if neg then - w else w))"

text \<open>\<open>atoi\<close> on a string of at most nine digits\<close>

definition atoi :: "string \<Rightarrow> int" where
  "atoi s = (case sign_digits s of (neg, ds) \<Rightarrow> if neg then - dec_value 0 ds else dec_value 0 ds)"

lemma length_scan_word: "scan_word n s = Some (w, r) \<Longrightarrow> w \<noteq> [] \<and> length w \<le> n \<and> list_all (\<lambda>c. \<not> isspace c) w"
  by (auto simp: scan_word_def Let_def list_all_iff split: if_splits dest!: in_set_takeD set_takeWhileD)

section \<open>Reading back what was written\<close>

lemma int_of_char: "(of_char c :: int) = int (of_char c)"
  using of_nat_of_char[of c, where 'a = int] by simp

lemma digit_char: "k < 10 \<Longrightarrow> (of_char (char_of (48 + k :: nat)) :: int) = 48 + int k"
  unfolding int_of_char by simp

lemma show_dec_digits: "list_all isdigit (show_dec n)"
proof (induction n rule: less_induct)
  case (less n)
  have d: "isdigit (char_of (48 + k :: nat))" if "k < 10" for k using digit_char[OF that] that by (simp add: isdigit_def)
  show ?case
  proof (cases "n < 10")
    case True
    then show ?thesis using d[of n] by (simp add: show_dec.simps[of n])
  next
    case False
    then show ?thesis using less.IH[of "n div 10"] d[of "n mod 10"] by (subst show_dec.simps) simp
  qed
qed

lemma show_dec_nonempty: "show_dec n \<noteq> []"
  by (subst show_dec.simps) simp

lemma dec_value_snoc: "dec_value acc (s @ [c]) = 10 * dec_value acc s + (of_char c - 48)"
  by (induction s arbitrary: acc) simp_all

lemma dec_value_show: "dec_value 0 (show_dec n) = int n"
proof (induction n rule: less_induct)
  case (less n)
  show ?case
  proof (cases "n < 10")
    case True
    then show ?thesis using digit_char[OF True] by (simp add: show_dec.simps[of n])
  next
    case False
    then have "dec_value 0 (show_dec n) = 10 * int (n div 10) + int (n mod 10)"
      using less.IH[of "n div 10"] digit_char[of "n mod 10"] by (subst show_dec.simps) (simp add: dec_value_snoc)
    also have "\<dots> = int (10 * (n div 10) + n mod 10)" by (simp only: of_nat_add of_nat_mult of_nat_numeral)
    finally show ?thesis by simp
  qed
qed

lemma isdigit_not: "isdigit c \<Longrightarrow> \<not> isspace c \<and> c \<noteq> CHR ''-'' \<and> c \<noteq> CHR ''+'' \<and> c \<noteq> NUL"
  by (auto simp: isdigit_def isspace_def NUL_def)

lemma sign_digits_show: "sign_digits (show_dec n) = (False, show_dec n)"
proof -
  obtain c r where s: "show_dec n = c # r" using show_dec_nonempty[of n] by (cases "show_dec n") auto
  then have d: "list_all isdigit (c # r)" using show_dec_digits[of n] by simp
  then have "\<not> isspace c" "c \<noteq> CHR ''-''" "c \<noteq> CHR ''+''" using isdigit_not[of c] by auto
  moreover have "takeWhile isdigit (c # r) = c # r" using d by (simp only: takeWhile_eq_all_conv list_all_iff)
  ultimately show ?thesis by (simp add: sign_digits_def s)
qed

lemma atoi_show [simp]: "atoi (show_dec n) = int n"
  by (simp add: atoi_def sign_digits_show dec_value_show)

end
