(* ===== verification/Network_Terminal.thy ===== *)
theory Network_Terminal
  imports C_Format Kernel_Types "HOL-Library.Sublist"
begin

text \<open>
  \<^verbatim>\<open>os/apps/network_diagnostics/network_terminal.c\<close>: the bounded parser of the operator's command line.
\<close>

section \<open>The code\<close>

datatype net_terminal_result =
  NET_TERM_OK | NET_TERM_EMPTY | NET_TERM_UNKNOWN | NET_TERM_INVALID | NET_TERM_BLOCKED

datatype net_terminal_command =
    NET_TERM_CMD_HELP | NET_TERM_CMD_STATUS | NET_TERM_CMD_WIFI_SCAN | NET_TERM_CMD_NETWORK_SCAN
  | NET_TERM_CMD_PORT_CHECK | NET_TERM_CMD_CLEAR

record net_terminal_request =
  rq_command :: net_terminal_command
  rq_argument :: string
  rq_port :: u16
  rq_has_port :: bool

definition request_zero :: net_terminal_request where
  "request_zero = \<lparr>rq_command = NET_TERM_CMD_HELP, rq_argument = replicate 48 NUL, rq_port = 0, rq_has_port = False\<rparr>"

definition trim :: "string \<Rightarrow> string" where
  "trim s = rev (dropWhile isspace (rev (dropWhile isspace (cstr s))))"

text \<open>\<open>strstr(line, w) != NULL\<close>\<close>

fun strstr :: "string \<Rightarrow> string \<Rightarrow> bool" where
  "strstr [] w \<longleftrightarrow> w = []"
| "strstr (c # s) w \<longleftrightarrow> take (length w) (c # s) = w \<or> strstr s w"

definition blocked_words :: "string list" where
  "blocked_words = [''attack'', ''deauth'', ''pmkid'', ''credential'', ''password'',
     ''exploit'', ''bruteforce'', ''brute-force'', ''handshake'']"

definition blocked_command :: "string \<Rightarrow> bool" where
  "blocked_command line \<longleftrightarrow> list_ex (strstr line) blocked_words"

text \<open>\<open>sscanf(s, "%47s %u", arg, &port) == 2\<close>\<close>

definition scan_host_port :: "(int \<Rightarrow> u32) \<Rightarrow> string \<Rightarrow> (string \<times> u32) option" where
  "scan_host_port ovf s =
     (case scan_word 47 s of
        None \<Rightarrow> None
      | Some (arg, rest) \<Rightarrow> map_option (\<lambda>port. (arg, port)) (scan_uint ovf rest))"

text \<open>\<open>out_ok\<close> says that \<open>out_request\<close> is not NULL. The result holds the request afterwards.\<close>

definition network_terminal_parse ::
  "(int \<Rightarrow> u32) \<Rightarrow> string option \<Rightarrow> bool \<Rightarrow> net_terminal_result \<times> net_terminal_request option" where
  "network_terminal_parse ovf line out_ok =
     (case line of
        None \<Rightarrow> (NET_TERM_INVALID, None)
      | Some l \<Rightarrow>
          if \<not> out_ok then (NET_TERM_INVALID, None)
          else let buf = trim (formatted 96 l); req = request_zero in
          if buf = [] then (NET_TERM_EMPTY, Some req)
          else if blocked_command buf then (NET_TERM_BLOCKED, Some req)
          else if buf = ''help'' then (NET_TERM_OK, Some (req\<lparr>rq_command := NET_TERM_CMD_HELP\<rparr>))
          else if buf = ''status'' then (NET_TERM_OK, Some (req\<lparr>rq_command := NET_TERM_CMD_STATUS\<rparr>))
          else if buf = ''wifi scan'' then (NET_TERM_OK, Some (req\<lparr>rq_command := NET_TERM_CMD_WIFI_SCAN\<rparr>))
          else if take 13 buf = ''network scan '' then
            (if 48 \<le> length (drop 13 buf) then (NET_TERM_INVALID, Some req)
             else (NET_TERM_OK, Some (req\<lparr>rq_command := NET_TERM_CMD_NETWORK_SCAN,
                     rq_argument := snprintf (rq_argument req) 48 (drop 13 buf)\<rparr>)))
          else if take 11 buf = ''port check '' then
            (case scan_host_port ovf (drop 11 buf) of
               None \<Rightarrow> (NET_TERM_INVALID, Some req)
             | Some (arg, port) \<Rightarrow>
                 if 65535 < port \<or> port = 0 then (NET_TERM_INVALID, Some req)
                 else (NET_TERM_OK, Some (req\<lparr>rq_command := NET_TERM_CMD_PORT_CHECK,
                         rq_argument := snprintf (rq_argument req) 48 arg, rq_port := ucast port, rq_has_port := True\<rparr>)))
          else if buf = ''clear'' then (NET_TERM_OK, Some (req\<lparr>rq_command := NET_TERM_CMD_CLEAR\<rparr>))
          else (NET_TERM_UNKNOWN, Some req))"

fun network_terminal_result_string :: "net_terminal_result \<Rightarrow> string" where
  "network_terminal_result_string NET_TERM_OK = ''ok''"
| "network_terminal_result_string NET_TERM_EMPTY = ''empty command''"
| "network_terminal_result_string NET_TERM_UNKNOWN = ''unknown command''"
| "network_terminal_result_string NET_TERM_INVALID = ''invalid command''"
| "network_terminal_result_string NET_TERM_BLOCKED = ''command blocked by safety policy''"

section \<open>Safety\<close>

lemma strstr_sublist: "strstr s w \<longleftrightarrow> sublist w s"
proof (induction s)
  case (Cons c s)
  have "take (length w) (c # s) = w \<longleftrightarrow> prefix w (c # s)" by (auto simp: prefix_def take_is_prefix) (metis append_take_drop_id)
  then show ?case using Cons.IH by (simp add: sublist_Cons_right)
qed simp

text \<open>The text the parser looks at\<close>

definition seen :: "string \<Rightarrow> string" where
  "seen l = trim (formatted 96 l)"

text \<open>What an accepted request guarantees to the code that carries it out\<close>

definition request_safe :: "net_terminal_request \<Rightarrow> bool" where
  "request_safe r \<longleftrightarrow> length (rq_argument r) = 48 \<and> length (cstr (rq_argument r)) < 48
     \<and> (rq_has_port r \<longleftrightarrow> rq_command r = NET_TERM_CMD_PORT_CHECK) \<and> (rq_has_port r \<longleftrightarrow> rq_port r \<noteq> 0)
     \<and> (rq_command r \<notin> {NET_TERM_CMD_PORT_CHECK, NET_TERM_CMD_NETWORK_SCAN} \<longrightarrow> cstr (rq_argument r) = [])
     \<and> (rq_command r = NET_TERM_CMD_PORT_CHECK \<longrightarrow>
          cstr (rq_argument r) \<noteq> [] \<and> list_all (\<lambda>c. \<not> isspace c) (cstr (rq_argument r)))"

lemma request_zero_arg: "length (rq_argument request_zero) = 48" "cstr (rq_argument request_zero) = []"
  by (simp_all add: request_zero_def cstr_def)

lemma port_nonzero: "0 < (p :: u32) \<Longrightarrow> p \<le> 65535 \<Longrightarrow> (ucast p :: u16) \<noteq> 0"
proof
  assume p: "0 < p" "p \<le> 65535" and z: "(ucast p :: u16) = 0"
  have "unat (ucast p :: u16) = unat p mod 65536" by (simp add: unsigned_ucast_eq take_bit_eq_mod)
  moreover have "0 < unat p" "unat p \<le> 65535" using p by (simp_all add: word_le_nat_alt word_less_nat_alt)
  ultimately show False using z by simp
qed

lemma trim_no_NUL: "NUL \<notin> set (trim s)"
proof -
  have "set (trim s) \<subseteq> set (cstr s)"
    unfolding trim_def by (metis set_dropWhileD set_rev subsetI)
  then show ?thesis using cstr_no_NUL by blast
qed

text \<open>C11. An accepted line contains none of the blocked words within the 95 characters the parser
  reads, and its request is safe to carry out: the argument is a terminated string of at most 47 characters,
  and a port check names a host and a port from 1 to 65535.\<close>

theorem terminal_request_safe:
  assumes "network_terminal_parse ovf (Some l) True = (NET_TERM_OK, Some r)"
  shows "list_all (\<lambda>w. \<not> sublist w (seen l)) blocked_words \<and> seen l \<noteq> [] \<and> request_safe r"
proof -
  have b: "\<not> blocked_command (seen l)" "seen l \<noteq> []"
    using assms by (auto simp: network_terminal_parse_def Let_def seen_def split: if_splits)
  have arg: "length (snprintf (rq_argument request_zero) 48 x) = 48 \<and> length (cstr (snprintf (rq_argument request_zero) 48 x)) < 48" for x
    by (simp add: length_snprintf cstr_snprintf request_zero_arg)
  have word: "cstr (snprintf (rq_argument request_zero) 48 a) = a" "a \<noteq> []" "list_all (\<lambda>c. \<not> isspace c) a" "length a < 48"
    if h: "scan_host_port ovf (drop 11 (seen l)) = Some (a, p)" for a p
  proof -
    obtain rest where w: "scan_word 47 (drop 11 (seen l)) = Some (a, rest)"
      using h by (auto simp: scan_host_port_def split: option.splits)
    then show "a \<noteq> []" "list_all (\<lambda>c. \<not> isspace c) a" "length a < 48" using length_scan_word by fastforce+
    have "set a \<subseteq> set (seen l)"
      using w by (auto simp: scan_word_def Let_def split: if_splits dest!: in_set_takeD set_takeWhileD set_dropWhileD in_set_dropD)
    then have "NUL \<notin> set a" using trim_no_NUL unfolding seen_def by blast
    then show "cstr (snprintf (rq_argument request_zero) 48 a) = a"
      using length_scan_word[OF w] by (simp add: cstr_snprintf cstr_id)
  qed
  have "request_safe r"
    using assms arg word port_nonzero
    by (auto simp: network_terminal_parse_def Let_def request_safe_def request_zero_arg seen_def[symmetric]
        request_zero_def[THEN arg_cong[of _ _ rq_port]] request_zero_def[THEN arg_cong[of _ _ rq_has_port]]
        not_less word_gt_0 split: if_splits option.splits prod.splits)
  then show ?thesis using b by (simp add: blocked_command_def list_ex_iff list_all_iff strstr_sublist)
qed

theorem terminal_request_safe_witness:
  "\<exists>r. network_terminal_parse (\<lambda>n. 0) (Some ''  port check 10.0.0.1 443 '') True = (NET_TERM_OK, Some r)
     \<and> cstr (rq_argument r) = ''10.0.0.1'' \<and> rq_port r = 443 \<and> request_safe r"
proof -
  have p: "network_terminal_parse (\<lambda>n. 0) (Some ''  port check 10.0.0.1 443 '') True
    = (NET_TERM_OK, Some \<lparr>rq_command = NET_TERM_CMD_PORT_CHECK, rq_argument = ''10.0.0.1'' @ replicate 40 NUL,
         rq_port = 443, rq_has_port = True\<rparr>)" by code_simp
  have "cstr (''10.0.0.1'' @ replicate 40 NUL) = ''10.0.0.1''" by code_simp
  then show ?thesis using terminal_request_safe[OF p] p by auto
qed

text \<open>A \<open>%u\<close> takes a minus sign: a huge negative number is accepted as a port.\<close>

lemma negative_port_accepted:
  "fst (network_terminal_parse ovf (Some ''port check host -4294967216'') True) = NET_TERM_OK"
  by code_simp

end
