(* ===== verification/Scheduler.thy ===== *)
theory Scheduler
  imports Fault_Manager
begin

text \<open>
  \<^verbatim>\<open>os/kernel/scheduler.c\<close>: the cooperative scheduler. The body of a task and the clock are outside
  this file: \<open>exec e c\<close> is what the entry point \<open>e\<close> does with context \<open>c\<close>, and the two readings of
  \<open>hal_timer_get_us\<close> around it are arguments. The state record is extensible, so that the bodies
  may act on more than the scheduler's own state.
\<close>

section \<open>State and operations\<close>

definition MK_TASK_EXEC_BUDGET_US :: u32 where "MK_TASK_EXEC_BUDGET_US = 25000"

record sched =
  sc_kernel :: mk_kernel
  sc_cursor :: u8
  sc_fm :: fault_manager

text \<open>The time stamp of a fault record: the tick, or nothing in a host test build\<close>

definition sc_now :: "bool \<Rightarrow> 'a sched_scheme \<Rightarrow> u32 option" where
  "sc_now host s = (if host then None else Some (k_tick (sc_kernel s)))"

definition update_task :: "nat \<Rightarrow> (mk_tcb \<Rightarrow> mk_tcb) \<Rightarrow> 'a sched_scheme \<Rightarrow> 'a sched_scheme" where
  "update_task i f s =
     (let k = sc_kernel s in s\<lparr>sc_kernel := k\<lparr>k_tasks := (k_tasks k)[i := f (k_tasks k ! i)]\<rparr>\<rparr>)"

definition mk_scheduler_init :: "bool \<Rightarrow> 'a sched_scheme \<Rightarrow> mk_status \<times> 'a sched_scheme" where
  "mk_scheduler_init kernel_ptr s =
     (if \<not> kernel_ptr then (MK_STATUS_INVALID_ARG, s)
      else (MK_STATUS_OK, s\<lparr>
        sc_kernel := (sc_kernel s)\<lparr>
          k_tasks := map (\<lambda>i. mk_tcb_zero\<lparr>tcb_id := of_nat i, tcb_state := MK_TASK_STATE_UNUSED,
                              tcb_priority := MK_TASK_PRIO_LOWEST,
                              max_execution_us := MK_TASK_EXEC_BUDGET_US\<rparr>) [0..<MK_MAX_TASKS],
          k_scheduler_iterations := 0\<rparr>,
        sc_cursor := 0\<rparr>))"

definition task_name :: "string \<Rightarrow> string option \<Rightarrow> u8 \<Rightarrow> string" where
  "task_name old name task_id =
     (case name of
        Some n \<Rightarrow> (strncpy old n (MK_TASK_NAME_LEN - 1))[MK_TASK_NAME_LEN - 1 := NUL]
      | None \<Rightarrow> snprintf old MK_TASK_NAME_LEN (''task_'' @ show_dec (unat task_id)))"

definition mk_task_register ::
  "bool \<Rightarrow> bool \<Rightarrow> u8 \<Rightarrow> string option \<Rightarrow> mk_task_entry option \<Rightarrow> u32 \<Rightarrow> u8 \<Rightarrow> u32
   \<Rightarrow> 'a sched_scheme \<Rightarrow> mk_status \<times> 'a sched_scheme" where
  "mk_task_register host kernel_ptr task_id name entry ctx priority period s =
     (if \<not> kernel_ptr \<or> MK_MAX_TASKS \<le> unat task_id \<or> entry = None
      then (MK_STATUS_INVALID_ARG,
            s\<lparr>sc_fm := mk_fault_record_full (sc_now host s) MK_FAULT_TASK_REGISTRATION_FAIL
                        MK_FAULT_SRC_SCHEDULER MK_FAULT_SEV_WARNING (ucast task_id) 0 (sc_fm s)\<rparr>)
      else (MK_STATUS_OK, update_task (unat task_id) (\<lambda>tcb. tcb\<lparr>
              tcb_id := task_id, tcb_state := MK_TASK_STATE_READY,
              tcb_priority := (if MK_TASK_PRIO_LOWEST < priority then MK_TASK_PRIO_LOWEST else priority),
              period_ticks := period, next_run_tick := k_tick (sc_kernel s),
              tcb_entry := entry, tcb_context := ctx,
              execution_count := 0, fault_count := 0, last_execution_us := 0, worst_execution_us := 0,
              max_execution_us := MK_TASK_EXEC_BUDGET_US, deadline_miss_count := 0, overrun_count := 0,
              tcb_name := task_name (tcb_name tcb) name task_id\<rparr>) s))"

definition mk_task_set_state ::
  "bool \<Rightarrow> u8 \<Rightarrow> mk_task_state \<Rightarrow> 'a sched_scheme \<Rightarrow> mk_status \<times> 'a sched_scheme" where
  "mk_task_set_state kernel_ptr task_id st s =
     (if \<not> kernel_ptr \<or> MK_MAX_TASKS \<le> unat task_id \<or> task_state_ord MK_TASK_STATE_COUNT \<le> task_state_ord st
      then (MK_STATUS_INVALID_ARG, s)
      else (MK_STATUS_OK, update_task (unat task_id) (\<lambda>tcb. tcb\<lparr>tcb_state := st\<rparr>) s))"

definition wake_task :: "u32 \<Rightarrow> mk_tcb \<Rightarrow> mk_tcb" where
  "wake_task tick tcb =
     (if tcb_state tcb = MK_TASK_STATE_SLEEPING \<and> next_run_tick tcb \<le> tick
      then tcb\<lparr>tcb_state := MK_TASK_STATE_READY\<rparr> else tcb)"

definition mk_scheduler_tick :: "'a sched_scheme \<Rightarrow> 'a sched_scheme" where
  "mk_scheduler_tick s =
     (let k = sc_kernel s; tick = k_tick k + 1
      in s\<lparr>sc_kernel := k\<lparr>k_tick := tick, k_tasks := map (wake_task tick) (k_tasks k)\<rparr>\<rparr>)"

definition eligible :: "u32 \<Rightarrow> mk_tcb \<Rightarrow> bool" where
  "eligible tick tcb \<longleftrightarrow> tcb_state tcb = MK_TASK_STATE_READY \<and> next_run_tick tcb \<le> tick"

text \<open>The first loop: the smallest priority value among the eligible tasks, or 255\<close>

definition best_priority :: "u32 \<Rightarrow> mk_tcb list \<Rightarrow> u8" where
  "best_priority tick tasks =
     foldl (\<lambda>best tcb. if eligible tick tcb then (if tcb_priority tcb < best then tcb_priority tcb else best)
                       else best) 255 tasks"

text \<open>The second loop starts at the round-robin cursor. The result is the index of the task.\<close>

definition mk_scheduler_select_next :: "'a sched_scheme \<Rightarrow> nat option \<times> 'a sched_scheme" where
  "mk_scheduler_select_next s =
     (let k = sc_kernel s; best = best_priority (k_tick k) (k_tasks k)
      in if best = 255 then (None, s)
         else case find (\<lambda>idx. eligible (k_tick k) (k_tasks k ! idx) \<and> tcb_priority (k_tasks k ! idx) = best)
                     (map (\<lambda>offset. (unat (sc_cursor s) + offset) mod MK_MAX_TASKS) [0..<MK_MAX_TASKS]) of
                Some idx \<Rightarrow> (Some idx, s\<lparr>sc_cursor := of_nat ((idx + 1) mod MK_MAX_TASKS)\<rparr>)
              | None \<Rightarrow> (None, s))"

type_synonym 'a task_exec = "mk_task_entry \<Rightarrow> u32 \<Rightarrow> 'a sched_scheme \<Rightarrow> 'a sched_scheme"

definition duration_us :: "u64 \<times> u64 \<Rightarrow> u32" where
  "duration_us t = (case t of (start, stop) \<Rightarrow> if start \<le> stop then ucast (stop - start) else 0)"

text \<open>What is done with the control block before and after the call of the task\<close>

definition enter_task :: "u32 \<Rightarrow> mk_tcb \<Rightarrow> mk_tcb" where
  "enter_task tick tcb =
     (if next_run_tick tcb < tick then tcb\<lparr>deadline_miss_count := deadline_miss_count tcb + 1\<rparr>
      else tcb)\<lparr>tcb_state := MK_TASK_STATE_RUNNING\<rparr>"

definition leave_task :: "u32 \<Rightarrow> u32 \<Rightarrow> mk_tcb \<Rightarrow> mk_tcb" where
  "leave_task tick d tcb =
     (let t1 = tcb\<lparr>last_execution_us := d,
                   worst_execution_us := (if worst_execution_us tcb < d then d else worst_execution_us tcb)\<rparr>;
          t2 = (if max_execution_us t1 < d
                then t1\<lparr>overrun_count := overrun_count t1 + 1, fault_count := fault_count t1 + 1\<rparr> else t1);
          t3 = t2\<lparr>execution_count := execution_count t2 + 1\<rparr>
      in if tcb_state t3 = MK_TASK_STATE_RUNNING
         then if 0 < period_ticks t3
              then t3\<lparr>next_run_tick := tick + period_ticks t3, tcb_state := MK_TASK_STATE_SLEEPING\<rparr>
              else t3\<lparr>next_run_tick := tick, tcb_state := MK_TASK_STATE_READY\<rparr>
         else t3)"

definition run_task ::
  "bool \<Rightarrow> 'a task_exec \<Rightarrow> u64 \<times> u64 \<Rightarrow> nat \<Rightarrow> mk_task_entry \<Rightarrow> 'a sched_scheme \<Rightarrow> 'a sched_scheme" where
  "run_task host exec clk idx e s =
     (let s1 = update_task idx (enter_task (k_tick (sc_kernel s))) s;
          s2 = exec e (tcb_context (k_tasks (sc_kernel s1) ! idx)) s1;
          d = duration_us clk;
          tcb = k_tasks (sc_kernel s2) ! idx;
          s3 = (if max_execution_us tcb < d
                then s2\<lparr>sc_fm := mk_fault_record_full (sc_now host s2) MK_FAULT_SCHEDULER_OVERRUN
                          MK_FAULT_SRC_SCHEDULER MK_FAULT_SEV_WARNING (ucast (tcb_id tcb)) d (sc_fm s2)\<rparr>
                else s2)
      in update_task idx (leave_task (k_tick (sc_kernel s3)) d) s3)"

definition mk_scheduler_run_iteration ::
  "bool \<Rightarrow> 'a task_exec \<Rightarrow> u64 \<times> u64 \<Rightarrow> 'a sched_scheme \<Rightarrow> 'a sched_scheme" where
  "mk_scheduler_run_iteration host exec clk s =
     (let (sel, s1) = mk_scheduler_select_next s;
          s2 = (case sel of
                  Some idx \<Rightarrow> (case tcb_entry (k_tasks (sc_kernel s1) ! idx) of
                                 Some e \<Rightarrow> run_task host exec clk idx e s1
                               | None \<Rightarrow> mk_scheduler_tick s1)
                | None \<Rightarrow> mk_scheduler_tick s1)
      in s2\<lparr>sc_kernel := (sc_kernel s2)\<lparr>k_scheduler_iterations := k_scheduler_iterations (sc_kernel s2) + 1\<rparr>\<rparr>)"

section \<open>Selection\<close>

text \<open>The tables always have eight entries, and priorities are at most \<open>MK_TASK_PRIO_LOWEST\<close>.\<close>

definition sched_wf :: "'a sched_scheme \<Rightarrow> bool" where
  "sched_wf s \<longleftrightarrow> length (k_tasks (sc_kernel s)) = 8 \<and> unat (sc_cursor s) < 8
     \<and> (\<forall>t \<in> set (k_tasks (sc_kernel s)). tcb_priority t \<le> MK_TASK_PRIO_LOWEST)"

lemma best_fold:
  fixes b :: u8 and tick :: u32
  defines "f \<equiv> \<lambda>best tcb. if eligible tick tcb then (if tcb_priority tcb < best then tcb_priority tcb else best) else best"
  shows "foldl f b ts \<le> b \<and> (\<forall>t \<in> set ts. eligible tick t \<longrightarrow> foldl f b ts \<le> tcb_priority t)
     \<and> (foldl f b ts = b \<or> (\<exists>t \<in> set ts. eligible tick t \<and> tcb_priority t = foldl f b ts))"
proof (induction ts arbitrary: b)
  case Nil
  then show ?case by simp
next
  case (Cons t ts)
  show ?case using Cons.IH[of "f b t"] by (auto simp: f_def split: if_splits)
qed

lemma best_priority_le: "t \<in> set ts \<Longrightarrow> eligible tick t \<Longrightarrow> best_priority tick ts \<le> tcb_priority t"
  using best_fold[of tick 255 ts] by (simp add: best_priority_def)

lemma best_priority_attained:
  "best_priority tick ts \<noteq> 255 \<Longrightarrow> \<exists>t \<in> set ts. eligible tick t \<and> tcb_priority t = best_priority tick ts"
  using best_fold[of tick 255 ts] by (auto simp: best_priority_def)

text \<open>The round-robin scan visits every index once.\<close>

lemma rotation_surj:
  assumes "c < 8" and "i < (8 :: nat)"
  shows "(c + (i + 8 - c) mod 8) mod 8 = i"
  using assms by (simp add: mod_simps)

definition candidate :: "'a sched_scheme \<Rightarrow> nat \<Rightarrow> bool" where
  "candidate s i \<longleftrightarrow> (let k = sc_kernel s in eligible (k_tick k) (k_tasks k ! i)
     \<and> (\<forall>j < 8. eligible (k_tick k) (k_tasks k ! j) \<longrightarrow> tcb_priority (k_tasks k ! i) \<le> tcb_priority (k_tasks k ! j)))"

lemma candidate_iff:
  assumes "sched_wf s" and "i < 8"
  defines "k \<equiv> sc_kernel s"
  shows "candidate s i \<longleftrightarrow> eligible (k_tick k) (k_tasks k ! i)
     \<and> tcb_priority (k_tasks k ! i) = best_priority (k_tick k) (k_tasks k)"
proof -
  have len: "length (k_tasks k) = 8" using assms by (simp add: sched_wf_def)
  have i: "k_tasks k ! i \<in> set (k_tasks k)" using len assms(2) by simp
  have pr: "tcb_priority (k_tasks k ! i) \<le> 7"
    using assms(1) i by (simp add: sched_wf_def k_def MK_TASK_PRIO_LOWEST_def)
  show ?thesis
  proof
    assume c: "candidate s i"
    then have e: "eligible (k_tick k) (k_tasks k ! i)" by (simp add: candidate_def k_def Let_def)
    have le: "best_priority (k_tick k) (k_tasks k) \<le> tcb_priority (k_tasks k ! i)"
      using i e by (rule best_priority_le)
    then have "best_priority (k_tick k) (k_tasks k) \<noteq> 255" using pr by (auto simp: word_le_nat_alt)
    then obtain t where "t \<in> set (k_tasks k)" "eligible (k_tick k) t"
      and t: "tcb_priority t = best_priority (k_tick k) (k_tasks k)" using best_priority_attained by blast
    then have "tcb_priority (k_tasks k ! i) \<le> tcb_priority t"
      using c len by (auto simp: candidate_def k_def[symmetric] Let_def in_set_conv_nth)
    then show "eligible (k_tick k) (k_tasks k ! i)
        \<and> tcb_priority (k_tasks k ! i) = best_priority (k_tick k) (k_tasks k)" using t le e by simp
  next
    assume "eligible (k_tick k) (k_tasks k ! i)
        \<and> tcb_priority (k_tasks k ! i) = best_priority (k_tick k) (k_tasks k)"
    then show "candidate s i"
      using best_priority_le[of _ "k_tasks k" "k_tick k"] len
      by (auto simp: candidate_def k_def[symmetric] Let_def)
  qed
qed

lemma candidate_exists:
  assumes "sched_wf s" and "j < 8" and "eligible (k_tick (sc_kernel s)) (k_tasks (sc_kernel s) ! j)"
  shows "\<exists>i < 8. candidate s i"
proof -
  let ?k = "sc_kernel s"
  have len: "length (k_tasks ?k) = 8" using assms by (simp add: sched_wf_def)
  have j: "k_tasks ?k ! j \<in> set (k_tasks ?k)" using len assms(2) by simp
  have "tcb_priority (k_tasks ?k ! j) \<le> 7" using assms(1) j by (simp add: sched_wf_def MK_TASK_PRIO_LOWEST_def)
  then have "best_priority (k_tick ?k) (k_tasks ?k) \<noteq> 255"
    using best_priority_le[OF j assms(3)] by (auto simp: word_le_nat_alt)
  then obtain t where "t \<in> set (k_tasks ?k)" "eligible (k_tick ?k) t"
    "tcb_priority t = best_priority (k_tick ?k) (k_tasks ?k)" using best_priority_attained by blast
  then obtain i where "i < 8" "eligible (k_tick ?k) (k_tasks ?k ! i)"
    "tcb_priority (k_tasks ?k ! i) = best_priority (k_tick ?k) (k_tasks ?k)"
    using len by (auto simp: in_set_conv_nth)
  then show ?thesis using candidate_iff[OF assms(1)] by blast
qed

lemma select_next_none:
  assumes wf: "sched_wf s" and none: "\<forall>i < 8. \<not> eligible (k_tick (sc_kernel s)) (k_tasks (sc_kernel s) ! i)"
  shows "mk_scheduler_select_next s = (None, s)"
proof -
  have "\<forall>i < 8. \<not> candidate s i" using none by (simp add: candidate_def Let_def)
  then show ?thesis using none
    by (auto simp: mk_scheduler_select_next_def Let_def MK_MAX_TASKS_def find_None_iff split: option.splits
        dest!: find_Some_iff[THEN iffD1])
qed

lemma select_next_some:
  assumes wf: "sched_wf s" and ex: "\<exists>i < 8. candidate s i"
  obtains d where "d < 8" and "candidate s ((unat (sc_cursor s) + d) mod 8)"
    and "\<And>e. e < d \<Longrightarrow> \<not> candidate s ((unat (sc_cursor s) + e) mod 8)"
    and "mk_scheduler_select_next s = (Some ((unat (sc_cursor s) + d) mod 8),
          s\<lparr>sc_cursor := of_nat (((unat (sc_cursor s) + d) mod 8 + 1) mod 8)\<rparr>)"
proof -
  let ?k = "sc_kernel s" and ?c = "unat (sc_cursor s)"
  let ?best = "best_priority (k_tick ?k) (k_tasks ?k)"
  let ?P = "\<lambda>i. eligible (k_tick ?k) (k_tasks ?k ! i) \<and> tcb_priority (k_tasks ?k ! i) = ?best"
  have c8: "?c < 8" and len: "length (k_tasks ?k) = 8" using wf by (simp_all add: sched_wf_def)
  have P: "?P (m mod 8) \<longleftrightarrow> candidate s (m mod 8)" for m using candidate_iff[OF wf, of "m mod 8"] by simp
  obtain i where i: "i < 8" "candidate s i" using ex by blast
  have "tcb_priority (k_tasks ?k ! i) \<le> 7"
    using wf i(1) len by (simp add: sched_wf_def MK_TASK_PRIO_LOWEST_def)
  moreover have "tcb_priority (k_tasks ?k ! i) = ?best" using candidate_iff[OF wf i(1)] i(2) by simp
  ultimately have b: "?best \<noteq> 255" by (auto simp: word_le_nat_alt)
  have "i = (?c + (i + 8 - ?c) mod 8) mod 8" using rotation_surj[OF c8 i(1)] by simp
  then have "\<exists>d < 8. candidate s ((?c + d) mod 8)" using i(2) by (intro exI[of _ "(i + 8 - ?c) mod 8"]) auto
  define d where "d = (LEAST d. d < 8 \<and> candidate s ((?c + d) mod 8))"
  have d: "d < 8" "candidate s ((?c + d) mod 8)"
    using LeastI_ex[OF \<open>\<exists>d < 8. candidate s ((?c + d) mod 8)\<close>] by (simp_all add: d_def)
  have least: "\<not> candidate s ((?c + e) mod 8)" if "e < d" for e
    using not_less_Least[of e "\<lambda>d. d < 8 \<and> candidate s ((?c + d) mod 8)"] that d(1) by (auto simp: d_def)
  have "find ?P (map (\<lambda>offset. (?c + offset) mod 8) [0..<8]) = Some ((?c + d) mod 8)"
    unfolding find_Some_iff using d least P by (intro exI[of _ d]) simp
  then have "mk_scheduler_select_next s = (Some ((?c + d) mod 8),
      s\<lparr>sc_cursor := of_nat (((?c + d) mod 8 + 1) mod 8)\<rparr>)"
    using b by (simp add: mk_scheduler_select_next_def Let_def MK_MAX_TASKS_def)
  then show ?thesis using d least by (intro that)
qed

lemma cursor_next: "unat (of_nat ((i + 1) mod 8) :: u8) = (i + 1) mod 8"
  using mod_less_divisor[of 8 "i + 1"] by (simp add: unat_of_nat)

lemma select_next_keeps:
  "sc_kernel (snd (mk_scheduler_select_next s)) = sc_kernel s"
  "sched_wf s \<Longrightarrow> sched_wf (snd (mk_scheduler_select_next s))"
  by (auto simp: mk_scheduler_select_next_def Let_def sched_wf_def cursor_next[simplified] MK_MAX_TASKS_def
      split: option.splits)

text \<open>A candidate that is not selected gets closer to the cursor.\<close>

lemma select_distance:
  assumes wf: "sched_wf s" and j: "j = (unat (sc_cursor s) + D) mod 8" and D: "D < 8" and c: "candidate s j"
    and sel: "mk_scheduler_select_next s = (Some i, s')" and ij: "i \<noteq> j"
  shows "\<exists>D' < D. j = (unat (sc_cursor s') + D') mod 8"
proof -
  let ?c = "unat (sc_cursor s)"
  have "\<exists>i < 8. candidate s i" using c j by (intro exI[of _ j]) simp
  then obtain d where d: "\<And>e. e < d \<Longrightarrow> \<not> candidate s ((?c + e) mod 8)"
    and r: "mk_scheduler_select_next s = (Some ((?c + d) mod 8), s\<lparr>sc_cursor := of_nat (((?c + d) mod 8 + 1) mod 8)\<rparr>)"
    using select_next_some[OF wf] by metis
  have "d \<noteq> D" using r sel ij j by auto
  moreover have "\<not> D < d" using d c j by blast
  ultimately have dD: "d < D" by simp
  have "unat (sc_cursor s') = (?c + d + 1) mod 8"
    using r sel cursor_next[of "(?c + d) mod 8"] by (auto simp: mod_simps)
  moreover obtain m where m: "D = Suc (d + m)" using dD less_imp_Suc_add by blast
  ultimately have "j = (unat (sc_cursor s') + m) mod 8" using j by (simp add: mod_simps add_ac)
  then show ?thesis using m by (intro exI[of _ m]) simp
qed

lemma select_fair:
  assumes "\<And>n. n \<le> D \<Longrightarrow> sched_wf (ss n) \<and> candidate (ss n) j"
    and "\<And>n. n < D \<Longrightarrow> sc_cursor (ss (Suc n)) = sc_cursor (snd (mk_scheduler_select_next (ss n)))"
    and "j = (unat (sc_cursor (ss 0)) + D) mod 8" and "D < 8"
  shows "\<exists>n \<le> D. fst (mk_scheduler_select_next (ss n)) = Some j"
  using assms
proof (induction D arbitrary: ss rule: less_induct)
  case (less D)
  show ?case
  proof (cases "fst (mk_scheduler_select_next (ss 0)) = Some j")
    case True
    then show ?thesis by blast
  next
    case False
    have wf: "sched_wf (ss 0)" and c: "candidate (ss 0) j" using less.prems(1) by simp_all
    have "\<exists>i < 8. candidate (ss 0) i" using c less.prems(3) by (intro exI[of _ j]) simp
    then obtain i s' where sel: "mk_scheduler_select_next (ss 0) = (Some i, s')"
      using select_next_some[OF wf] by metis
    then have ij: "i \<noteq> j" using False by auto
    obtain D' where D': "D' < D" "j = (unat (sc_cursor s') + D') mod 8"
      using select_distance[OF wf less.prems(3,4) c sel ij] by blast
    have c1: "sc_cursor (ss (Suc 0)) = sc_cursor s'" using less.prems(2)[of 0] D' sel by simp
    have "\<exists>n \<le> D'. fst (mk_scheduler_select_next (ss (Suc n))) = Some j"
      by (rule less.IH[OF D'(1)]) (use less.prems D' c1 in auto)
    then show ?thesis using D'(1) by (meson Suc_leI le_trans order.strict_trans1 Suc_le_eq)
  qed
qed

section \<open>Iterations\<close>

text \<open>A task body that leaves the task table, the tick and the cursor alone\<close>

definition quiet :: "'a task_exec \<Rightarrow> bool" where
  "quiet exec \<longleftrightarrow> (\<forall>e c s. k_tasks (sc_kernel (exec e c s)) = k_tasks (sc_kernel s)
     \<and> k_tick (sc_kernel (exec e c s)) = k_tick (sc_kernel s) \<and> sc_cursor (exec e c s) = sc_cursor s)"

text \<open>Every ready task has an entry point: \<open>mk_task_register\<close> checks it.\<close>

definition armed :: "'a sched_scheme \<Rightarrow> bool" where
  "armed s \<longleftrightarrow> (\<forall>t \<in> set (k_tasks (sc_kernel s)).
     tcb_state t = MK_TASK_STATE_READY \<or> tcb_state t = MK_TASK_STATE_SLEEPING \<longrightarrow> tcb_entry t \<noteq> None)"

abbreviation tasks_of :: "'a sched_scheme \<Rightarrow> mk_tcb list" where
  "tasks_of s \<equiv> k_tasks (sc_kernel s)"

abbreviation tick_of :: "'a sched_scheme \<Rightarrow> u32" where
  "tick_of s \<equiv> k_tick (sc_kernel s)"

lemma run_task_effect:
  assumes "quiet exec" and "i < length (tasks_of s)"
  shows "tasks_of (run_task host exec clk i e s)
      = (tasks_of s)[i := leave_task (tick_of s) (duration_us clk) (enter_task (tick_of s) (tasks_of s ! i))]"
    and "tick_of (run_task host exec clk i e s) = tick_of s"
    and "sc_cursor (run_task host exec clk i e s) = sc_cursor s"
  using assms by (simp_all add: run_task_def update_task_def Let_def quiet_def)

lemma iteration_idle:
  assumes "sched_wf s" and "\<forall>i < 8. \<not> eligible (tick_of s) (tasks_of s ! i)"
  shows "tasks_of (mk_scheduler_run_iteration host exec clk s) = map (wake_task (tick_of s + 1)) (tasks_of s)"
    and "tick_of (mk_scheduler_run_iteration host exec clk s) = tick_of s + 1"
    and "sc_cursor (mk_scheduler_run_iteration host exec clk s) = sc_cursor s"
  using select_next_none[OF assms]
  by (simp_all add: mk_scheduler_run_iteration_def mk_scheduler_tick_def Let_def)

lemma iteration_busy:
  assumes wf: "sched_wf s" and ar: "armed s" and q: "quiet exec"
    and j: "j < 8" "eligible (tick_of s) (tasks_of s ! j)"
  obtains i where "i < 8" and "candidate s i" and "fst (mk_scheduler_select_next s) = Some i"
    and "tasks_of (mk_scheduler_run_iteration host exec clk s)
      = (tasks_of s)[i := leave_task (tick_of s) (duration_us clk) (enter_task (tick_of s) (tasks_of s ! i))]"
    and "tick_of (mk_scheduler_run_iteration host exec clk s) = tick_of s"
    and "unat (sc_cursor (mk_scheduler_run_iteration host exec clk s)) = (i + 1) mod 8"
proof -
  obtain d where c: "candidate s ((unat (sc_cursor s) + d) mod 8)"
    and r: "mk_scheduler_select_next s = (Some ((unat (sc_cursor s) + d) mod 8),
          s\<lparr>sc_cursor := of_nat (((unat (sc_cursor s) + d) mod 8 + 1) mod 8)\<rparr>)"
    using select_next_some[OF wf candidate_exists[OF wf j]] by metis
  define i where "i = (unat (sc_cursor s) + d) mod 8"
  have i8: "i < 8" and len: "length (tasks_of s) = 8" using wf by (simp_all add: i_def sched_wf_def)
  have "tcb_state (tasks_of s ! i) = MK_TASK_STATE_READY"
    using c by (simp add: i_def candidate_def Let_def eligible_def)
  then obtain e where e: "tcb_entry (tasks_of s ! i) = Some e" using ar i8 len by (force simp: armed_def)
  have u: "unat (of_nat ((i + 1) mod 8) :: u8) = (i + 1) mod 8" by (rule cursor_next)
  let ?s = "s\<lparr>sc_cursor := of_nat ((i + 1) mod 8)\<rparr>"
  have it: "mk_scheduler_run_iteration host exec clk s
      = (let s2 = run_task host exec clk i e ?s
         in s2\<lparr>sc_kernel := (sc_kernel s2)\<lparr>k_scheduler_iterations := k_scheduler_iterations (sc_kernel s2) + 1\<rparr>\<rparr>)"
    using r e by (simp add: mk_scheduler_run_iteration_def i_def[symmetric] Let_def)
  have il: "i < length (tasks_of ?s)" using i8 len by simp
  show ?thesis
    by (rule that[OF i8]) (use c r run_task_effect[OF q il] u in \<open>simp_all add: it Let_def i_def[symmetric]\<close>)
qed

lemma enter_leave_fields [simp]:
  "tcb_priority (leave_task tick d t) = tcb_priority t" "tcb_priority (enter_task tick t) = tcb_priority t"
  "tcb_entry (leave_task tick d t) = tcb_entry t" "tcb_entry (enter_task tick t) = tcb_entry t"
  "period_ticks (leave_task tick d t) = period_ticks t" "period_ticks (enter_task tick t) = period_ticks t"
  "tcb_state (enter_task tick t) = MK_TASK_STATE_RUNNING"
  "deadline_miss_count (leave_task tick d t) = deadline_miss_count t"
  "execution_count (leave_task tick d t) = execution_count t + 1"
  "execution_count (enter_task tick t) = execution_count t"
  by (simp_all add: leave_task_def enter_task_def Let_def)

lemma leave_enter_schedule:
  "tcb_state (leave_task tick d (enter_task tick t))
     = (if 0 < period_ticks t then MK_TASK_STATE_SLEEPING else MK_TASK_STATE_READY)"
  "next_run_tick (leave_task tick d (enter_task tick t)) = tick + period_ticks t"
  by (simp_all add: leave_task_def enter_task_def Let_def word_gt_0)

lemma enter_on_time: "\<not> next_run_tick t < tick \<Longrightarrow> deadline_miss_count (enter_task tick t) = deadline_miss_count t"
  by (simp add: enter_task_def)

lemma wake_fields [simp]:
  "tcb_priority (wake_task tick t) = tcb_priority t" "tcb_entry (wake_task tick t) = tcb_entry t"
  "period_ticks (wake_task tick t) = period_ticks t" "next_run_tick (wake_task tick t) = next_run_tick t"
  "deadline_miss_count (wake_task tick t) = deadline_miss_count t"
  "execution_count (wake_task tick t) = execution_count t"
  by (simp_all add: wake_task_def)

text \<open>Every iteration keeps the tables well formed.\<close>

lemma iteration_wf:
  assumes wf: "sched_wf s" and ar: "armed s" and q: "quiet exec"
  shows "sched_wf (mk_scheduler_run_iteration host exec clk s)
    \<and> armed (mk_scheduler_run_iteration host exec clk s)"
proof (cases "\<exists>j < 8. eligible (tick_of s) (tasks_of s ! j)")
  case False
  then have n: "\<forall>i < 8. \<not> eligible (tick_of s) (tasks_of s ! i)" by blast
  show ?thesis using wf ar iteration_idle[OF wf n, of host exec clk]
    by (auto simp: sched_wf_def armed_def wake_task_def split: if_splits)
next
  case True
  then obtain j where "j < 8" "eligible (tick_of s) (tasks_of s ! j)" by blast
  then obtain i where i: "i < 8" "candidate s i"
    and t: "tasks_of (mk_scheduler_run_iteration host exec clk s)
      = (tasks_of s)[i := leave_task (tick_of s) (duration_us clk) (enter_task (tick_of s) (tasks_of s ! i))]"
    and c: "unat (sc_cursor (mk_scheduler_run_iteration host exec clk s)) = (i + 1) mod 8"
    by (rule iteration_busy[OF wf ar q])
  have mem: "tasks_of s ! i \<in> set (tasks_of s)" using i wf by (simp add: sched_wf_def)
  have st: "tcb_state (tasks_of s ! i) = MK_TASK_STATE_READY"
    using i(2) by (simp add: candidate_def Let_def eligible_def)
  show ?thesis using wf ar t c mem st
    by (auto simp: sched_wf_def armed_def dest!: set_update_subset_insert[THEN subsetD])
qed

section \<open>Timing\<close>

text \<open>All live tasks are periodic with periods up to \<open>P\<close>, and none is late.\<close>

definition scheduled :: "mk_tcb \<Rightarrow> bool" where
  "scheduled t \<longleftrightarrow> tcb_state t = MK_TASK_STATE_READY \<or> tcb_state t = MK_TASK_STATE_SLEEPING"

definition on_time :: "nat \<Rightarrow> 'a sched_scheme \<Rightarrow> bool" where
  "on_time P s \<longleftrightarrow> sched_wf s \<and> armed s \<and> (\<forall>t \<in> set (tasks_of s).
     (scheduled t \<longrightarrow> 0 < unat (period_ticks t) \<and> unat (period_ticks t) \<le> P)
     \<and> (tcb_state t = MK_TASK_STATE_READY \<longrightarrow> tick_of s \<le> next_run_tick t)
     \<and> (tcb_state t = MK_TASK_STATE_SLEEPING \<longrightarrow> tick_of s < next_run_tick t))"

definition eligible_count :: "'a sched_scheme \<Rightarrow> nat" where
  "eligible_count s = length (filter (eligible (tick_of s)) (tasks_of s))"

lemma eligible_count_le: "sched_wf s \<Longrightarrow> eligible_count s \<le> 8"
  using length_filter_le[of "eligible (tick_of s)" "tasks_of s"] by (simp add: eligible_count_def sched_wf_def)

lemma filter_update_less:
  assumes "i < length xs" and "P (xs ! i)" and "\<not> P y"
  shows "length (filter P (xs[i := y])) < length (filter P xs)"
proof -
  have e: "xs = take i xs @ xs ! i # drop (Suc i) xs" using assms(1) by (rule id_take_nth_drop)
  have "xs[i := y] = take i xs @ y # drop (Suc i) xs" using assms(1) by (rule upd_conv_take_nth_drop)
  then have "length (filter P (xs[i := y])) = length (filter P (take i xs)) + length (filter P (drop (Suc i) xs))"
    using assms(3) by simp
  moreover have "length (filter P xs) = length (filter P (take i xs)) + Suc (length (filter P (drop (Suc i) xs)))"
    by (subst e) (use assms(2) in simp)
  ultimately show ?thesis by simp
qed

lemma eligible_count_zero:
  assumes "sched_wf s" and "eligible_count s = 0"
  shows "\<forall>i < 8. \<not> eligible (tick_of s) (tasks_of s ! i)"
  using assms by (auto simp: eligible_count_def sched_wf_def filter_empty_conv)

text \<open>The two kinds of iteration, on a timely state\<close>

lemma on_time_idle:
  assumes ot: "on_time P s" and n: "\<forall>i < 8. \<not> eligible (tick_of s) (tasks_of s ! i)"
    and room: "unat (tick_of s) + 1 < 2 ^ 32"
    and s'_def: "s' = mk_scheduler_run_iteration host exec clk s"
  shows "on_time P s'" and "tick_of s' = tick_of s + 1"
    and "map deadline_miss_count (tasks_of s') = map deadline_miss_count (tasks_of s)"
    and "map execution_count (tasks_of s') = map execution_count (tasks_of s)"
    and "map next_run_tick (tasks_of s') = map next_run_tick (tasks_of s)"
    and "map scheduled (tasks_of s') = map scheduled (tasks_of s)"
proof -
  have wf: "sched_wf s" using ot by (simp add: on_time_def)
  have len: "length (tasks_of s) = 8" using wf by (simp add: sched_wf_def)
  have t: "tasks_of s' = map (wake_task (tick_of s + 1)) (tasks_of s)"
    and k: "tick_of s' = tick_of s + 1" and c: "sc_cursor s' = sc_cursor s"
    unfolding s'_def using iteration_idle[OF wf n] by blast+
  have u: "unat (tick_of s + 1) = unat (tick_of s) + 1" using room by (simp add: unat_add_small)
  have late: "tick_of s + 1 \<le> next_run_tick x"
    if x: "x \<in> set (tasks_of s)" and st: "scheduled x" for x
  proof -
    have "\<not> eligible (tick_of s) x" using n x len by (auto simp: in_set_conv_nth)
    then have "tick_of s < next_run_tick x"
      using ot x st by (auto simp: on_time_def scheduled_def eligible_def)
    then show ?thesis using u by (simp add: word_less_nat_alt word_le_nat_alt)
  qed
  have w': "scheduled (wake_task m x) = scheduled x" for m x
    by (simp add: wake_task_def scheduled_def)
  show "tick_of s' = tick_of s + 1" by (rule k)
  show "on_time P s'"
    unfolding on_time_def t k
  proof (intro conjI ballI)
    show "sched_wf s'" using wf t c by (auto simp: sched_wf_def)
    show "armed s'" using ot t by (auto simp: on_time_def armed_def wake_task_def split: if_splits)
    fix y assume "y \<in> set (map (wake_task (tick_of s + 1)) (tasks_of s))"
    then obtain x where x: "x \<in> set (tasks_of s)" and y: "y = wake_task (tick_of s + 1) x" by auto
    show "scheduled y \<longrightarrow> 0 < unat (period_ticks y) \<and> unat (period_ticks y) \<le> P"
      using ot x y w' by (auto simp: on_time_def)
    show "tcb_state y = MK_TASK_STATE_READY \<longrightarrow> tick_of s + 1 \<le> next_run_tick y"
      using late[OF x] y by (auto simp: wake_task_def scheduled_def split: if_splits)
    show "tcb_state y = MK_TASK_STATE_SLEEPING \<longrightarrow> tick_of s + 1 < next_run_tick y"
      using y by (auto simp: wake_task_def split: if_splits)
  qed
  show "map deadline_miss_count (tasks_of s') = map deadline_miss_count (tasks_of s)"
    "map execution_count (tasks_of s') = map execution_count (tasks_of s)"
    "map next_run_tick (tasks_of s') = map next_run_tick (tasks_of s)"
    "map scheduled (tasks_of s') = map scheduled (tasks_of s)"
    by (simp_all add: t w')
qed

lemma on_time_busy:
  assumes ot: "on_time P s" and q: "quiet exec" and j: "j < 8" "eligible (tick_of s) (tasks_of s ! j)"
    and room: "unat (tick_of s) + P < 2 ^ 32"
    and s'_def: "s' = mk_scheduler_run_iteration host exec clk s"
  obtains i where "i < 8" and "eligible (tick_of s) (tasks_of s ! i)" and "on_time P s'" and "tick_of s' = tick_of s"
    and "map deadline_miss_count (tasks_of s') = map deadline_miss_count (tasks_of s)"
    and "execution_count (tasks_of s' ! i) = execution_count (tasks_of s ! i) + 1"
    and "\<And>k. k \<noteq> i \<Longrightarrow> tasks_of s' ! k = tasks_of s ! k"
    and "eligible_count s' < eligible_count s"
proof -
  have wf: "sched_wf s" and ar: "armed s" using ot by (simp_all add: on_time_def)
  have len: "length (tasks_of s) = 8" using wf by (simp add: sched_wf_def)
  obtain i where i: "i < 8" "candidate s i"
    and t: "tasks_of s' = (tasks_of s)[i := leave_task (tick_of s) (duration_us clk) (enter_task (tick_of s) (tasks_of s ! i))]"
    and k: "tick_of s' = tick_of s"
    unfolding s'_def by (rule iteration_busy[OF wf ar q j])
  let ?x = "tasks_of s ! i"
  let ?y = "leave_task (tick_of s) (duration_us clk) (enter_task (tick_of s) ?x)"
  have x: "?x \<in> set (tasks_of s)" using i(1) len by simp
  have e: "eligible (tick_of s) ?x" using i(2) by (simp add: candidate_def Let_def)
  have st: "tcb_state ?x = MK_TASK_STATE_READY" using e by (simp add: eligible_def)
  have pr: "0 < unat (period_ticks ?x)" "unat (period_ticks ?x) \<le> P" and due: "tick_of s \<le> next_run_tick ?x"
    using ot x st by (auto simp: on_time_def scheduled_def)
  have p0: "0 < period_ticks ?x" using pr(1) by (simp add: word_less_nat_alt)
  have u: "unat (tick_of s + period_ticks ?x) = unat (tick_of s) + unat (period_ticks ?x)"
    using pr room by (simp add: unat_add_small)
  have yst: "tcb_state ?y = MK_TASK_STATE_SLEEPING" "next_run_tick ?y = tick_of s + period_ticks ?x"
    using p0 by (simp_all add: leave_enter_schedule)
  have later: "tick_of s < next_run_tick ?y" using yst u pr(1) by (simp add: word_less_nat_alt)
  have miss: "deadline_miss_count ?y = deadline_miss_count ?x" using due by (simp add: enter_on_time)
  have ot': "on_time P s'"
    unfolding on_time_def t k
  proof (intro conjI ballI)
    show "sched_wf s'" "armed s'" unfolding s'_def using iteration_wf[OF wf ar q] by blast+
    fix z assume "z \<in> set ((tasks_of s)[i := ?y])"
    then have z: "z = ?y \<or> z \<in> set (tasks_of s)" using set_update_subset_insert by fastforce
    then show "scheduled z \<longrightarrow> 0 < unat (period_ticks z) \<and> unat (period_ticks z) \<le> P"
      using ot pr by (auto simp: on_time_def)
    show "tcb_state z = MK_TASK_STATE_READY \<longrightarrow> tick_of s \<le> next_run_tick z"
      and "tcb_state z = MK_TASK_STATE_SLEEPING \<longrightarrow> tick_of s < next_run_tick z"
      using z ot yst later by (auto simp: on_time_def)
  qed
  have "\<not> eligible (tick_of s) ?y" using yst by (simp add: eligible_def)
  then have less: "eligible_count s' < eligible_count s"
    unfolding eligible_count_def t k using i(1) len e by (intro filter_update_less) simp_all
  show ?thesis
    by (rule that[OF i(1) e ot' k _ _ _ less])
       (use t miss i(1) len in \<open>simp_all add: map_update list_update_same_conv\<close>)
qed

text \<open>A sequence of iterations, one per pair of clock readings\<close>

fun run_iterations :: "bool \<Rightarrow> 'a task_exec \<Rightarrow> (u64 \<times> u64) list \<Rightarrow> 'a sched_scheme \<Rightarrow> 'a sched_scheme" where
  "run_iterations host exec [] s = s"
| "run_iterations host exec (clk # clks) s = run_iterations host exec clks (mk_scheduler_run_iteration host exec clk s)"

lemma run_iterations_append:
  "run_iterations host exec (xs @ ys) s = run_iterations host exec ys (run_iterations host exec xs s)"
  by (induction xs arbitrary: s) auto

lemma iterations_on_time:
  assumes "on_time P s" and "quiet exec" and "unat (tick_of s) + length clks + P < 2 ^ 32"
    and "0 < P"
  shows "on_time P (run_iterations host exec clks s)
    \<and> map deadline_miss_count (tasks_of (run_iterations host exec clks s)) = map deadline_miss_count (tasks_of s)
    \<and> unat (tick_of (run_iterations host exec clks s)) \<le> unat (tick_of s) + length clks"
  using assms(1,3)
proof (induction clks arbitrary: s)
  case Nil
  then show ?case by simp
next
  case (Cons clk clks)
  define s' where "s' = mk_scheduler_run_iteration host exec clk s"
  have "on_time P s' \<and> map deadline_miss_count (tasks_of s') = map deadline_miss_count (tasks_of s)
      \<and> unat (tick_of s') \<le> unat (tick_of s) + 1"
  proof (cases "\<exists>j < 8. eligible (tick_of s) (tasks_of s ! j)")
    case False
    then have n: "\<forall>i < 8. \<not> eligible (tick_of s) (tasks_of s ! i)" by blast
    show ?thesis using on_time_idle[OF Cons.prems(1) n _ s'_def] Cons.prems(2) assms(4)
      by (simp add: unat_add_small)
  next
    case True
    then obtain j where j: "j < 8" "eligible (tick_of s) (tasks_of s ! j)" by blast
    have "unat (tick_of s) + P < 2 ^ 32" using Cons.prems(2) by simp
    then show ?thesis using on_time_busy[OF Cons.prems(1) assms(2) j _ s'_def] by (metis le_add1)
  qed
  then show ?case using Cons.IH[of s'] Cons.prems(2) by (auto simp: s'_def)
qed

text \<open>How long a scheduled task can still wait: nine iterations per tick, plus those ready now\<close>

definition wait_bound :: "nat \<Rightarrow> 'a sched_scheme \<Rightarrow> nat" where
  "wait_bound j s = 9 * (unat (next_run_tick (tasks_of s ! j)) - unat (tick_of s)) + eligible_count s"

lemma scheduled_due:
  assumes ot: "on_time P s" and j: "j < 8" "scheduled (tasks_of s ! j)"
  shows "unat (tick_of s) \<le> unat (next_run_tick (tasks_of s ! j))"
    and "tick_of s = next_run_tick (tasks_of s ! j) \<Longrightarrow> eligible (tick_of s) (tasks_of s ! j)"
proof -
  have x: "tasks_of s ! j \<in> set (tasks_of s)" using ot j(1) by (simp add: on_time_def sched_wf_def)
  then show "unat (tick_of s) \<le> unat (next_run_tick (tasks_of s ! j))"
    using ot j(2) by (auto simp: on_time_def scheduled_def word_le_nat_alt word_less_nat_alt)
  show "tick_of s = next_run_tick (tasks_of s ! j) \<Longrightarrow> eligible (tick_of s) (tasks_of s ! j)"
    using ot x j(2) by (auto simp: on_time_def scheduled_def eligible_def)
qed

lemma task_runs_within:
  assumes "on_time P s" and q: "quiet exec" and j: "j < 8" and "scheduled (tasks_of s ! j)"
    and "unat (next_run_tick (tasks_of s ! j)) + P < 2 ^ 32" and P: "0 < P" and "wait_bound j s \<le> length clks"
  shows "\<exists>n \<le> wait_bound j s.
      execution_count (tasks_of (run_iterations host exec (take n clks) s) ! j) = execution_count (tasks_of s ! j) + 1
      \<and> tick_of (run_iterations host exec (take n clks) s) = next_run_tick (tasks_of s ! j)"
  using assms(1,4,5,7)
proof (induction "wait_bound j s" arbitrary: s clks rule: less_induct)
  case less
  note ot = less.prems(1) and sch = less.prems(2)
  let ?x = "tasks_of s ! j"
  have due: "unat (tick_of s) \<le> unat (next_run_tick ?x)" by (rule scheduled_due[OF ot j sch])
  have len: "length (tasks_of s) = 8" using ot by (simp add: on_time_def sched_wf_def)
  have "wait_bound j s \<noteq> 0"
  proof
    assume z: "wait_bound j s = 0"
    then have "tick_of s = next_run_tick ?x" using due by (simp add: wait_bound_def word_unat_eq_iff)
    then show False
      using z eligible_count_zero[of s] scheduled_due(2)[OF ot j sch] ot j by (auto simp: wait_bound_def on_time_def)
  qed
  then obtain clk clks' where clks: "clks = clk # clks'" using less.prems(4) by (cases clks) auto
  define s' where "s' = mk_scheduler_run_iteration host exec clk s"
  have step: ?case
    if "wait_bound j s' < wait_bound j s" "on_time P s'" "scheduled (tasks_of s' ! j)"
      "next_run_tick (tasks_of s' ! j) = next_run_tick ?x"
      "execution_count (tasks_of s' ! j) = execution_count ?x"
  proof -
    note c = that
    obtain n where n: "n \<le> wait_bound j s'"
      "execution_count (tasks_of (run_iterations host exec (take n clks') s') ! j) = execution_count (tasks_of s' ! j) + 1"
      "tick_of (run_iterations host exec (take n clks') s') = next_run_tick (tasks_of s' ! j)"
      using less.hyps[OF c(1,2,3), of clks'] c(1,4) less.prems(3,4) clks by auto
    show ?thesis
      by (rule exI[of _ "Suc n"]) (use n c clks in \<open>auto simp: s'_def\<close>)
  qed
  show ?case
  proof (cases "\<exists>i < 8. eligible (tick_of s) (tasks_of s ! i)")
    case False
    then have none: "\<forall>i < 8. \<not> eligible (tick_of s) (tasks_of s ! i)" by blast
    then have lt: "unat (tick_of s) < unat (next_run_tick ?x)"
      using due j scheduled_due(2)[OF ot j sch] by (metis le_neq_implies_less word_unat_eq_iff)
    then have room: "unat (tick_of s) + 1 < 2 ^ 32" using less.prems(3) by linarith
    note id = on_time_idle[OF ot none room s'_def]
    have at_j: "f (tasks_of s' ! j) = f ?x" if "map f (tasks_of s') = map f (tasks_of s)" for f :: "mk_tcb \<Rightarrow> 'b"
      using that j len by (metis length_map nth_map)
    have "eligible_count s' \<le> 8" using id(1) by (simp add: on_time_def eligible_count_le)
    moreover have "unat (tick_of s') = unat (tick_of s) + 1" using id(2) room by (simp add: unat_add_small)
    ultimately have "wait_bound j s' < wait_bound j s"
      using lt at_j[OF id(5)] by (simp add: wait_bound_def)
    then show ?thesis using id(1) at_j[OF id(4)] at_j[OF id(5)] at_j[OF id(6)] sch by (intro step) simp_all
  next
    case True
    then obtain k where k: "k < 8" "eligible (tick_of s) (tasks_of s ! k)" by blast
    have room: "unat (tick_of s) + P < 2 ^ 32" using due less.prems(3) by linarith
    obtain i where i: "i < 8" "eligible (tick_of s) (tasks_of s ! i)" "on_time P s'" "tick_of s' = tick_of s"
      and ex: "execution_count (tasks_of s' ! i) = execution_count (tasks_of s ! i) + 1"
      and same: "\<And>k. k \<noteq> i \<Longrightarrow> tasks_of s' ! k = tasks_of s ! k"
      and dec: "eligible_count s' < eligible_count s"
      using on_time_busy[OF ot q k room s'_def] by metis
    show ?thesis
    proof (cases "i = j")
      case True
      have "next_run_tick ?x \<le> tick_of s" using i(2) True by (simp add: eligible_def)
      then have "tick_of s = next_run_tick ?x" using due by (simp add: word_le_nat_alt word_unat_eq_iff)
      then show ?thesis using \<open>wait_bound j s \<noteq> 0\<close> True ex i(4) clks
        by (intro exI[of _ 1]) (simp add: s'_def)
    next
      case False
      then have "tasks_of s' ! j = ?x" using same by simp
      then show ?thesis using dec i(3,4) sch by (intro step) (simp_all add: wait_bound_def)
    qed
  qed
qed

text \<open>A ready task without a period never lets the executive idle: the tick stands still.\<close>

lemma aperiodic_freezes:
  assumes "sched_wf s" and "armed s" and q: "quiet exec" and j: "j < 8"
    and "eligible (tick_of s) (tasks_of s ! j)" and "period_ticks (tasks_of s ! j) = 0"
  shows "tick_of (run_iterations host exec clks s) = tick_of s"
  using assms(1,2,5,6)
proof (induction clks arbitrary: s)
  case Nil
  then show ?case by simp
next
  case (Cons clk clks)
  define s' where "s' = mk_scheduler_run_iteration host exec clk s"
  have len: "length (tasks_of s) = 8" using Cons.prems(1) by (simp add: sched_wf_def)
  obtain i where t: "tasks_of s' = (tasks_of s)[i := leave_task (tick_of s) (duration_us clk) (enter_task (tick_of s) (tasks_of s ! i))]"
    and k: "tick_of s' = tick_of s" and i: "i < 8"
    using iteration_busy[OF Cons.prems(1,2) q j Cons.prems(3)] unfolding s'_def by metis
  have "eligible (tick_of s') (tasks_of s' ! j) \<and> period_ticks (tasks_of s' ! j) = 0"
    using Cons.prems(3,4) i len by (cases "i = j") (auto simp: t k eligible_def leave_enter_schedule)
  then show ?case
    using Cons.IH[of s'] iteration_wf[OF Cons.prems(1,2) q, of host clk] k by (simp add: s'_def)
qed

section \<open>Registration\<close>

lemma init_on_time: "on_time P (snd (mk_scheduler_init True s))"
  by (auto simp: mk_scheduler_init_def on_time_def sched_wf_def armed_def scheduled_def MK_MAX_TASKS_def
      mk_tcb_zero_def)

text \<open>Registering a periodic task keeps the task set timely: it is due now.\<close>

lemma register_on_time:
  assumes ot: "on_time P s" and per: "0 < unat period" "unat period \<le> P"
  shows "on_time P (snd (mk_task_register host True task_id name (Some e) ctx priority period s))"
proof (cases "unat task_id < 8")
  case False
  then show ?thesis using ot
    by (simp add: mk_task_register_def MK_MAX_TASKS_def on_time_def sched_wf_def armed_def)
next
  case True
  define f :: "mk_tcb \<Rightarrow> mk_tcb" where "f = (\<lambda>tcb. tcb\<lparr>
              tcb_id := task_id, tcb_state := MK_TASK_STATE_READY,
              tcb_priority := (if MK_TASK_PRIO_LOWEST < priority then MK_TASK_PRIO_LOWEST else priority),
              period_ticks := period, next_run_tick := k_tick (sc_kernel s),
              tcb_entry := Some e, tcb_context := ctx,
              execution_count := 0, fault_count := 0, last_execution_us := 0, worst_execution_us := 0,
              max_execution_us := MK_TASK_EXEC_BUDGET_US, deadline_miss_count := 0, overrun_count := 0,
              tcb_name := task_name (tcb_name tcb) name task_id\<rparr>)"
  let ?s = "snd (mk_task_register host True task_id name (Some e) ctx priority period s)"
  have r: "?s = update_task (unat task_id) f s"
    using True by (simp add: mk_task_register_def MK_MAX_TASKS_def f_def)
  have t: "tasks_of ?s = (tasks_of s)[unat task_id := f (tasks_of s ! unat task_id)]"
    and k: "tick_of ?s = tick_of s" "sc_cursor ?s = sc_cursor s"
    by (simp_all add: r update_task_def Let_def)
  have mem: "y \<in> set (tasks_of ?s) \<Longrightarrow> y = f (tasks_of s ! unat task_id) \<or> y \<in> set (tasks_of s)" for y
    unfolding t using set_update_subset_insert by fastforce
  show ?thesis
    unfolding on_time_def
  proof (intro conjI ballI)
    show "sched_wf ?s"
      using ot mem k by (auto simp: on_time_def sched_wf_def t f_def dest!: set_update_subset_insert[THEN subsetD])
    show "armed ?s" unfolding armed_def using ot mem by (fastforce simp: on_time_def armed_def f_def)
    fix y assume "y \<in> set (tasks_of ?s)"
    note y = mem[OF this]
    show "scheduled y \<longrightarrow> 0 < unat (period_ticks y) \<and> unat (period_ticks y) \<le> P"
      using y ot per by (auto simp: on_time_def f_def)
    show "tcb_state y = MK_TASK_STATE_READY \<longrightarrow> tick_of ?s \<le> next_run_tick y"
      and "tcb_state y = MK_TASK_STATE_SLEEPING \<longrightarrow> tick_of ?s < next_run_tick y"
      using y ot k by (auto simp: on_time_def f_def)
  qed
qed

section \<open>Properties\<close>

text \<open>C22. \<open>mk_scheduler_select_next\<close> returns no task exactly when none is eligible; otherwise
  an eligible task of the highest priority, the first such from the round-robin cursor on, and
  the cursor moves behind it.\<close>

theorem select_next_correct:
  assumes "sched_wf s"
  shows "(fst (mk_scheduler_select_next s) = None \<longleftrightarrow> (\<forall>i < 8. \<not> eligible (tick_of s) (tasks_of s ! i)))
    \<and> (\<forall>i. fst (mk_scheduler_select_next s) = Some i \<longrightarrow>
         eligible (tick_of s) (tasks_of s ! i)
         \<and> (\<forall>j < 8. eligible (tick_of s) (tasks_of s ! j) \<longrightarrow> tcb_priority (tasks_of s ! i) \<le> tcb_priority (tasks_of s ! j))
         \<and> (\<exists>d < 8. i = (unat (sc_cursor s) + d) mod 8
              \<and> (\<forall>e < d. \<not> (eligible (tick_of s) (tasks_of s ! ((unat (sc_cursor s) + e) mod 8))
                           \<and> tcb_priority (tasks_of s ! ((unat (sc_cursor s) + e) mod 8)) = tcb_priority (tasks_of s ! i))))
         \<and> unat (sc_cursor (snd (mk_scheduler_select_next s))) = (i + 1) mod 8)"
proof (cases "\<forall>i < 8. \<not> eligible (tick_of s) (tasks_of s ! i)")
  case True
  then show ?thesis using select_next_none[OF assms True] by simp
next
  case False
  then have ex: "\<exists>i < 8. candidate s i" using candidate_exists[OF assms] by blast
  obtain d where d: "d < 8" "candidate s ((unat (sc_cursor s) + d) mod 8)"
    and f: "\<And>e. e < d \<Longrightarrow> \<not> candidate s ((unat (sc_cursor s) + e) mod 8)"
    and r: "mk_scheduler_select_next s = (Some ((unat (sc_cursor s) + d) mod 8),
          s\<lparr>sc_cursor := of_nat (((unat (sc_cursor s) + d) mod 8 + 1) mod 8)\<rparr>)"
    using select_next_some[OF assms ex] by metis
  let ?i = "(unat (sc_cursor s) + d) mod 8"
  have best: "tcb_priority (tasks_of s ! ?i) = best_priority (tick_of s) (tasks_of s)"
    using candidate_iff[OF assms, of ?i] d(2) by simp
  have "\<not> (eligible (tick_of s) (tasks_of s ! ((unat (sc_cursor s) + e) mod 8))
      \<and> tcb_priority (tasks_of s ! ((unat (sc_cursor s) + e) mod 8)) = tcb_priority (tasks_of s ! ?i))" if "e < d" for e
    using f[OF that] candidate_iff[OF assms, of "(unat (sc_cursor s) + e) mod 8"] best by simp
  moreover have "unat (sc_cursor (snd (mk_scheduler_select_next s))) = (?i + 1) mod 8"
    using cursor_next[of ?i] by (simp add: r)
  ultimately show ?thesis using d r False by (auto simp: candidate_def Let_def)
qed

definition demo_sched :: sched where
  "demo_sched = \<lparr>sc_kernel = mk_kernel_zero, sc_cursor = 0, sc_fm = fault_manager_static\<rparr>"

definition demo_tasks :: sched where
  "demo_tasks =
     snd (mk_task_register False True 4 (Some ''retro_games'') (Some 3) 0 MK_TASK_PRIO_LOWEST 2
       (snd (mk_task_register False True 1 (Some ''ble_hid'') (Some 2) 0 MK_TASK_PRIO_HIGH 1
         (snd (mk_scheduler_init True demo_sched)))))"

lemma demo_on_time: "on_time 2 demo_tasks"
  unfolding demo_tasks_def by (intro register_on_time init_on_time) simp_all

lemma demo_task_1: "tcb_state (tasks_of demo_tasks ! 1) = MK_TASK_STATE_READY"
  "next_run_tick (tasks_of demo_tasks ! 1) = 0" "tick_of demo_tasks = 0"
  "tcb_priority (tasks_of demo_tasks ! 1) = 2" "sc_cursor demo_tasks = 0"
  by (simp_all add: demo_tasks_def demo_sched_def mk_task_register_def mk_scheduler_init_def update_task_def
      MK_MAX_TASKS_def MK_TASK_PRIO_LOWEST_def MK_TASK_PRIO_HIGH_def mk_kernel_zero_def upt_rec)

theorem select_next_correct_witness:
  "fst (mk_scheduler_select_next demo_tasks) \<noteq> None"
  using select_next_correct[of demo_tasks] demo_on_time demo_task_1
  by (auto simp: on_time_def eligible_def)

text \<open>C21. A task that stays eligible at the highest priority is selected within eight selections,
  whatever else happens between them: the cursor is private to the scheduler.\<close>

theorem scheduler_fair:
  assumes "j < 8" and "\<And>n. n \<le> 7 \<Longrightarrow> sched_wf (ss n) \<and> candidate (ss n) j"
    and "\<And>n. n < 7 \<Longrightarrow> sc_cursor (ss (Suc n)) = sc_cursor (snd (mk_scheduler_select_next (ss n)))"
  shows "\<exists>n \<le> 7. fst (mk_scheduler_select_next (ss n)) = Some j"
proof -
  have c: "unat (sc_cursor (ss 0)) < 8" using assms(2)[of 0] by (simp add: sched_wf_def)
  let ?D = "(j + 8 - unat (sc_cursor (ss 0))) mod 8"
  have D: "?D < 8" by simp
  have "\<exists>n \<le> ?D. fst (mk_scheduler_select_next (ss n)) = Some j"
  proof (rule select_fair)
    show "j = (unat (sc_cursor (ss 0)) + ?D) mod 8" using rotation_surj[OF c assms(1)] by simp
    show "?D < 8" by (rule D)
    fix n
    show "n \<le> ?D \<Longrightarrow> sched_wf (ss n) \<and> candidate (ss n) j" using D by (intro assms(2)) linarith
    show "n < ?D \<Longrightarrow> sc_cursor (ss (Suc n)) = sc_cursor (snd (mk_scheduler_select_next (ss n)))"
      using D by (intro assms(3)) linarith
  qed
  then obtain n where "n \<le> ?D" "fst (mk_scheduler_select_next (ss n)) = Some j" by blast
  then show ?thesis using D by (intro exI[of _ n] conjI) linarith+
qed

lemma register_priorities:
  "tcb_priority ` set (tasks_of s) \<subseteq> A \<Longrightarrow> priority \<in> A \<Longrightarrow> MK_TASK_PRIO_LOWEST \<in> A \<Longrightarrow>
   tcb_priority ` set (tasks_of (snd (mk_task_register host p i name e ctx priority period s))) \<subseteq> A"
  by (auto simp: mk_task_register_def update_task_def Let_def dest!: set_update_subset_insert[THEN subsetD])

lemma demo_priorities: "tcb_priority ` set (tasks_of demo_tasks) \<subseteq> {MK_TASK_PRIO_HIGH, MK_TASK_PRIO_LOWEST}"
  unfolding demo_tasks_def
  by (intro register_priorities) (auto simp: mk_scheduler_init_def)

lemma demo_candidate: "candidate (demo_tasks\<lparr>sc_cursor := c\<rparr>) 1"
proof -
  have "2 \<le> tcb_priority (tasks_of demo_tasks ! j)" if "j < 8" for j
  proof -
    have "tasks_of demo_tasks ! j \<in> set (tasks_of demo_tasks)"
      using that demo_on_time by (simp add: on_time_def sched_wf_def)
    then have "tcb_priority (tasks_of demo_tasks ! j) \<in> {MK_TASK_PRIO_HIGH, MK_TASK_PRIO_LOWEST}"
      using demo_priorities by blast
    then show ?thesis by (auto simp: MK_TASK_PRIO_HIGH_def MK_TASK_PRIO_LOWEST_def)
  qed
  then show ?thesis using demo_task_1 by (simp add: candidate_def Let_def eligible_def)
qed

theorem scheduler_fair_witness:
  "\<exists>n \<le> 7. fst (mk_scheduler_select_next (((\<lambda>s. snd (mk_scheduler_select_next s)) ^^ n) demo_tasks)) = Some 1"
proof (rule scheduler_fair)
  have c0: "candidate demo_tasks 1" using demo_candidate[of 0] by (simp add: candidate_def)
  have "sched_wf demo_tasks" using demo_on_time by (simp add: on_time_def)
  then have "sched_wf (((\<lambda>s. snd (mk_scheduler_select_next s)) ^^ n) demo_tasks)
      \<and> sc_kernel (((\<lambda>s. snd (mk_scheduler_select_next s)) ^^ n) demo_tasks) = sc_kernel demo_tasks" for n
    by (induction n) (auto simp: select_next_keeps)
  then show "sched_wf (((\<lambda>s. snd (mk_scheduler_select_next s)) ^^ n) demo_tasks)
      \<and> candidate (((\<lambda>s. snd (mk_scheduler_select_next s)) ^^ n) demo_tasks) 1" for n
    using c0 by (simp add: candidate_def)
qed simp_all

text \<open>C8. If all tasks are periodic and their bodies leave the task table, the tick and the
  cursor alone, no task ever misses its deadline, however long the bodies take, as long as the
  32-bit tick does not wrap.\<close>

theorem no_deadline_miss:
  assumes "on_time P s" and "quiet exec" and "unat (tick_of s) + length clks + P < 2 ^ 32" and "0 < P"
  shows "map deadline_miss_count (tasks_of (run_iterations host exec clks s)) = map deadline_miss_count (tasks_of s)"
  using iterations_on_time[OF assms] by blast

theorem no_deadline_miss_witness:
  "map deadline_miss_count (tasks_of (run_iterations False (\<lambda>e c s. s) (replicate 1000 (0, 90000)) demo_tasks))
     = map deadline_miss_count (tasks_of demo_tasks)"
  by (rule no_deadline_miss[OF demo_on_time]) (simp_all add: quiet_def demo_task_1)

text \<open>C20. Under the same conditions every ready or sleeping task runs, at exactly the tick it
  is due, within nine iterations for each tick until then and one for each task ready now.\<close>

theorem periodic_task_runs:
  assumes "on_time P s" and "quiet exec" and "j < 8" and "scheduled (tasks_of s ! j)"
    and "unat (next_run_tick (tasks_of s ! j)) + P < 2 ^ 32" and "0 < P"
    and "9 * (unat (next_run_tick (tasks_of s ! j)) - unat (tick_of s)) + 8 \<le> length clks"
  shows "\<exists>n \<le> length clks.
      execution_count (tasks_of (run_iterations host exec (take n clks) s) ! j) = execution_count (tasks_of s ! j) + 1
      \<and> tick_of (run_iterations host exec (take n clks) s) = next_run_tick (tasks_of s ! j)"
proof -
  have "eligible_count s \<le> 8" using assms(1) by (simp add: on_time_def eligible_count_le)
  then have "wait_bound j s \<le> length clks" using assms(7) by (simp add: wait_bound_def)
  then show ?thesis using task_runs_within[OF assms(1-6), of clks host] by (meson le_trans)
qed

theorem periodic_task_runs_witness:
  "\<exists>n \<le> 8. execution_count (tasks_of (run_iterations False (\<lambda>e c s. s) (take n (replicate 8 (0, 10))) demo_tasks) ! 1)
     = execution_count (tasks_of demo_tasks ! 1) + 1"
  using periodic_task_runs[OF demo_on_time, of "\<lambda>e c s. s" 1 "replicate 8 (0, 10)" False] demo_task_1
  by (auto simp: quiet_def scheduled_def)

text \<open>One ready task registered with period 0 stops the clock: the tick is only advanced when
  the executive idles, so no sleeping task is woken again.\<close>

theorem aperiodic_task_stops_tick:
  assumes "sched_wf s" and "armed s" and "quiet exec" and "j < 8"
    and "eligible (tick_of s) (tasks_of s ! j)" and "period_ticks (tasks_of s ! j) = 0"
  shows "tick_of (run_iterations host exec clks s) = tick_of s"
  using assms by (rule aperiodic_freezes)

definition demo_aperiodic :: sched where
  "demo_aperiodic = snd (mk_task_register False True 2 None (Some 9) 0 MK_TASK_PRIO_LOW 0 demo_tasks)"

theorem aperiodic_task_stops_tick_witness:
  "tick_of (run_iterations False (\<lambda>e c s. s) (replicate 500 (0, 10)) demo_aperiodic) = tick_of demo_aperiodic"
proof -
  have len: "length (tasks_of demo_tasks) = 8" and wf: "sched_wf demo_tasks" and ar: "armed demo_tasks"
    using demo_on_time by (simp_all add: on_time_def sched_wf_def)
  have k: "tasks_of demo_aperiodic ! 2 = x \<Longrightarrow> tcb_state x = MK_TASK_STATE_READY \<and> next_run_tick x = 0 \<and> period_ticks x = 0" for x
    using len demo_task_1
    by (auto simp: demo_aperiodic_def mk_task_register_def update_task_def Let_def MK_MAX_TASKS_def)
  have "sched_wf demo_aperiodic \<and> armed demo_aperiodic"
    using wf ar len
    by (auto simp: demo_aperiodic_def mk_task_register_def update_task_def Let_def MK_MAX_TASKS_def sched_wf_def
        armed_def MK_TASK_PRIO_LOWEST_def MK_TASK_PRIO_LOW_def dest!: set_update_subset_insert[THEN subsetD])
  moreover have "eligible (tick_of demo_aperiodic) (tasks_of demo_aperiodic ! 2)"
    using k by (simp add: eligible_def)
  ultimately show ?thesis
    using k by (intro aperiodic_task_stops_tick[where j = 2]) (auto simp: quiet_def)
qed

end
