(* ===== verification/State_Machine.thy ===== *)
theory State_Machine
  imports Fault_Manager
begin

text \<open>
  \<^verbatim>\<open>os/kernel/state_machine.c\<close>: the transition matrices of the kernel and of the applications, and
  the two operations that move a state along them or record a fault. A \<open>kernel\<close> pointer argument
  is a flag (it is not NULL) and the control block it points to.
\<close>

section \<open>Transition matrices\<close>

definition s_kernel_transition_matrix :: "bool list list" where
  "s_kernel_transition_matrix =
    [[False, True,  False, False, False, False, True],
     [False, False, True,  False, False, True,  True],
     [False, False, False, True,  False, True,  True],
     [False, False, True,  False, True,  True,  True],
     [False, False, False, True,  False, True,  True],
     [False, False, False, False, False, False, True],
     [False, False, False, False, False, False, False]]"

definition s_app_transition_matrix :: "bool list list" where
  "s_app_transition_matrix =
    [[False, True,  False, False, False, False],
     [False, False, True,  False, False, True],
     [True,  False, False, True,  False, False],
     [False, False, False, False, True,  True],
     [False, False, True,  False, False, True],
     [False, True,  False, False, False, False]]"

definition mk_state_validate_kernel_transition :: "mk_kernel_state \<Rightarrow> mk_kernel_state \<Rightarrow> bool" where
  "mk_state_validate_kernel_transition from to =
     (if kernel_state_ord MK_KERNEL_STATE_COUNT \<le> kernel_state_ord from
         \<or> kernel_state_ord MK_KERNEL_STATE_COUNT \<le> kernel_state_ord to
      then False
      else s_kernel_transition_matrix ! kernel_state_ord from ! kernel_state_ord to)"

definition mk_state_validate_app_transition :: "mk_app_state \<Rightarrow> mk_app_state \<Rightarrow> bool" where
  "mk_state_validate_app_transition from to =
     (if app_state_ord MK_APP_STATE_COUNT \<le> app_state_ord from
         \<or> app_state_ord MK_APP_STATE_COUNT \<le> app_state_ord to
      then False
      else s_app_transition_matrix ! app_state_ord from ! app_state_ord to)"

section \<open>Transitions\<close>

definition mk_kernel_transition ::
  "u32 option \<Rightarrow> bool \<Rightarrow> mk_kernel_state \<Rightarrow> mk_kernel \<times> fault_manager \<Rightarrow>
   mk_status \<times> mk_kernel \<times> fault_manager" where
  "mk_kernel_transition now kernel_ptr new_state s =
     (case s of (k, fm) \<Rightarrow>
      if \<not> kernel_ptr then (MK_STATUS_INVALID_ARG, k, fm)
      else if \<not> mk_state_validate_kernel_transition (k_state k) new_state
      then (MK_STATUS_INVALID_STATE, k,
            mk_fault_record_full now MK_FAULT_STATE_INVALID_TRANSITION MK_FAULT_SRC_STATE
              MK_FAULT_SEV_CRITICAL
              (push_bit 16 (of_nat (kernel_state_ord (k_state k))) OR of_nat (kernel_state_ord new_state))
              0 fm)
      else (MK_STATUS_OK, k\<lparr>k_state := new_state\<rparr>, fm))"

definition app_fault_source :: "mk_app_id \<Rightarrow> mk_fault_source" where
  "app_fault_source aid =
     (if aid = MK_APP_BLE_HID then MK_FAULT_SRC_BLE
      else if aid = MK_APP_WIFI_DIAGNOSTICS then MK_FAULT_SRC_WIFI
      else if aid = MK_APP_NETWORK_DIAGNOSTICS then MK_FAULT_SRC_NETWORK
      else MK_FAULT_SRC_DISPLAY)"

definition mk_app_transition ::
  "u32 option \<Rightarrow> bool \<Rightarrow> mk_app_id \<Rightarrow> mk_app_state \<Rightarrow> mk_kernel \<times> fault_manager \<Rightarrow>
   mk_status \<times> mk_kernel \<times> fault_manager" where
  "mk_app_transition now kernel_ptr aid new_state s =
     (case s of (k, fm) \<Rightarrow>
      if \<not> kernel_ptr \<or> app_id_ord MK_APP_COUNT \<le> app_id_ord aid then (MK_STATUS_INVALID_ARG, k, fm)
      else let app = k_apps k ! app_id_ord aid
           in if \<not> mk_state_validate_app_transition (app_state app) new_state
              then (MK_STATUS_INVALID_STATE, k,
                    mk_fault_record_full now MK_FAULT_STATE_INVALID_TRANSITION (app_fault_source aid)
                      MK_FAULT_SEV_WARNING
                      (push_bit 16 (of_nat (app_state_ord (app_state app))) OR of_nat (app_state_ord new_state))
                      (of_nat (app_id_ord aid)) fm)
              else (MK_STATUS_OK,
                    k\<lparr>k_apps := (k_apps k)[app_id_ord aid := app\<lparr>app_state := new_state\<rparr>]\<rparr>, fm))"

fun mk_kernel_state_to_str :: "mk_kernel_state \<Rightarrow> string" where
  "mk_kernel_state_to_str MK_KERNEL_STATE_RESET = ''RESET''"
| "mk_kernel_state_to_str MK_KERNEL_STATE_INIT = ''INIT''"
| "mk_kernel_state_to_str MK_KERNEL_STATE_READY = ''READY''"
| "mk_kernel_state_to_str MK_KERNEL_STATE_RUNNING = ''RUNNING''"
| "mk_kernel_state_to_str MK_KERNEL_STATE_SLEEPING = ''SLEEPING''"
| "mk_kernel_state_to_str MK_KERNEL_STATE_FAULT = ''FAULT''"
| "mk_kernel_state_to_str MK_KERNEL_STATE_SHUTDOWN = ''SHUTDOWN''"
| "mk_kernel_state_to_str MK_KERNEL_STATE_COUNT = ''UNKNOWN''"

fun mk_app_state_to_str :: "mk_app_state \<Rightarrow> string" where
  "mk_app_state_to_str MK_APP_STATE_OFF = ''OFF''"
| "mk_app_state_to_str MK_APP_STATE_INIT = ''INIT''"
| "mk_app_state_to_str MK_APP_STATE_READY = ''READY''"
| "mk_app_state_to_str MK_APP_STATE_ACTIVE = ''ACTIVE''"
| "mk_app_state_to_str MK_APP_STATE_STOPPING = ''STOPPING''"
| "mk_app_state_to_str MK_APP_STATE_ERROR = ''ERROR''"
| "mk_app_state_to_str MK_APP_STATE_COUNT = ''UNKNOWN''"

section \<open>The lifecycles as step relations\<close>

text \<open>The kernel lifecycle read from the architecture: forward through initialisation, between
  READY, RUNNING and SLEEPING while it works, into FAULT, and to SHUTDOWN from anywhere else.\<close>

inductive kernel_step :: "mk_kernel_state \<Rightarrow> mk_kernel_state \<Rightarrow> bool" where
  boot: "kernel_step MK_KERNEL_STATE_RESET MK_KERNEL_STATE_INIT"
| ready: "kernel_step MK_KERNEL_STATE_INIT MK_KERNEL_STATE_READY"
| run: "kernel_step MK_KERNEL_STATE_READY MK_KERNEL_STATE_RUNNING"
| yield: "kernel_step MK_KERNEL_STATE_RUNNING MK_KERNEL_STATE_READY"
| sleep: "kernel_step MK_KERNEL_STATE_RUNNING MK_KERNEL_STATE_SLEEPING"
| wake: "kernel_step MK_KERNEL_STATE_SLEEPING MK_KERNEL_STATE_RUNNING"
| fault: "s \<in> {MK_KERNEL_STATE_INIT, MK_KERNEL_STATE_READY, MK_KERNEL_STATE_RUNNING,
           MK_KERNEL_STATE_SLEEPING} \<Longrightarrow> kernel_step s MK_KERNEL_STATE_FAULT"
| shutdown: "s \<noteq> MK_KERNEL_STATE_SHUTDOWN \<Longrightarrow> s \<noteq> MK_KERNEL_STATE_COUNT \<Longrightarrow>
    kernel_step s MK_KERNEL_STATE_SHUTDOWN"

inductive app_step :: "mk_app_state \<Rightarrow> mk_app_state \<Rightarrow> bool" where
  app_init: "app_step MK_APP_STATE_OFF MK_APP_STATE_INIT"
| app_ready: "app_step MK_APP_STATE_INIT MK_APP_STATE_READY"
| app_off: "app_step MK_APP_STATE_READY MK_APP_STATE_OFF"
| app_launch: "app_step MK_APP_STATE_READY MK_APP_STATE_ACTIVE"
| app_stop: "app_step MK_APP_STATE_ACTIVE MK_APP_STATE_STOPPING"
| app_stopped: "app_step MK_APP_STATE_STOPPING MK_APP_STATE_READY"
| app_error: "s \<in> {MK_APP_STATE_INIT, MK_APP_STATE_ACTIVE, MK_APP_STATE_STOPPING} \<Longrightarrow>
    app_step s MK_APP_STATE_ERROR"
| app_recover: "app_step MK_APP_STATE_ERROR MK_APP_STATE_INIT"

inductive_simps kernel_step_simps [simp]:
  "kernel_step MK_KERNEL_STATE_RESET t" "kernel_step MK_KERNEL_STATE_INIT t"
  "kernel_step MK_KERNEL_STATE_READY t" "kernel_step MK_KERNEL_STATE_RUNNING t"
  "kernel_step MK_KERNEL_STATE_SLEEPING t" "kernel_step MK_KERNEL_STATE_FAULT t"
  "kernel_step MK_KERNEL_STATE_SHUTDOWN t" "kernel_step MK_KERNEL_STATE_COUNT t"

inductive_simps app_step_simps [simp]:
  "app_step MK_APP_STATE_OFF t" "app_step MK_APP_STATE_INIT t" "app_step MK_APP_STATE_READY t"
  "app_step MK_APP_STATE_ACTIVE t" "app_step MK_APP_STATE_STOPPING t"
  "app_step MK_APP_STATE_ERROR t" "app_step MK_APP_STATE_COUNT t"

inductive_cases kernel_step_from_fault: "kernel_step MK_KERNEL_STATE_FAULT t"
inductive_cases kernel_step_from_shutdown: "kernel_step MK_KERNEL_STATE_SHUTDOWN t"

lemma validate_kernel_iff: "mk_state_validate_kernel_transition s t \<longleftrightarrow> kernel_step s t"
  by (cases s; cases t) (simp_all add: mk_state_validate_kernel_transition_def s_kernel_transition_matrix_def)

lemma validate_app_iff: "mk_state_validate_app_transition s t \<longleftrightarrow> app_step s t"
  by (cases s; cases t) (simp_all add: mk_state_validate_app_transition_def s_app_transition_matrix_def)

section \<open>Runs of requests\<close>

text \<open>A history of transition requests on the kernel control block, with the answers\<close>

fun kernel_requests ::
  "u32 option \<Rightarrow> mk_kernel_state list \<Rightarrow> mk_kernel \<times> fault_manager \<Rightarrow>
   mk_status list \<times> mk_kernel \<times> fault_manager" where
  "kernel_requests now [] s = ([], s)"
| "kernel_requests now (t # ts) s =
     (let (st, s1) = mk_kernel_transition now True t s; (sts, s2) = kernel_requests now ts s1
      in (st # sts, s2))"

fun app_requests ::
  "u32 option \<Rightarrow> (mk_app_id \<times> mk_app_state) list \<Rightarrow> mk_kernel \<times> fault_manager \<Rightarrow>
   mk_status list \<times> mk_kernel \<times> fault_manager" where
  "app_requests now [] s = ([], s)"
| "app_requests now ((i, t) # ts) s =
     (let (st, s1) = mk_app_transition now True i t s; (sts, s2) = app_requests now ts s1
      in (st # sts, s2))"

lemma kernel_transition_cases:
  "mk_kernel_transition now True t (k, fm) =
    (if kernel_step (k_state k) t then (MK_STATUS_OK, k\<lparr>k_state := t\<rparr>, fm)
     else (MK_STATUS_INVALID_STATE, k,
       mk_fault_record_full now MK_FAULT_STATE_INVALID_TRANSITION MK_FAULT_SRC_STATE
         MK_FAULT_SEV_CRITICAL
         (push_bit 16 (of_nat (kernel_state_ord (k_state k))) OR of_nat (kernel_state_ord t)) 0 fm))"
  by (simp add: mk_kernel_transition_def validate_kernel_iff)

lemma kernel_requests_path:
  assumes "kernel_requests now ts (k, fm) = (sts, k', fm')"
  shows "kernel_step\<^sup>*\<^sup>* (k_state k) (k_state k')"
  using assms
proof (induction ts arbitrary: k fm sts)
  case Nil
  then show ?case by simp
next
  case (Cons t ts)
  then obtain st k1 fm1 sts1 where step: "mk_kernel_transition now True t (k, fm) = (st, k1, fm1)"
    and rest: "kernel_requests now ts (k1, fm1) = (sts1, k', fm')"
    by (auto split: prod.splits)
  have "kernel_step\<^sup>*\<^sup>* (k_state k) (k_state k1)"
    using step by (auto simp: kernel_transition_cases split: if_splits)
  then show ?case using Cons.IH[OF rest] by simp
qed

text \<open>Every rejected request is recorded once, an accepted one never.\<close>

lemma kernel_requests_faults:
  assumes "kernel_requests now ts (k, fm) = (sts, k', fm')" and "fm_initialized fm"
  shows "fm_initialized fm' \<and> set sts \<subseteq> {MK_STATUS_OK, MK_STATUS_INVALID_STATE} \<and>
    fm_total_faults fm' = fm_total_faults fm + of_nat (count_list sts MK_STATUS_INVALID_STATE)"
  using assms
proof (induction ts arbitrary: k fm sts)
  case Nil
  then show ?case by simp
next
  case (Cons t ts)
  from Cons.prems(1) obtain st k1 fm1 sts1 where
    step: "mk_kernel_transition now True t (k, fm) = (st, k1, fm1)"
    and rest: "kernel_requests now ts (k1, fm1) = (sts1, k', fm')" and sts: "sts = st # sts1"
    by (auto split: prod.splits)
  have "fm_initialized fm1 \<and> st \<in> {MK_STATUS_OK, MK_STATUS_INVALID_STATE} \<and>
      fm_total_faults fm1 = fm_total_faults fm + (if st = MK_STATUS_INVALID_STATE then 1 else 0)"
    using step Cons.prems(2)
    by (auto simp: kernel_transition_cases fm_total_record split: if_splits)
  then show ?case using Cons.IH[OF rest] sts by auto
qed

text \<open>What is reachable: nothing leaves SHUTDOWN, a faulted kernel only shuts down.\<close>

lemma shutdown_absorbing: "kernel_step\<^sup>*\<^sup>* MK_KERNEL_STATE_SHUTDOWN t \<Longrightarrow> t = MK_KERNEL_STATE_SHUTDOWN"
  by (induction rule: rtranclp_induct) auto

lemma fault_reaches:
  "kernel_step\<^sup>*\<^sup>* MK_KERNEL_STATE_FAULT t \<Longrightarrow> t \<in> {MK_KERNEL_STATE_FAULT, MK_KERNEL_STATE_SHUTDOWN}"
  by (induction rule: rtranclp_induct) auto

text \<open>One application: its state moves along \<open>app_step\<close>, the other applications and the kernel
  state stay.\<close>

lemma app_transition_cases:
  assumes "i \<noteq> MK_APP_COUNT"
  shows "mk_app_transition now True i t (k, fm) =
    (if app_step (app_state (k_apps k ! app_id_ord i)) t
     then (MK_STATUS_OK, k\<lparr>k_apps := (k_apps k)[app_id_ord i := (k_apps k ! app_id_ord i)\<lparr>app_state := t\<rparr>]\<rparr>, fm)
     else (MK_STATUS_INVALID_STATE, k,
       mk_fault_record_full now MK_FAULT_STATE_INVALID_TRANSITION (app_fault_source i)
         MK_FAULT_SEV_WARNING
         (push_bit 16 (of_nat (app_state_ord (app_state (k_apps k ! app_id_ord i)))) OR of_nat (app_state_ord t))
         (of_nat (app_id_ord i)) fm))"
  using assms by (cases i) (simp_all add: mk_app_transition_def validate_app_iff Let_def)

lemma app_id_ord_less: "i \<noteq> MK_APP_COUNT \<Longrightarrow> app_id_ord i < 4"
  by (cases i) simp_all

lemma app_id_ord_inj: "app_id_ord i = app_id_ord j \<Longrightarrow> i = j"
  by (cases i; cases j) simp_all

lemma app_requests_path:
  assumes "app_requests now ts (k, fm) = (sts, k', fm')" and "length (k_apps k) = 4"
  shows "length (k_apps k') = 4 \<and> k_state k' = k_state k \<and>
    (\<forall>j<4. app_step\<^sup>*\<^sup>* (app_state (k_apps k ! j)) (app_state (k_apps k' ! j)))"
  using assms
proof (induction ts arbitrary: k fm sts)
  case Nil
  then show ?case by simp
next
  case (Cons it ts)
  obtain i t where it: "it = (i, t)" by (cases it)
  from Cons.prems(1) it obtain st k1 fm1 sts1 where
    step: "mk_app_transition now True i t (k, fm) = (st, k1, fm1)"
    and rest: "app_requests now ts (k1, fm1) = (sts1, k', fm')"
    by (auto split: prod.splits)
  have "length (k_apps k1) = 4 \<and> k_state k1 = k_state k \<and>
      (\<forall>j<4. app_step\<^sup>*\<^sup>* (app_state (k_apps k ! j)) (app_state (k_apps k1 ! j)))"
  proof (cases "i = MK_APP_COUNT")
    case True
    then show ?thesis using step Cons.prems(2) by (auto simp: mk_app_transition_def)
  next
    case False
    then show ?thesis using step Cons.prems(2) app_id_ord_less[OF False]
      by (auto simp: app_transition_cases nth_list_update split: if_splits)
  qed
  then show ?case using Cons.IH[OF rest] by simp (meson rtranclp_trans)
qed

section \<open>Properties\<close>



text \<open>SHUTDOWN is final: every further request is rejected and the state stays. From FAULT only
  SHUTDOWN can be reached.\<close>

theorem kernel_terminal_states:
  assumes "kernel_requests now ts (k, fm) = (sts, k', fm')"
  shows "(k_state k = MK_KERNEL_STATE_SHUTDOWN \<longrightarrow>
           k_state k' = MK_KERNEL_STATE_SHUTDOWN \<and> (\<forall>st \<in> set sts. st = MK_STATUS_INVALID_STATE))
    \<and> (k_state k = MK_KERNEL_STATE_FAULT \<longrightarrow> k_state k' \<in> {MK_KERNEL_STATE_FAULT, MK_KERNEL_STATE_SHUTDOWN})"
proof (intro conjI impI)
  assume k: "k_state k = MK_KERNEL_STATE_SHUTDOWN"
  show "k_state k' = MK_KERNEL_STATE_SHUTDOWN" using kernel_requests_path[OF assms] k shutdown_absorbing by simp
  show "\<forall>st \<in> set sts. st = MK_STATUS_INVALID_STATE"
    using assms k
  proof (induction ts arbitrary: fm sts)
    case Nil
    then show ?case by simp
  next
    case (Cons t ts)
    then show ?case by (auto simp: kernel_transition_cases split: prod.splits)
  qed
next
  assume "k_state k = MK_KERNEL_STATE_FAULT"
  then show "k_state k' \<in> {MK_KERNEL_STATE_FAULT, MK_KERNEL_STATE_SHUTDOWN}"
    using kernel_requests_path[OF assms] fault_reaches by simp
qed

theorem kernel_terminal_states_witness:
  "k_state (fst (snd (kernel_requests None [MK_KERNEL_STATE_INIT, MK_KERNEL_STATE_RUNNING]
      (mk_kernel_zero\<lparr>k_state := MK_KERNEL_STATE_SHUTDOWN\<rparr>, fault_manager_static)))) = MK_KERNEL_STATE_SHUTDOWN"
proof -
  obtain sts k' fm' where r: "kernel_requests None [MK_KERNEL_STATE_INIT, MK_KERNEL_STATE_RUNNING]
      (mk_kernel_zero\<lparr>k_state := MK_KERNEL_STATE_SHUTDOWN\<rparr>, fault_manager_static) = (sts, k', fm')"
    by (metis prod_cases3)
  then show ?thesis using kernel_terminal_states[OF r] by simp
qed

text \<open>Whatever requests are made for whichever applications, each application's state moves along
  the application lifecycle, and the kernel state is not touched.\<close>

theorem app_requests_sound:
  assumes "app_requests now ts (k, fm) = (sts, k', fm')" and "length (k_apps k) = 4"
  shows "length (k_apps k') = 4 \<and> k_state k' = k_state k
    \<and> (\<forall>j < 4. app_step\<^sup>*\<^sup>* (app_state (k_apps k ! j)) (app_state (k_apps k' ! j)))"
  by (rule app_requests_path[OF assms])

theorem app_requests_sound_witness:
  "k_state (fst (snd (app_requests None [(MK_APP_BLE_HID, MK_APP_STATE_INIT), (MK_APP_RETRO_GAMES, MK_APP_STATE_ACTIVE)]
      (mk_kernel_zero, fault_manager_static)))) = MK_KERNEL_STATE_RESET"
proof -
  obtain sts k' fm' where r: "app_requests None [(MK_APP_BLE_HID, MK_APP_STATE_INIT), (MK_APP_RETRO_GAMES, MK_APP_STATE_ACTIVE)]
      (mk_kernel_zero, fault_manager_static) = (sts, k', fm')"
    by (metis prod_cases3)
  then show ?thesis using app_requests_sound[OF r] by (simp add: mk_kernel_zero_def)
qed

end
