(* ===== verification/Kernel_Exec.thy ===== *)
theory Kernel_Exec
  imports Scheduler State_Machine
begin

text \<open>
  \<^verbatim>\<open>os/kernel/kernel.c\<close>: boot, initialisation, registration of applications, the main loop and
  shutdown. The statics \<open>s_kernel\<close> and \<open>s_booted\<close> and those of the scheduler and the fault manager
  form one state. The flag \<open>host\<close> says that the build is a host test.
\<close>

section \<open>State and operations\<close>

record kern = sched +
  kn_booted :: bool

definition kern_transition ::
  "bool \<Rightarrow> mk_kernel_state \<Rightarrow> 'a sched_scheme \<Rightarrow> mk_status \<times> 'a sched_scheme" where
  "kern_transition host new_state s =
     (case mk_kernel_transition (sc_now host s) True new_state (sc_kernel s, sc_fm s) of
        (st, k, fm) \<Rightarrow> (st, s\<lparr>sc_kernel := k, sc_fm := fm\<rparr>))"

definition kern_app_transition ::
  "bool \<Rightarrow> mk_app_id \<Rightarrow> mk_app_state \<Rightarrow> 'a sched_scheme \<Rightarrow> mk_status \<times> 'a sched_scheme" where
  "kern_app_transition host aid new_state s =
     (case mk_app_transition (sc_now host s) True aid new_state (sc_kernel s, sc_fm s) of
        (st, k, fm) \<Rightarrow> (st, s\<lparr>sc_kernel := k, sc_fm := fm\<rparr>))"

definition mk_kernel_get_instance :: "'a kern_scheme \<Rightarrow> mk_kernel" where
  "mk_kernel_get_instance s = sc_kernel s"

definition mk_kernel_boot :: "bool \<Rightarrow> 'a kern_scheme \<Rightarrow> mk_status \<times> 'a kern_scheme" where
  "mk_kernel_boot host s =
     (let k = mk_kernel_zero\<lparr>k_state := MK_KERNEL_STATE_RESET, k_tick := 0, k_scheduler_iterations := 0,
                k_active_app := of_nat (app_id_ord MK_APP_BLE_HID)\<rparr>;
          (st, s1) = kern_transition host MK_KERNEL_STATE_INIT (s\<lparr>sc_kernel := k\<rparr>)
      in if st \<noteq> MK_STATUS_OK then (st, s1) else (MK_STATUS_OK, s1\<lparr>kn_booted := True\<rparr>))"

definition mk_kernel_init :: "'a kern_scheme \<Rightarrow> mk_status \<times> 'a kern_scheme" where
  "mk_kernel_init s =
     (if \<not> kn_booted s \<or> k_state (sc_kernel s) \<noteq> MK_KERNEL_STATE_INIT then (MK_STATUS_INVALID_STATE, s)
      else mk_scheduler_init True (s\<lparr>sc_kernel := (sc_kernel s)\<lparr>
             k_apps := map (\<lambda>i. (k_apps (sc_kernel s) ! i)\<lparr>app_id := app_id_of i, app_state := MK_APP_STATE_OFF,
                            app_task_id := 0, app_name := Some ''unregistered'', runs_completed := 0,
                            error_count := 0\<rparr>) [0..<app_id_ord MK_APP_COUNT]\<rparr>\<rparr>))"

definition mk_kernel_register_app ::
  "bool \<Rightarrow> mk_app_id \<Rightarrow> string option \<Rightarrow> u8 \<Rightarrow> 'a kern_scheme \<Rightarrow> mk_status \<times> 'a kern_scheme" where
  "mk_kernel_register_app host aid name task_id s =
     (if app_id_ord MK_APP_COUNT \<le> app_id_ord aid \<or> MK_MAX_TASKS \<le> unat task_id then (MK_STATUS_INVALID_ARG, s)
      else let k = sc_kernel s;
               app = (k_apps k ! app_id_ord aid)\<lparr>app_id := aid, app_name := name, app_task_id := task_id,
                        app_state := MK_APP_STATE_OFF\<rparr>
           in kern_app_transition host aid MK_APP_STATE_INIT
                (s\<lparr>sc_kernel := k\<lparr>k_apps := (k_apps k)[app_id_ord aid := app]\<rparr>\<rparr>))"

definition mk_kernel_get_app :: "mk_app_id \<Rightarrow> 'a kern_scheme \<Rightarrow> mk_app_control option" where
  "mk_kernel_get_app aid s =
     (if app_id_ord MK_APP_COUNT \<le> app_id_ord aid then None else Some (k_apps (sc_kernel s) ! app_id_ord aid))"

text \<open>The loop of \<open>mk_kernel_run\<close>. \<open>clk n\<close> are the clock readings of iteration \<open>n\<close>; \<open>None\<close> is a loop
  that never ends.\<close>

partial_function (option) kernel_loop ::
  "bool \<Rightarrow> 'a task_exec \<Rightarrow> (nat \<Rightarrow> u64 \<times> u64) \<Rightarrow> nat \<Rightarrow> 'a sched_scheme \<Rightarrow> 'a sched_scheme option" where
  "kernel_loop host exec clk n s =
     (if k_state (sc_kernel s) = MK_KERNEL_STATE_RUNNING
      then kernel_loop host exec clk (Suc n) (mk_scheduler_run_iteration host exec (clk n) s)
      else Some s)"

definition mk_kernel_run ::
  "bool \<Rightarrow> 'a task_exec \<Rightarrow> (nat \<Rightarrow> u64 \<times> u64) \<Rightarrow> 'a sched_scheme \<Rightarrow> (mk_status \<times> 'a sched_scheme) option" where
  "mk_kernel_run host exec clk s =
     (if k_state (sc_kernel s) \<noteq> MK_KERNEL_STATE_READY then Some (MK_STATUS_INVALID_STATE, s)
      else let (st, s1) = kern_transition host MK_KERNEL_STATE_RUNNING s
           in if st \<noteq> MK_STATUS_OK then Some (st, s1)
              else case kernel_loop host exec clk 0 s1 of
                     None \<Rightarrow> None | Some s2 \<Rightarrow> Some (MK_STATUS_OK, s2))"

definition mk_kernel_shutdown :: "bool \<Rightarrow> 'a sched_scheme \<Rightarrow> 'a sched_scheme" where
  "mk_kernel_shutdown host s = snd (kern_transition host MK_KERNEL_STATE_SHUTDOWN s)"

definition mk_kernel_get_tick :: "'a kern_scheme \<Rightarrow> u32" where
  "mk_kernel_get_tick s = k_tick (sc_kernel s)"

section \<open>The identity record\<close>

record mk_diag_identity =
  product :: string
  version :: string
  build_id :: string
  git_revision :: string
  chip_family :: string
  chip_revision :: u32
  flash_size_bytes :: u32
  psram_size_bytes :: u32
  internal_sram_total :: u32
  internal_sram_free :: u32
  psram_total :: u32
  psram_free :: u32

definition mk_diag_identity_zero :: mk_diag_identity where
  "mk_diag_identity_zero = \<lparr>product = replicate 32 NUL, version = replicate 16 NUL, build_id = replicate 32 NUL,
     git_revision = replicate 40 NUL, chip_family = replicate 16 NUL, chip_revision = 0, flash_size_bytes = 0,
     psram_size_bytes = 0, internal_sram_total = 0, internal_sram_free = 0, psram_total = 0, psram_free = 0\<rparr>"

text \<open>The answer of the host build; the target build asks the chip. \<open>None\<close> is a NULL argument.\<close>

definition mk_kernel_get_diag_identity :: "mk_diag_identity option \<Rightarrow> mk_diag_identity option" where
  "mk_kernel_get_diag_identity out =
     (case out of None \<Rightarrow> None
      | Some _ \<Rightarrow> let d = mk_diag_identity_zero in Some (d\<lparr>
          product := strncpy (product d) ''MicroKernel OS'' 31,
          version := strncpy (version d) ''1.0.0'' 15,
          build_id := strncpy (build_id d) ''MK-ESP32-20260904'' 31,
          git_revision := strncpy (git_revision d) ''20260904-rev2'' 39,
          chip_family := strncpy (chip_family d) ''ESP32-S3-SIM'' 15,
          chip_revision := 1,
          flash_size_bytes := 8 * 1024 * 1024,
          psram_size_bytes := 8 * 1024 * 1024,
          internal_sram_total := 512 * 1024,
          internal_sram_free := 384 * 1024,
          psram_total := 8 * 1024 * 1024,
          psram_free := 8 * 1024 * 1024\<rparr>))"

section \<open>Boot\<close>

definition boot_and_init :: "bool \<Rightarrow> 'a kern_scheme \<Rightarrow> mk_status \<times> 'a kern_scheme" where
  "boot_and_init host s = (case mk_kernel_boot host s of (st, s1) \<Rightarrow>
     if st \<noteq> MK_STATUS_OK then (st, s1) else mk_kernel_init s1)"

lemma kernel_boot_result:
  "mk_kernel_boot host s = (MK_STATUS_OK, s\<lparr>sc_kernel := mk_kernel_zero\<lparr>k_state := MK_KERNEL_STATE_INIT\<rparr>,
     kn_booted := True\<rparr>)"
  by (simp add: mk_kernel_boot_def kern_transition_def kernel_transition_cases mk_kernel_zero_def Let_def)

lemma app_id_of_ord: "i \<noteq> MK_APP_COUNT \<Longrightarrow> app_id_of (app_id_ord i) = i"
  by (cases i) (simp_all add: app_id_of_def)

text \<open>From any state, even in the middle of a run, booting and initialising the kernel succeeds
  without a fault: the kernel is in INIT at tick 0, the four applications are OFF, every task slot
  is unused and the schedule is timely for any set of periodic tasks to come.\<close>

theorem boot_establishes:
  "fst (boot_and_init host s) = MK_STATUS_OK
   \<and> k_state (sc_kernel (snd (boot_and_init host s))) = MK_KERNEL_STATE_INIT
   \<and> tick_of (snd (boot_and_init host s)) = 0
   \<and> map app_state (k_apps (sc_kernel (snd (boot_and_init host s)))) = replicate 4 MK_APP_STATE_OFF
   \<and> map tcb_state (tasks_of (snd (boot_and_init host s))) = replicate 8 MK_TASK_STATE_UNUSED
   \<and> on_time P (snd (boot_and_init host s)) \<and> sc_fm (snd (boot_and_init host s)) = sc_fm s"
proof -
  define s1 where "s1 = s\<lparr>sc_kernel := mk_kernel_zero\<lparr>k_state := MK_KERNEL_STATE_INIT\<rparr>, kn_booted := True\<rparr>"
  have r: "boot_and_init host s = mk_kernel_init s1"
    by (simp add: boot_and_init_def kernel_boot_result s1_def)
  obtain s2 where i: "mk_kernel_init s1 = mk_scheduler_init True s2"
    and s2: "k_state (sc_kernel s2) = MK_KERNEL_STATE_INIT" "tick_of s2 = 0" "sc_fm s2 = sc_fm s"
      "map app_state (k_apps (sc_kernel s2)) = replicate 4 MK_APP_STATE_OFF"
    by (simp add: mk_kernel_init_def s1_def mk_kernel_zero_def upt_rec numeral_eq_Suc)
  have t: "map tcb_state (tasks_of (snd (mk_scheduler_init True s2))) = replicate 8 MK_TASK_STATE_UNUSED"
    by (simp add: mk_scheduler_init_def MK_MAX_TASKS_def upt_rec numeral_eq_Suc)
  show ?thesis
    using init_on_time[of P s2] s2 t unfolding r i
    by (simp add: mk_scheduler_init_def)
qed

section \<open>The main loop\<close>

abbreviation running :: "'a sched_scheme \<Rightarrow> bool" where
  "running s \<equiv> k_state (sc_kernel s) = MK_KERNEL_STATE_RUNNING"

lemma kernel_loop_stops:
  assumes "\<And>m. m < n \<Longrightarrow> running (run_iterations host exec (map clk [i..<i + m]) s)"
    and "\<not> running (run_iterations host exec (map clk [i..<i + n]) s)"
  shows "kernel_loop host exec clk i s = Some (run_iterations host exec (map clk [i..<i + n]) s)"
  using assms
proof (induction n arbitrary: i s)
  case 0
  then show ?case by (subst kernel_loop.simps) simp
next
  case (Suc n)
  have r: "running s" using Suc.prems(1)[of 0] by simp
  have shift: "run_iterations host exec (map clk [i..<i + Suc m]) s
      = run_iterations host exec (map clk [Suc i..<Suc i + m]) (mk_scheduler_run_iteration host exec (clk i) s)" for m
    by (subst upt_rec) simp
  have "kernel_loop host exec clk (Suc i) (mk_scheduler_run_iteration host exec (clk i) s)
      = Some (run_iterations host exec (map clk [Suc i..<Suc i + n]) (mk_scheduler_run_iteration host exec (clk i) s))"
    using Suc.prems(1)[of "Suc _"] Suc.prems(2) unfolding shift by (intro Suc.IH) simp_all
  then show ?case using r unfolding shift by (subst kernel_loop.simps) simp
qed

lemma kernel_loop_returned:
  "kernel_loop host exec clk i s = Some s' \<Longrightarrow>
   \<exists>n. s' = run_iterations host exec (map clk [i..<i + n]) s \<and> \<not> running s'
     \<and> (\<forall>m < n. running (run_iterations host exec (map clk [i..<i + m]) s))"
proof (induction rule: kernel_loop.raw_induct[rotated, consumes 1, case_names 1])
  case (1 loop host exec clk i s s')
  show ?case
  proof (cases "running s")
    case False
    then show ?thesis using 1(2) by (intro exI[of _ 0]) simp
  next
    case True
    let ?t = "mk_scheduler_run_iteration host exec (clk i) s"
    have shift: "run_iterations host exec (map clk [i..<i + Suc m]) s
        = run_iterations host exec (map clk [Suc i..<Suc i + m]) ?t" for m
      by (subst upt_rec) simp
    have "loop host exec clk (Suc i) ?t = Some s'" using 1(2) True by simp
    from 1(1)[OF this] obtain n where n: "s' = run_iterations host exec (map clk [Suc i..<Suc i + n]) ?t" "\<not> running s'"
      "\<forall>m < n. running (run_iterations host exec (map clk [Suc i..<Suc i + m]) ?t)" by blast
    have "running (run_iterations host exec (map clk [i..<i + m]) s)" if "m < Suc n" for m
      using True n(3) that by (cases m) (simp_all add: shift del: upt_Suc add_Suc_right)
    then show ?thesis using n(1,2) by (intro exI[of _ "Suc n"]) (simp add: shift del: upt_Suc add_Suc_right)
  qed
qed

text \<open>C40. On a READY kernel the main loop returns exactly when some iteration leaves the RUNNING
  state, and then after the first one that does; its answer is OK.\<close>

theorem kernel_run_returns_iff:
  assumes "k_state (sc_kernel s) = MK_KERNEL_STATE_READY"
    and "s1 = s\<lparr>sc_kernel := (sc_kernel s)\<lparr>k_state := MK_KERNEL_STATE_RUNNING\<rparr>\<rparr>"
  shows "mk_kernel_run host exec clk s = Some (st, s') \<longleftrightarrow>
    st = MK_STATUS_OK \<and> (\<exists>n. s' = run_iterations host exec (map clk [0..<n]) s1 \<and> \<not> running s'
      \<and> (\<forall>m < n. running (run_iterations host exec (map clk [0..<m]) s1)))"
proof -
  have t: "kern_transition host MK_KERNEL_STATE_RUNNING s = (MK_STATUS_OK, s1)"
    using assms by (simp add: kern_transition_def kernel_transition_cases)
  have "mk_kernel_run host exec clk s = map_option (Pair MK_STATUS_OK) (kernel_loop host exec clk 0 s1)"
    using assms(1) by (simp add: mk_kernel_run_def t split: option.splits)
  moreover have "kernel_loop host exec clk 0 s1 = Some s' \<longleftrightarrow>
      (\<exists>n. s' = run_iterations host exec (map clk [0..<n]) s1 \<and> \<not> running s'
        \<and> (\<forall>m < n. running (run_iterations host exec (map clk [0..<m]) s1)))"
    using kernel_loop_returned[of host exec clk 0 s1 s'] kernel_loop_stops[of _ host exec clk 0 s1]
    by (auto simp del: upt_Suc)
  ultimately show ?thesis by auto
qed

definition demo_ready :: sched where
  "demo_ready = demo_tasks\<lparr>sc_kernel := (sc_kernel demo_tasks)\<lparr>k_state := MK_KERNEL_STATE_READY\<rparr>\<rparr>"

theorem kernel_run_returns_iff_witness:
  "mk_kernel_run False (\<lambda>e c s. mk_kernel_shutdown False s) (\<lambda>n. (0, 5)) demo_ready
     = Some (MK_STATUS_OK, run_iterations False (\<lambda>e c s. mk_kernel_shutdown False s) [(0, 5)]
         (demo_ready\<lparr>sc_kernel := (sc_kernel demo_ready)\<lparr>k_state := MK_KERNEL_STATE_RUNNING\<rparr>\<rparr>))"
proof -
  let ?s1 = "demo_ready\<lparr>sc_kernel := (sc_kernel demo_ready)\<lparr>k_state := MK_KERNEL_STATE_RUNNING\<rparr>\<rparr>"
  let ?ex = "\<lambda>e c s. mk_kernel_shutdown False (s :: sched)"
  have wf: "sched_wf ?s1" and ar: "armed ?s1"
    using demo_on_time by (simp_all add: on_time_def sched_wf_def armed_def demo_ready_def)
  have "\<exists>i < 8. candidate ?s1 i"
    using demo_candidate[of 0] by (intro exI[of _ 1]) (simp add: candidate_def Let_def demo_ready_def)
  then obtain i where i: "fst (mk_scheduler_select_next ?s1) = Some i" "candidate ?s1 i" "i < 8"
    using select_next_some[OF wf] by (metis fst_conv mod_less_divisor zero_less_numeral)
  have k: "sc_kernel (snd (mk_scheduler_select_next ?s1)) = sc_kernel ?s1" by (rule select_next_keeps)
  have "tcb_state (tasks_of ?s1 ! i) = MK_TASK_STATE_READY"
    using i(2) by (simp add: candidate_def Let_def eligible_def)
  then obtain e where "tcb_entry (tasks_of ?s1 ! i) = Some e"
    using ar wf i(3) by (fastforce simp: armed_def sched_wf_def)
  then have "k_state (sc_kernel (run_iterations False ?ex (map (\<lambda>n. (0, 5)) [0..<1]) ?s1)) = MK_KERNEL_STATE_SHUTDOWN"
    using i(1) k by (cases "mk_scheduler_select_next ?s1")
      (simp add: mk_scheduler_run_iteration_def run_task_def update_task_def Let_def mk_kernel_shutdown_def
        kern_transition_def kernel_transition_cases)
  then show ?thesis
    using kernel_run_returns_iff[of demo_ready ?s1 False ?ex "\<lambda>n. (0, 5)"]
    by (auto simp: demo_ready_def intro!: exI[of _ 1])
qed

end
