(* ===== verification/Host_Protocol.thy ===== *)
theory Host_Protocol
  imports Kernel_Types
begin

text \<open>
  \<^verbatim>\<open>os/protocol/host_protocol.c\<close>: the SLVR/1 framing. The CRC, the encoder and the byte-wise stream
  parser. A buffer is the list of its bytes.
\<close>

section \<open>Frames\<close>

type_synonym byte = u8

definition SLVR_MAGIC_0 :: byte where "SLVR_MAGIC_0 = 83"
definition SLVR_MAGIC_1 :: byte where "SLVR_MAGIC_1 = 76"
definition SLVR_MAGIC_2 :: byte where "SLVR_MAGIC_2 = 86"
definition SLVR_MAGIC_3 :: byte where "SLVR_MAGIC_3 = 82"
definition SLVR_VERSION_1 :: byte where "SLVR_VERSION_1 = 1"
definition SLVR_FRAME_OVERHEAD :: nat where "SLVR_FRAME_OVERHEAD = 12"
definition SLVR_MAX_PAYLOAD_LEN :: u16 where "SLVR_MAX_PAYLOAD_LEN = 512"

record slvr_frame =
  sf_version :: byte
  sf_type :: byte
  sf_flags :: byte
  sf_sequence :: byte
  sf_length :: u16
  sf_payload :: "byte list"
  sf_crc16 :: u16

definition slvr_frame_zero :: slvr_frame where
  "slvr_frame_zero = \<lparr>sf_version = 0, sf_type = 0, sf_flags = 0, sf_sequence = 0, sf_length = 0,
     sf_payload = replicate (unat SLVR_MAX_PAYLOAD_LEN) 0, sf_crc16 = 0\<rparr>"

section \<open>CRC-16-CCITT\<close>

definition crc_bit :: "u16 \<Rightarrow> u16" where
  "crc_bit crc = (if crc AND 0x8000 \<noteq> 0 then push_bit 1 crc XOR 0x1021 else push_bit 1 crc)"

definition crc_byte :: "u16 \<Rightarrow> byte \<Rightarrow> u16" where
  "crc_byte crc b = (crc_bit ^^ 8) (crc XOR push_bit 8 (ucast b))"

text \<open>\<open>None\<close> is a NULL pointer; otherwise the argument are the \<open>len\<close> bytes it points to.\<close>

definition slvr_crc16 :: "byte list option \<Rightarrow> u16" where
  "slvr_crc16 data = (case data of None \<Rightarrow> 0xFFFF | Some bs \<Rightarrow> foldl crc_byte 0xFFFF bs)"

section \<open>The parser\<close>

datatype slvr_parser_state =
    SLVR_PARSE_STATE_MAGIC_0 | SLVR_PARSE_STATE_MAGIC_1 | SLVR_PARSE_STATE_MAGIC_2
  | SLVR_PARSE_STATE_MAGIC_3 | SLVR_PARSE_STATE_VERSION | SLVR_PARSE_STATE_TYPE
  | SLVR_PARSE_STATE_FLAGS | SLVR_PARSE_STATE_SEQ | SLVR_PARSE_STATE_LEN_H | SLVR_PARSE_STATE_LEN_L
  | SLVR_PARSE_STATE_PAYLOAD | SLVR_PARSE_STATE_CRC_H | SLVR_PARSE_STATE_CRC_L

record slvr_parser =
  sp_state :: slvr_parser_state
  sp_frame :: slvr_frame
  sp_payload_idx :: u16
  sp_dropped_bytes :: u32
  sp_frames_received :: u32
  sp_crc_errors :: u32

definition slvr_parser_init :: "slvr_parser option \<Rightarrow> slvr_parser option" where
  "slvr_parser_init p = map_option (\<lambda>_. \<lparr>sp_state = SLVR_PARSE_STATE_MAGIC_0, sp_frame = slvr_frame_zero,
     sp_payload_idx = 0, sp_dropped_bytes = 0, sp_frames_received = 0, sp_crc_errors = 0\<rparr>) p"

text \<open>The six header bytes the CRC covers\<close>

definition header_bytes :: "slvr_frame \<Rightarrow> byte list" where
  "header_bytes f = [sf_version f, sf_type f, sf_flags f, sf_sequence f,
     ucast (drop_bit 8 (sf_length f)), ucast (sf_length f AND 0xFF)]"

definition expected_crc :: "slvr_frame \<Rightarrow> u16" where
  "expected_crc f =
     (let crc = slvr_crc16 (Some (header_bytes f))
      in if 0 < sf_length f then foldl crc_byte crc (take (unat (sf_length f)) (sf_payload f)) else crc)"

text \<open>One byte: the switch over the state. The result is the frame stored through \<open>out_frame\<close> when the
  call returns true.\<close>

definition parser_step :: "byte \<Rightarrow> slvr_parser \<Rightarrow> slvr_frame option \<times> slvr_parser" where
  "parser_step b p =
     (let f = sp_frame p in
      case sp_state p of
        SLVR_PARSE_STATE_MAGIC_0 \<Rightarrow>
          (None, if b = SLVR_MAGIC_0 then p\<lparr>sp_state := SLVR_PARSE_STATE_MAGIC_1\<rparr>
                 else p\<lparr>sp_dropped_bytes := sp_dropped_bytes p + 1\<rparr>)
      | SLVR_PARSE_STATE_MAGIC_1 \<Rightarrow>
          (None, if b = SLVR_MAGIC_1 then p\<lparr>sp_state := SLVR_PARSE_STATE_MAGIC_2\<rparr>
                 else if b = SLVR_MAGIC_0
                 then p\<lparr>sp_state := SLVR_PARSE_STATE_MAGIC_1, sp_dropped_bytes := sp_dropped_bytes p + 1\<rparr>
                 else p\<lparr>sp_state := SLVR_PARSE_STATE_MAGIC_0, sp_dropped_bytes := sp_dropped_bytes p + 2\<rparr>)
      | SLVR_PARSE_STATE_MAGIC_2 \<Rightarrow>
          (None, if b = SLVR_MAGIC_2 then p\<lparr>sp_state := SLVR_PARSE_STATE_MAGIC_3\<rparr>
                 else p\<lparr>sp_state := SLVR_PARSE_STATE_MAGIC_0, sp_dropped_bytes := sp_dropped_bytes p + 3\<rparr>)
      | SLVR_PARSE_STATE_MAGIC_3 \<Rightarrow>
          (None, if b = SLVR_MAGIC_3 then p\<lparr>sp_state := SLVR_PARSE_STATE_VERSION\<rparr>
                 else p\<lparr>sp_state := SLVR_PARSE_STATE_MAGIC_0, sp_dropped_bytes := sp_dropped_bytes p + 4\<rparr>)
      | SLVR_PARSE_STATE_VERSION \<Rightarrow>
          (None, if b = SLVR_VERSION_1
                 then p\<lparr>sp_frame := f\<lparr>sf_version := b\<rparr>, sp_state := SLVR_PARSE_STATE_TYPE\<rparr>
                 else p\<lparr>sp_state := SLVR_PARSE_STATE_MAGIC_0, sp_dropped_bytes := sp_dropped_bytes p + 1\<rparr>)
      | SLVR_PARSE_STATE_TYPE \<Rightarrow>
          (None, p\<lparr>sp_frame := f\<lparr>sf_type := b\<rparr>, sp_state := SLVR_PARSE_STATE_FLAGS\<rparr>)
      | SLVR_PARSE_STATE_FLAGS \<Rightarrow>
          (None, p\<lparr>sp_frame := f\<lparr>sf_flags := b\<rparr>, sp_state := SLVR_PARSE_STATE_SEQ\<rparr>)
      | SLVR_PARSE_STATE_SEQ \<Rightarrow>
          (None, p\<lparr>sp_frame := f\<lparr>sf_sequence := b\<rparr>, sp_state := SLVR_PARSE_STATE_LEN_H\<rparr>)
      | SLVR_PARSE_STATE_LEN_H \<Rightarrow>
          (None, p\<lparr>sp_frame := f\<lparr>sf_length := push_bit 8 (ucast b)\<rparr>, sp_state := SLVR_PARSE_STATE_LEN_L\<rparr>)
      | SLVR_PARSE_STATE_LEN_L \<Rightarrow>
          (None, let f1 = f\<lparr>sf_length := sf_length f OR ucast b\<rparr>
                 in if SLVR_MAX_PAYLOAD_LEN < sf_length f1
                    then p\<lparr>sp_frame := f1, sp_state := SLVR_PARSE_STATE_MAGIC_0,
                           sp_dropped_bytes := sp_dropped_bytes p + 1\<rparr>
                    else p\<lparr>sp_frame := f1, sp_payload_idx := 0,
                           sp_state := (if sf_length f1 = 0 then SLVR_PARSE_STATE_CRC_H
                                        else SLVR_PARSE_STATE_PAYLOAD)\<rparr>)
      | SLVR_PARSE_STATE_PAYLOAD \<Rightarrow>
          (None, let i = sp_payload_idx p; i' = i + 1
                 in p\<lparr>sp_frame := f\<lparr>sf_payload := (sf_payload f)[unat i := b]\<rparr>, sp_payload_idx := i',
                      sp_state := (if sf_length f \<le> i' then SLVR_PARSE_STATE_CRC_H else SLVR_PARSE_STATE_PAYLOAD)\<rparr>)
      | SLVR_PARSE_STATE_CRC_H \<Rightarrow>
          (None, p\<lparr>sp_frame := f\<lparr>sf_crc16 := push_bit 8 (ucast b)\<rparr>, sp_state := SLVR_PARSE_STATE_CRC_L\<rparr>)
      | SLVR_PARSE_STATE_CRC_L \<Rightarrow>
          (let f1 = f\<lparr>sf_crc16 := sf_crc16 f OR ucast b\<rparr>;
               p1 = p\<lparr>sp_frame := f1, sp_state := SLVR_PARSE_STATE_MAGIC_0\<rparr>
           in if sf_crc16 f1 = expected_crc f1
              then (Some f1, p1\<lparr>sp_frames_received := sp_frames_received p + 1\<rparr>)
              else (None, p1\<lparr>sp_crc_errors := sp_crc_errors p + 1\<rparr>)))"

text \<open>The flag says that neither pointer is NULL.\<close>

definition slvr_parser_feed_byte :: "bool \<Rightarrow> byte \<Rightarrow> slvr_parser \<Rightarrow> slvr_frame option \<times> slvr_parser" where
  "slvr_parser_feed_byte args_ok b p = (if \<not> args_ok then (None, p) else parser_step b p)"

lemma feed_byte_step [simp]: "slvr_parser_feed_byte True b p = parser_step b p"
  by (simp add: slvr_parser_feed_byte_def)

section \<open>The encoder\<close>

definition crc_bytes :: "u16 \<Rightarrow> byte list" where
  "crc_bytes crc = [ucast (drop_bit 8 crc), ucast (crc AND 0xFF)]"

text \<open>The flag says that no argument is NULL; the result holds the buffer afterwards and the length
  stored through \<open>out_frame_len\<close>.\<close>

definition slvr_encode_frame ::
  "bool \<Rightarrow> slvr_frame \<Rightarrow> byte list \<Rightarrow> nat \<Rightarrow> mk_status \<times> byte list \<times> nat option" where
  "slvr_encode_frame args_ok f out_buf max_buf_len =
     (if \<not> args_ok then (MK_STATUS_INVALID_ARG, out_buf, None)
      else if SLVR_MAX_PAYLOAD_LEN < sf_length f then (MK_STATUS_INVALID_ARG, out_buf, None)
      else let n = unat (sf_length f); total_len = SLVR_FRAME_OVERHEAD + n
           in if max_buf_len < total_len then (MK_STATUS_NO_MEMORY, out_buf, None)
              else let body = header_bytes f @ take n (sf_payload f);
                       crc = slvr_crc16 (Some body)
                   in (MK_STATUS_OK,
                       [SLVR_MAGIC_0, SLVR_MAGIC_1, SLVR_MAGIC_2, SLVR_MAGIC_3] @ body @ crc_bytes crc
                         @ drop total_len out_buf,
                       Some total_len))"

section \<open>Streams\<close>

text \<open>Feeding a byte sequence: the frames delivered, in order\<close>

fun slvr_feed :: "byte list \<Rightarrow> slvr_parser \<Rightarrow> slvr_frame list \<times> slvr_parser" where
  "slvr_feed [] p = ([], p)"
| "slvr_feed (b # bs) p =
     (case slvr_parser_feed_byte True b p of (r, p1) \<Rightarrow>
      case slvr_feed bs p1 of (fs, p2) \<Rightarrow> (case r of None \<Rightarrow> fs | Some f \<Rightarrow> f # fs, p2))"

lemma feed_append:
  "slvr_feed (xs @ ys) p = (case slvr_feed xs p of (fs, p1) \<Rightarrow> case slvr_feed ys p1 of (gs, p2) \<Rightarrow> (fs @ gs, p2))"
  by (induction xs arbitrary: p) (auto split: prod.splits option.splits)

lemma bit_FF: "bit (255 :: int) n \<longleftrightarrow> n < 8"
proof -
  have "(255 :: int) = mask 8" by (simp add: mask_eq_exp_minus_1)
  then show ?thesis by (simp only: bit_mask_iff) auto
qed

lemma join_bytes: "push_bit 8 (ucast (ucast (drop_bit 8 w) :: byte)) OR ucast (ucast (w AND 0xFF) :: byte) = (w :: u16)"
proof (rule bit_word_eqI)
  fix n assume "n < LENGTH(16)"
  show "bit (push_bit 8 (ucast (ucast (drop_bit 8 w) :: byte)) OR ucast (ucast (w AND 0xFF) :: byte) :: u16) n \<longleftrightarrow> bit w n"
    using \<open>n < LENGTH(16)\<close>
    by (auto simp: bit_or_iff bit_and_iff bit_push_bit_iff bit_ucast_iff bit_drop_bit_eq bit_FF)
qed

lemma expected_crc_fold: "expected_crc f = slvr_crc16 (Some (header_bytes f @ take (unat (sf_length f)) (sf_payload f)))"
  by (cases "sf_length f = 0") (auto simp: expected_crc_def slvr_crc16_def word_gt_0)

text \<open>The payload bytes\<close>

lemma feed_payload:
  assumes "sp_state p = SLVR_PARSE_STATE_PAYLOAD" and "unat (sp_payload_idx p) + length bs = unat (sf_length (sp_frame p))"
    and "bs \<noteq> []" and "sf_length (sp_frame p) \<le> 512" and "length (sf_payload (sp_frame p)) = 512"
  shows "slvr_feed bs p = ([], p\<lparr>sp_state := SLVR_PARSE_STATE_CRC_H, sp_payload_idx := sf_length (sp_frame p),
     sp_frame := (sp_frame p)\<lparr>sf_payload := take (unat (sp_payload_idx p)) (sf_payload (sp_frame p)) @ bs
        @ drop (unat (sf_length (sp_frame p))) (sf_payload (sp_frame p))\<rparr>\<rparr>)"
  using assms
proof (induction bs arbitrary: p)
  case Nil
  then show ?case by simp
next
  case (Cons b bs)
  let ?f = "sp_frame p" and ?i = "sp_payload_idx p"
  have n: "unat (sf_length ?f) \<le> 512" using Cons.prems(4) by (simp add: word_le_nat_alt)
  have i: "unat ?i < unat (sf_length ?f)" using Cons.prems(2) by simp
  then have i1: "unat (?i + 1) = Suc (unat ?i)" by (intro unat_Suc_below) (simp add: word_less_nat_alt)
  have upd: "(sf_payload ?f)[unat ?i := b] = take (unat ?i) (sf_payload ?f) @ b # drop (Suc (unat ?i)) (sf_payload ?f)"
    using i n Cons.prems(5) by (intro upd_conv_take_nth_drop) simp
  show ?case
  proof (cases "bs = []")
    case True
    then have e: "unat (sf_length ?f) = Suc (unat ?i)" using Cons.prems(2) by simp
    then have "sf_length ?f = ?i + 1" using i1 by (simp add: word_unat_eq_iff)
    then show ?thesis using Cons.prems(1) True upd e i1
      by (simp add: parser_step_def Let_def)
  next
    case False
    have lt: "\<not> sf_length ?f \<le> ?i + 1"
      using Cons.prems(2) False i1 by (simp add: word_le_nat_alt) (cases bs; simp)
    define q where "q = p\<lparr>sp_frame := ?f\<lparr>sf_payload := (sf_payload ?f)[unat ?i := b]\<rparr>, sp_payload_idx := ?i + 1\<rparr>"
    have step: "parser_step b p = (None, q)"
      using Cons.prems(1) lt by (simp add: parser_step_def Let_def q_def)
    have "take (unat (?i + 1)) ((sf_payload ?f)[unat ?i := b]) = take (unat ?i) (sf_payload ?f) @ [b]"
      using i n Cons.prems(5) unfolding upd i1 by simp
    moreover have "drop (unat (sf_length ?f)) ((sf_payload ?f)[unat ?i := b]) = drop (unat (sf_length ?f)) (sf_payload ?f)"
      using i by (simp add: drop_update_cancel)
    ultimately show ?thesis
      using Cons.IH[of q] Cons.prems False i1 step by (simp add: q_def)
  qed
qed

text \<open>The header of a frame, from MAGIC_0 on\<close>

definition header_wire :: "slvr_frame \<Rightarrow> byte list" where
  "header_wire f = [SLVR_MAGIC_0, SLVR_MAGIC_1, SLVR_MAGIC_2, SLVR_MAGIC_3] @ header_bytes f"

lemma magic_neq [simp]: "SLVR_MAGIC_1 \<noteq> SLVR_MAGIC_0"
  by (simp add: SLVR_MAGIC_0_def SLVR_MAGIC_1_def)

lemma feed_header:
  assumes "sp_state p = SLVR_PARSE_STATE_MAGIC_0" and "sf_version f = SLVR_VERSION_1"
    and "sf_length f \<le> SLVR_MAX_PAYLOAD_LEN"
  shows "slvr_feed (header_wire f) p = ([], p\<lparr>sp_payload_idx := 0,
     sp_state := (if sf_length f = 0 then SLVR_PARSE_STATE_CRC_H else SLVR_PARSE_STATE_PAYLOAD),
     sp_frame := (sp_frame p)\<lparr>sf_version := sf_version f, sf_type := sf_type f, sf_flags := sf_flags f,
        sf_sequence := sf_sequence f, sf_length := sf_length f\<rparr>\<rparr>)"
  using assms
  by (simp add: header_wire_def header_bytes_def parser_step_def Let_def join_bytes not_less[symmetric])

lemma feed_body:
  assumes "sp_state p = SLVR_PARSE_STATE_MAGIC_0" and "sf_version f = SLVR_VERSION_1"
    and "sf_length f \<le> SLVR_MAX_PAYLOAD_LEN" and "length bs = unat (sf_length f)"
    and "length (sf_payload (sp_frame p)) = 512"
  obtains i where "slvr_feed (header_wire f @ bs) p = ([], p\<lparr>sp_payload_idx := i, sp_state := SLVR_PARSE_STATE_CRC_H,
     sp_frame := (sp_frame p)\<lparr>sf_version := sf_version f, sf_type := sf_type f, sf_flags := sf_flags f,
        sf_sequence := sf_sequence f, sf_length := sf_length f,
        sf_payload := bs @ drop (length bs) (sf_payload (sp_frame p))\<rparr>\<rparr>)"
proof (cases "bs = []")
  case True
  then have "sf_length f = 0" using assms(4) by (simp add: unat_eq_0)
  then show ?thesis using feed_header[OF assms(1-3)] True that[of 0] by simp
next
  case False
  then have n: "sf_length f \<noteq> 0" using assms(4) by auto
  define q where "q = p\<lparr>sp_payload_idx := 0, sp_state := SLVR_PARSE_STATE_PAYLOAD,
     sp_frame := (sp_frame p)\<lparr>sf_version := sf_version f, sf_type := sf_type f, sf_flags := sf_flags f,
        sf_sequence := sf_sequence f, sf_length := sf_length f\<rparr>\<rparr>"
  have h: "slvr_feed (header_wire f) p = ([], q)" using feed_header[OF assms(1-3)] n by (simp add: q_def)
  have "slvr_feed bs q = ([], q\<lparr>sp_state := SLVR_PARSE_STATE_CRC_H, sp_payload_idx := sf_length (sp_frame q),
     sp_frame := (sp_frame q)\<lparr>sf_payload := take (unat (sp_payload_idx q)) (sf_payload (sp_frame q)) @ bs
        @ drop (unat (sf_length (sp_frame q))) (sf_payload (sp_frame q))\<rparr>\<rparr>)"
    using assms(3-5) False by (intro feed_payload) (simp_all add: q_def SLVR_MAX_PAYLOAD_LEN_def)
  then show ?thesis using h assms(4) that[of "sf_length f"] by (simp add: feed_append q_def)
qed

lemma expected_crc_field [simp]: "expected_crc (f\<lparr>sf_crc16 := c\<rparr>) = expected_crc f"
  by (simp add: expected_crc_def header_bytes_def Let_def)

text \<open>The two CRC bytes decide.\<close>

lemma feed_crc:
  assumes "sp_state p = SLVR_PARSE_STATE_CRC_H"
  shows "slvr_feed (crc_bytes c) p =
    (if c = expected_crc (sp_frame p)
     then ([(sp_frame p)\<lparr>sf_crc16 := c\<rparr>], p\<lparr>sp_state := SLVR_PARSE_STATE_MAGIC_0,
             sp_frame := (sp_frame p)\<lparr>sf_crc16 := c\<rparr>, sp_frames_received := sp_frames_received p + 1\<rparr>)
     else ([], p\<lparr>sp_state := SLVR_PARSE_STATE_MAGIC_0,
             sp_frame := (sp_frame p)\<lparr>sf_crc16 := c\<rparr>, sp_crc_errors := sp_crc_errors p + 1\<rparr>))"
  using assms
  by (simp add: crc_bytes_def parser_step_def Let_def join_bytes expected_crc_def header_bytes_def)

text \<open>A whole frame on the wire: header, payload bytes and a CRC field\<close>

definition frame_ok :: "slvr_frame \<Rightarrow> bool" where
  "frame_ok f \<longleftrightarrow> sf_version f = SLVR_VERSION_1 \<and> sf_length f \<le> SLVR_MAX_PAYLOAD_LEN \<and> length (sf_payload f) = 512"

definition content :: "slvr_frame \<Rightarrow> byte list" where
  "content f = take (unat (sf_length f)) (sf_payload f)"

definition same_frame :: "slvr_frame \<Rightarrow> slvr_frame \<Rightarrow> bool" where
  "same_frame g f \<longleftrightarrow> sf_version g = sf_version f \<and> sf_type g = sf_type f \<and> sf_flags g = sf_flags f
     \<and> sf_sequence g = sf_sequence f \<and> sf_length g = sf_length f \<and> content g = content f"

definition frame_crc :: "slvr_frame \<Rightarrow> byte list \<Rightarrow> u16" where
  "frame_crc f bs = slvr_crc16 (Some (header_bytes f @ bs))"

lemma feed_frame:
  assumes "sp_state p = SLVR_PARSE_STATE_MAGIC_0" and "length (sf_payload (sp_frame p)) = 512"
    and "sf_version f = SLVR_VERSION_1" and "sf_length f \<le> SLVR_MAX_PAYLOAD_LEN" and "length bs = unat (sf_length f)"
  obtains g p' where
    "slvr_feed (header_wire f @ bs @ crc_bytes c) p = (if c = frame_crc f bs then [g] else [], p')"
    and "sp_state p' = SLVR_PARSE_STATE_MAGIC_0" and "length (sf_payload (sp_frame p')) = 512"
    and "sp_dropped_bytes p' = sp_dropped_bytes p"
    and "sp_frames_received p' = sp_frames_received p + (if c = frame_crc f bs then 1 else 0)"
    and "sp_crc_errors p' = sp_crc_errors p + (if c = frame_crc f bs then 0 else 1)"
    and "header_bytes g = header_bytes f" and "sf_version g = sf_version f" and "sf_type g = sf_type f"
    and "sf_flags g = sf_flags f" and "sf_sequence g = sf_sequence f" and "sf_length g = sf_length f"
    and "content g = bs" and "sf_crc16 g = c"
proof -
  obtain i where b: "slvr_feed (header_wire f @ bs) p = ([], p\<lparr>sp_payload_idx := i, sp_state := SLVR_PARSE_STATE_CRC_H,
     sp_frame := (sp_frame p)\<lparr>sf_version := sf_version f, sf_type := sf_type f, sf_flags := sf_flags f,
        sf_sequence := sf_sequence f, sf_length := sf_length f,
        sf_payload := bs @ drop (length bs) (sf_payload (sp_frame p))\<rparr>\<rparr>)"
    using feed_body[OF assms(1,3-5,2)] by blast
  let ?h = "(sp_frame p)\<lparr>sf_version := sf_version f, sf_type := sf_type f, sf_flags := sf_flags f,
        sf_sequence := sf_sequence f, sf_length := sf_length f,
        sf_payload := bs @ drop (length bs) (sf_payload (sp_frame p))\<rparr>"
  let ?q = "p\<lparr>sp_payload_idx := i, sp_state := SLVR_PARSE_STATE_CRC_H, sp_frame := ?h\<rparr>"
  let ?g = "?h\<lparr>sf_crc16 := c\<rparr>"
  have hb: "header_bytes ?h = header_bytes f" by (simp add: header_bytes_def)
  have ex: "expected_crc ?h = frame_crc f bs"
    unfolding expected_crc_fold hb frame_crc_def by (simp add: assms(5)[symmetric])
  have "slvr_feed (crc_bytes c) ?q = (if c = frame_crc f bs
     then ([?g], ?q\<lparr>sp_state := SLVR_PARSE_STATE_MAGIC_0, sp_frame := ?g, sp_frames_received := sp_frames_received p + 1\<rparr>)
     else ([], ?q\<lparr>sp_state := SLVR_PARSE_STATE_MAGIC_0, sp_frame := ?g, sp_crc_errors := sp_crc_errors p + 1\<rparr>))"
    using feed_crc[of ?q c] ex by simp
  then have r: "slvr_feed (header_wire f @ bs @ crc_bytes c) p = (if c = frame_crc f bs then [?g] else [],
      if c = frame_crc f bs
      then ?q\<lparr>sp_state := SLVR_PARSE_STATE_MAGIC_0, sp_frame := ?g, sp_frames_received := sp_frames_received p + 1\<rparr>
      else ?q\<lparr>sp_state := SLVR_PARSE_STATE_MAGIC_0, sp_frame := ?g, sp_crc_errors := sp_crc_errors p + 1\<rparr>)"
    unfolding append_assoc[symmetric] feed_append[of "header_wire f @ bs" "crc_bytes c"] b by simp
  have n: "unat (sf_length f) \<le> 512" using assms(4) by (simp add: SLVR_MAX_PAYLOAD_LEN_def word_le_nat_alt)
  show ?thesis
    by (rule that[OF r]) (use hb n assms(2,5) in \<open>simp_all add: header_bytes_def content_def\<close>)
qed

definition wire :: "slvr_frame \<Rightarrow> byte list" where
  "wire f = header_wire f @ content f @ crc_bytes (frame_crc f (content f))"

lemma encode_wire:
  assumes "frame_ok f" and "12 + unat (sf_length f) \<le> max_len"
  shows "slvr_encode_frame True f out max_len
    = (MK_STATUS_OK, wire f @ drop (12 + unat (sf_length f)) out, Some (12 + unat (sf_length f)))"
  using assms
  by (simp add: slvr_encode_frame_def frame_ok_def Let_def wire_def header_wire_def content_def frame_crc_def
      SLVR_FRAME_OVERHEAD_def not_less[symmetric])

lemma length_content: "frame_ok f \<Longrightarrow> length (content f) = unat (sf_length f)"
  by (simp add: content_def frame_ok_def SLVR_MAX_PAYLOAD_LEN_def word_le_nat_alt min_def)

text \<open>A parser between two frames\<close>

definition idle :: "slvr_parser \<Rightarrow> bool" where
  "idle p \<longleftrightarrow> sp_state p = SLVR_PARSE_STATE_MAGIC_0 \<and> length (sf_payload (sp_frame p)) = 512"

lemma feed_wire:
  assumes "idle p" and "frame_ok f"
  obtains g p' where "slvr_feed (wire f) p = ([g], p')" and "same_frame g f" and "idle p'"
    and "sp_dropped_bytes p' = sp_dropped_bytes p" and "sp_frames_received p' = sp_frames_received p + 1"
    and "sp_crc_errors p' = sp_crc_errors p"
proof -
  have a: "sp_state p = SLVR_PARSE_STATE_MAGIC_0" "length (sf_payload (sp_frame p)) = 512"
    "sf_version f = SLVR_VERSION_1" "sf_length f \<le> SLVR_MAX_PAYLOAD_LEN"
    using assms by (simp_all add: idle_def frame_ok_def)
  show ?thesis
  proof (rule feed_frame[OF a length_content[OF assms(2)], of "frame_crc f (content f)"])
    fix g p'
    assume "slvr_feed (header_wire f @ content f @ crc_bytes (frame_crc f (content f))) p
        = (if frame_crc f (content f) = frame_crc f (content f) then [g] else [], p')"
    then have r: "slvr_feed (wire f) p = ([g], p')" by (simp add: wire_def)
    assume "sp_state p' = SLVR_PARSE_STATE_MAGIC_0" "length (sf_payload (sp_frame p')) = 512"
      "sp_dropped_bytes p' = sp_dropped_bytes p"
      "sp_frames_received p' = sp_frames_received p + (if frame_crc f (content f) = frame_crc f (content f) then 1 else 0)"
      "sp_crc_errors p' = sp_crc_errors p + (if frame_crc f (content f) = frame_crc f (content f) then 0 else 1)"
      "sf_version g = sf_version f" "sf_type g = sf_type f"
      "sf_flags g = sf_flags f" "sf_sequence g = sf_sequence f" "sf_length g = sf_length f" "content g = content f"
    then show ?thesis by (intro that[OF r]) (simp_all add: same_frame_def idle_def)
  qed
qed

lemma feed_garbage:
  assumes "idle p" and "SLVR_MAGIC_0 \<notin> set xs"
  shows "slvr_feed xs p = ([], p\<lparr>sp_dropped_bytes := sp_dropped_bytes p + of_nat (length xs)\<rparr>)"
  using assms
proof (induction xs arbitrary: p)
  case Nil
  then show ?case by simp
next
  case (Cons b xs)
  let ?q = "p\<lparr>sp_dropped_bytes := sp_dropped_bytes p + 1\<rparr>"
  have "parser_step b p = (None, ?q)"
    using Cons.prems by (auto simp: parser_step_def Let_def idle_def)
  moreover have "slvr_feed xs ?q = ([], ?q\<lparr>sp_dropped_bytes := sp_dropped_bytes ?q + of_nat (length xs)\<rparr>)"
    using Cons.prems by (intro Cons.IH) (auto simp: idle_def)
  ultimately show ?case by (simp add: algebra_simps)
qed

lemma feed_segments:
  assumes "idle p" and "\<forall>(xs, f) \<in> set segs. SLVR_MAGIC_0 \<notin> set xs \<and> frame_ok f"
  shows "\<exists>gs p'. slvr_feed (concat (map (\<lambda>(xs, f). xs @ wire f) segs)) p = (gs, p')
    \<and> list_all2 same_frame gs (map snd segs) \<and> idle p'
    \<and> sp_dropped_bytes p' = sp_dropped_bytes p + of_nat (length (concat (map fst segs)))
    \<and> sp_frames_received p' = sp_frames_received p + of_nat (length segs) \<and> sp_crc_errors p' = sp_crc_errors p"
  using assms
proof (induction segs arbitrary: p)
  case Nil
  then show ?case by simp
next
  case (Cons seg segs)
  obtain xs f where seg: "seg = (xs, f)" by (cases seg)
  have xs: "SLVR_MAGIC_0 \<notin> set xs" and f: "frame_ok f" using Cons.prems(2) seg by auto
  let ?q = "p\<lparr>sp_dropped_bytes := sp_dropped_bytes p + of_nat (length xs)\<rparr>"
  have q: "idle ?q" using Cons.prems(1) by (simp add: idle_def)
  obtain g p1 where w: "slvr_feed (wire f) ?q = ([g], p1)" "same_frame g f" "idle p1"
    "sp_dropped_bytes p1 = sp_dropped_bytes ?q" "sp_frames_received p1 = sp_frames_received ?q + 1"
    "sp_crc_errors p1 = sp_crc_errors ?q" using feed_wire[OF q f] by blast
  have rest: "\<forall>(xs, f) \<in> set segs. SLVR_MAGIC_0 \<notin> set xs \<and> frame_ok f" using Cons.prems(2) by auto
  obtain gs p' where r: "slvr_feed (concat (map (\<lambda>(xs, f). xs @ wire f) segs)) p1 = (gs, p')"
    "list_all2 same_frame gs (map snd segs)" "idle p'"
    "sp_dropped_bytes p' = sp_dropped_bytes p1 + of_nat (length (concat (map fst segs)))"
    "sp_frames_received p' = sp_frames_received p1 + of_nat (length segs)" "sp_crc_errors p' = sp_crc_errors p1"
    using Cons.IH[OF w(3) rest] by blast
  show ?case
    by (intro exI[of _ "g # gs"] exI[of _ p'])
       (use r w seg feed_garbage[OF Cons.prems(1) xs] in \<open>simp add: feed_append algebra_simps\<close>)
qed

section \<open>What the CRC detects\<close>

lemma crc_bit_alt: "crc_bit x = push_bit 1 x XOR (if bit x 15 then 0x1021 else 0)"
proof -
  have "x AND 0x8000 = 0 \<longleftrightarrow> \<not> bit x 15" using and_exp_eq_0_iff_not_bit[of x 15] by simp
  then show ?thesis by (simp add: crc_bit_def)
qed

lemma crc_bit_linear: "crc_bit (x XOR y) = crc_bit x XOR crc_bit y"
  unfolding crc_bit_alt
  by (rule bit_word_eqI) (auto simp: bit_xor_iff bit_push_bit_iff)

lemma crc_bit_inj: "crc_bit x = crc_bit y \<Longrightarrow> x = y"
proof -
  assume e: "crc_bit x = crc_bit y"
  have b0: "bit (0x1021 :: u16) 0" by simp
  have "bit (crc_bit z) 0 \<longleftrightarrow> bit z 15" for z
    unfolding crc_bit_alt bit_xor_iff bit_push_bit_iff using b0 by simp
  then have t: "bit x 15 \<longleftrightarrow> bit y 15" using e by metis
  have un: "push_bit 1 z = crc_bit z XOR (if bit z 15 then 0x1021 else 0)" for z
    unfolding crc_bit_alt by (simp only: xor.assoc xor_self_eq xor.right_neutral)
  have p: "push_bit 1 x = push_bit 1 y" unfolding un e t by (rule refl)
  show "x = y"
  proof (rule bit_word_eqI)
    fix n assume "n < LENGTH(16)"
    then have n: "n < 15 \<or> n = 15" by auto
    have "bit (push_bit 1 x) (Suc n) \<longleftrightarrow> bit (push_bit 1 y) (Suc n)" unfolding p by (rule refl)
    then show "bit x n \<longleftrightarrow> bit y n" using n t unfolding bit_push_bit_iff by auto
  qed
qed

lemma crc_bits_linear: "(crc_bit ^^ k) (x XOR y) = (crc_bit ^^ k) x XOR (crc_bit ^^ k) y"
  by (induction k) (simp_all add: crc_bit_linear)

lemma crc_bits_inj: "(crc_bit ^^ k) x = (crc_bit ^^ k) y \<Longrightarrow> x = y"
  by (induction k arbitrary: x y) (auto dest: crc_bit_inj)

text \<open>A byte in the low half moves up unchanged.\<close>

lemma crc_bits_low: "k \<le> 8 \<Longrightarrow> (crc_bit ^^ k) (ucast (b :: byte)) = push_bit k (ucast b)"
proof (induction k)
  case 0
  then show ?case by simp
next
  case (Suc k)
  have "\<not> bit b (15 - k)" using Suc.prems bit_imp_le_length[of b "15 - k"] by auto
  then have "\<not> bit (push_bit k (ucast b) :: u16) 15" by (simp add: bit_push_bit_iff bit_ucast_iff)
  then have "crc_bit (push_bit k (ucast b)) = push_bit 1 (push_bit k (ucast b))"
    unfolding crc_bit_alt by (simp only: if_False xor.right_neutral)
  also have "\<dots> = push_bit (Suc k) (ucast b)" by (simp only: push_bit_push_bit) simp
  finally show ?case using Suc by simp
qed

lemma crc_two: "crc_byte (crc_byte c b1) b2 = (crc_bit ^^ 16) (c XOR (push_bit 8 (ucast b1) XOR ucast b2))"
proof -
  have "push_bit 8 (ucast b2) = (crc_bit ^^ 8) (ucast b2)" by (simp add: crc_bits_low)
  then have "crc_byte (crc_byte c b1) b2 = (crc_bit ^^ 8) ((crc_bit ^^ 8) ((c XOR push_bit 8 (ucast b1)) XOR ucast b2))"
    unfolding crc_byte_def by (simp only: crc_bits_linear)
  moreover have "(crc_bit ^^ 16) x = (crc_bit ^^ 8) ((crc_bit ^^ 8) x)" for x
    using funpow_add[of 8 8 crc_bit] by (simp add: fun_eq_iff)
  ultimately show ?thesis by (simp only: xor.assoc)
qed

lemma two_bytes_inj:
  assumes "push_bit 8 (ucast (a1 :: byte)) XOR (ucast (a2 :: byte)) = (push_bit 8 (ucast (b1 :: byte)) XOR ucast (b2 :: byte) :: u16)"
  shows "a1 = b1 \<and> a2 = b2"
proof
  have e: "bit (push_bit 8 (ucast a1) XOR (ucast a2) :: u16) n \<longleftrightarrow> bit (push_bit 8 (ucast b1) XOR ucast b2 :: u16) n" for n
    using assms by simp
  show "a1 = b1"
  proof (rule bit_word_eqI)
    fix n assume "n < LENGTH(8)"
    moreover have "\<not> bit a2 (n + 8)" "\<not> bit b2 (n + 8)" using bit_imp_le_length[of _ "n + 8"] by fastforce+
    ultimately show "bit a1 n \<longleftrightarrow> bit b1 n"
      using e[of "n + 8"] by (simp add: bit_xor_iff bit_push_bit_iff bit_ucast_iff)
  qed
  show "a2 = b2"
  proof (rule bit_word_eqI)
    fix n assume "n < LENGTH(8)"
    then show "bit a2 n \<longleftrightarrow> bit b2 n"
      using e[of n] by (simp add: bit_xor_iff bit_push_bit_iff bit_ucast_iff)
  qed
qed

lemma crc_two_inj: "crc_byte (crc_byte c a1) a2 = crc_byte (crc_byte c b1) b2 \<Longrightarrow> a1 = b1 \<and> a2 = b2"
  unfolding crc_two by (drule crc_bits_inj) (metis bit.xor_left_self two_bytes_inj)

lemma crc_byte_inj: "crc_byte c b = crc_byte d b \<Longrightarrow> c = d"
  unfolding crc_byte_def by (drule crc_bits_inj) (metis bit.xor_left_self xor.commute)

lemma crc_fold_inj: "foldl crc_byte c bs = foldl crc_byte d bs \<Longrightarrow> c = d"
  by (induction bs arbitrary: c d) (auto dest: crc_byte_inj)

text \<open>Any change confined to two neighbouring bytes changes the CRC.\<close>

lemma crc_detects_burst:
  assumes "length xs = 2" and "length ys = 2" and "xs \<noteq> ys"
  shows "slvr_crc16 (Some (pre @ xs @ post)) \<noteq> slvr_crc16 (Some (pre @ ys @ post))"
proof
  assume e: "slvr_crc16 (Some (pre @ xs @ post)) = slvr_crc16 (Some (pre @ ys @ post))"
  obtain a1 a2 where xs: "xs = [a1, a2]" using assms(1) by (auto simp: length_Suc_conv numeral_2_eq_2)
  obtain b1 b2 where ys: "ys = [b1, b2]" using assms(2) by (auto simp: length_Suc_conv numeral_2_eq_2)
  have "foldl crc_byte (foldl crc_byte (foldl crc_byte 0xFFFF pre) xs) post
      = foldl crc_byte (foldl crc_byte (foldl crc_byte 0xFFFF pre) ys) post"
    using e by (simp add: slvr_crc16_def)
  then have "foldl crc_byte (foldl crc_byte 0xFFFF pre) xs = foldl crc_byte (foldl crc_byte 0xFFFF pre) ys"
    by (rule crc_fold_inj)
  then have "a1 = b1 \<and> a2 = b2" using crc_two_inj[of "foldl crc_byte 0xFFFF pre"] by (simp add: xs ys)
  then show False using assms(3) xs ys by simp
qed

section \<open>Memory safety of the parser\<close>

fun frame_bounds :: "slvr_parser_state \<Rightarrow> slvr_frame \<Rightarrow> u16 \<Rightarrow> bool" where
  "frame_bounds SLVR_PARSE_STATE_PAYLOAD f i \<longleftrightarrow> i < sf_length f \<and> sf_length f \<le> SLVR_MAX_PAYLOAD_LEN"
| "frame_bounds SLVR_PARSE_STATE_CRC_H f i \<longleftrightarrow> sf_length f \<le> SLVR_MAX_PAYLOAD_LEN"
| "frame_bounds SLVR_PARSE_STATE_CRC_L f i \<longleftrightarrow> sf_length f \<le> SLVR_MAX_PAYLOAD_LEN"
| "frame_bounds _ f i \<longleftrightarrow> True"

definition parser_inv :: "slvr_parser \<Rightarrow> bool" where
  "parser_inv p \<longleftrightarrow> length (sf_payload (sp_frame p)) = 512 \<and> frame_bounds (sp_state p) (sp_frame p) (sp_payload_idx p)
     \<and> (sp_state p \<in> {SLVR_PARSE_STATE_TYPE, SLVR_PARSE_STATE_FLAGS, SLVR_PARSE_STATE_SEQ, SLVR_PARSE_STATE_LEN_H,
          SLVR_PARSE_STATE_LEN_L, SLVR_PARSE_STATE_PAYLOAD, SLVR_PARSE_STATE_CRC_H, SLVR_PARSE_STATE_CRC_L}
        \<longrightarrow> sf_version (sp_frame p) = SLVR_VERSION_1)"

lemma feed_byte_inv:
  assumes "parser_inv p" and "parser_step b p = (r, p')"
  shows "parser_inv p' \<and> (\<forall>g. r = Some g \<longrightarrow> frame_ok g \<and> sf_crc16 g = expected_crc g)"
proof (cases "sp_state p")
  case SLVR_PARSE_STATE_PAYLOAD
  have "sp_payload_idx p + 1 < sf_length (sp_frame p)" if "\<not> sf_length (sp_frame p) \<le> sp_payload_idx p + 1"
    using that by simp
  then show ?thesis using assms SLVR_PARSE_STATE_PAYLOAD
    by (auto simp: parser_inv_def parser_step_def Let_def)
next
  case SLVR_PARSE_STATE_CRC_L
  then show ?thesis using assms
    by (auto simp: parser_inv_def parser_step_def Let_def frame_ok_def split: if_splits)
next
  case SLVR_PARSE_STATE_LEN_L
  then show ?thesis using assms
    by (auto simp: parser_inv_def parser_step_def Let_def word_gt_0 split: if_splits)
qed (use assms in \<open>auto simp: parser_inv_def parser_step_def Let_def split: if_splits\<close>)

lemma feed_inv:
  assumes "parser_inv p" and "slvr_feed bs p = (gs, p')"
  shows "parser_inv p' \<and> (\<forall>g \<in> set gs. frame_ok g \<and> sf_crc16 g = expected_crc g)"
  using assms
proof (induction bs arbitrary: p gs)
  case Nil
  then show ?case by simp
next
  case (Cons b bs)
  obtain r p1 where s: "parser_step b p = (r, p1)" by fastforce
  obtain hs where h: "slvr_feed bs p1 = (hs, p')" "gs = (case r of None \<Rightarrow> hs | Some f \<Rightarrow> f # hs)"
    using Cons.prems(2) s by (auto split: prod.splits)
  have i: "parser_inv p1 \<and> (\<forall>g. r = Some g \<longrightarrow> frame_ok g \<and> sf_crc16 g = expected_crc g)"
    by (rule feed_byte_inv[OF Cons.prems(1) s])
  then show ?case using Cons.IH[OF _ h(1)] h(2) by (auto split: option.splits)
qed

section \<open>Properties\<close>

definition demo_frame :: slvr_frame where
  "demo_frame = slvr_frame_zero\<lparr>sf_version := 1, sf_type := 0x8D, sf_sequence := 7, sf_length := 3,
     sf_payload := [10, 20, 83] @ replicate 509 0\<rparr>"

definition demo_parser :: slvr_parser where
  "demo_parser = \<lparr>sp_state = SLVR_PARSE_STATE_MAGIC_0, sp_frame = slvr_frame_zero,
     sp_payload_idx = 0, sp_dropped_bytes = 0, sp_frames_received = 0, sp_crc_errors = 0\<rparr>"

lemma demo_frame_ok: "frame_ok demo_frame"
  by (simp add: frame_ok_def demo_frame_def SLVR_VERSION_1_def SLVR_MAX_PAYLOAD_LEN_def)

lemma demo_parser_idle: "idle demo_parser"
  by (simp add: idle_def demo_parser_def slvr_frame_zero_def SLVR_MAX_PAYLOAD_LEN_def)

text \<open>C24. What \<open>slvr_encode_frame\<close> writes for a valid frame, fed byte by byte to a parser between
  two frames, delivers exactly that frame: same header, same payload bytes.\<close>

theorem encode_parse_roundtrip:
  assumes "idle p" and "frame_ok f" and "12 + unat (sf_length f) \<le> length out"
    and "slvr_encode_frame True f out (length out) = (st, buf, Some n)"
  shows "\<exists>g p'. slvr_feed (take n buf) p = ([g], p') \<and> same_frame g f \<and> idle p'"
proof -
  have e: "buf = wire f @ drop (12 + unat (sf_length f)) out" and n: "n = 12 + unat (sf_length f)"
    using encode_wire[OF assms(2,3), of out] assms(4) by auto
  have "length (wire f) = n"
    using length_content[OF assms(2)] by (simp add: wire_def header_wire_def header_bytes_def crc_bytes_def n)
  then have "take n buf = wire f" by (simp add: e)
  then show ?thesis using feed_wire[OF assms(1,2)] by metis
qed

theorem encode_parse_roundtrip_witness:
  "\<exists>g p'. slvr_feed (take 15 (fst (snd (slvr_encode_frame True demo_frame (replicate 64 0) 64)))) demo_parser = ([g], p')
     \<and> same_frame g demo_frame"
proof -
  have l: "sf_length demo_frame = 3" by (simp add: demo_frame_def)
  have "slvr_encode_frame True demo_frame (replicate 64 0) 64
      = (MK_STATUS_OK, wire demo_frame @ drop 15 (replicate 64 0), Some 15)"
    using encode_wire[OF demo_frame_ok, of 64 "replicate 64 0"] l by simp
  then show ?thesis
    using encode_parse_roundtrip[OF demo_parser_idle demo_frame_ok, of "replicate 64 0"] l by fastforce
qed

text \<open>C25. A stream of valid frames, each preceded by any noise without the first magic byte, is decoded to
  exactly those frames in order; every noise byte is counted as dropped and no CRC error arises.\<close>

theorem stream_delivery:
  assumes "idle p" and "\<forall>(noise, f) \<in> set segs. SLVR_MAGIC_0 \<notin> set noise \<and> frame_ok f"
  shows "\<exists>gs p'. slvr_feed (concat (map (\<lambda>(noise, f). noise @ wire f) segs)) p = (gs, p')
    \<and> list_all2 same_frame gs (map snd segs)
    \<and> sp_dropped_bytes p' = sp_dropped_bytes p + of_nat (length (concat (map fst segs)))
    \<and> sp_frames_received p' = sp_frames_received p + of_nat (length segs) \<and> sp_crc_errors p' = sp_crc_errors p"
  using feed_segments[OF assms] by blast

theorem stream_delivery_witness:
  "\<exists>gs p'. slvr_feed (concat (map (\<lambda>(noise, f). noise @ wire f) [([1, 2], demo_frame), ([], demo_frame)])) demo_parser = (gs, p')
    \<and> sp_dropped_bytes p' = 2"
  using stream_delivery[OF demo_parser_idle, of "[([1, 2], demo_frame), ([], demo_frame)]"] demo_frame_ok
  by (auto simp: SLVR_MAGIC_0_def demo_parser_def)



text \<open>If transmission changes one or two neighbouring bytes of the header fields behind the magic
  (length and version kept) or of the payload, the frame is not delivered: it is counted as one CRC
  error and the parser is ready for the next frame. \<open>f\<close> was sent, the bytes of \<open>f'\<close> arrive.\<close>

theorem corrupted_frame_rejected:
  assumes "idle p" and "frame_ok f" and "frame_ok f'" and "sf_length f' = sf_length f"
    and "header_bytes f @ content f = pre @ xs @ post" and "header_bytes f' @ content f' = pre @ ys @ post"
    and "length xs = 2" and "length ys = 2" and "xs \<noteq> ys"
  shows "\<exists>p'. slvr_feed (header_wire f' @ content f' @ crc_bytes (frame_crc f (content f))) p = ([], p')
    \<and> idle p' \<and> sp_crc_errors p' = sp_crc_errors p + 1 \<and> sp_frames_received p' = sp_frames_received p"
proof -
  have "frame_crc f (content f) \<noteq> frame_crc f' (content f')"
    unfolding frame_crc_def assms(5,6) by (rule crc_detects_burst[OF assms(7-9)])
  moreover have "sp_state p = SLVR_PARSE_STATE_MAGIC_0" "length (sf_payload (sp_frame p)) = 512"
    "sf_version f' = SLVR_VERSION_1" "sf_length f' \<le> SLVR_MAX_PAYLOAD_LEN"
    using assms(1,3) by (simp_all add: idle_def frame_ok_def)
  ultimately have ne: "frame_crc f (content f) \<noteq> frame_crc f' (content f')"
    and a: "sp_state p = SLVR_PARSE_STATE_MAGIC_0" "length (sf_payload (sp_frame p)) = 512"
      "sf_version f' = SLVR_VERSION_1" "sf_length f' \<le> SLVR_MAX_PAYLOAD_LEN" by blast+
  show ?thesis
  proof (rule feed_frame[OF a length_content[OF assms(3)], of "frame_crc f (content f)"])
    fix g p'
    assume "slvr_feed (header_wire f' @ content f' @ crc_bytes (frame_crc f (content f))) p
        = (if frame_crc f (content f) = frame_crc f' (content f') then [g] else [], p')"
      "sp_state p' = SLVR_PARSE_STATE_MAGIC_0" "length (sf_payload (sp_frame p')) = 512"
      "sp_frames_received p' = sp_frames_received p + (if frame_crc f (content f) = frame_crc f' (content f') then 1 else 0)"
      "sp_crc_errors p' = sp_crc_errors p + (if frame_crc f (content f) = frame_crc f' (content f') then 0 else 1)"
    then show ?thesis using ne by (intro exI[of _ p']) (simp add: idle_def)
  qed
qed

theorem corrupted_frame_rejected_witness:
  "\<exists>p'. slvr_feed (header_wire (demo_frame\<lparr>sf_type := 0x8C\<rparr>) @ content (demo_frame\<lparr>sf_type := 0x8C\<rparr>)
       @ crc_bytes (frame_crc demo_frame (content demo_frame))) demo_parser = ([], p')
    \<and> sp_crc_errors p' = sp_crc_errors demo_parser + 1"
proof -
  let ?f = "demo_frame\<lparr>sf_type := 0x8C\<rparr>"
  have h: "header_bytes demo_frame @ content demo_frame = [1] @ [0x8D, 0] @ [7, 0, 3, 10, 20, 83]"
    "header_bytes ?f @ content ?f = [1] @ [0x8C, 0] @ [7, 0, 3, 10, 20, 83]"
    by (simp_all add: header_bytes_def content_def demo_frame_def slvr_frame_zero_def)
  have f: "frame_ok ?f" using demo_frame_ok by (simp add: frame_ok_def)
  show ?thesis
    using corrupted_frame_rejected[OF demo_parser_idle demo_frame_ok f _ h] by auto
qed

text \<open>A weakness of the resynchronisation: when the first two magic bytes arrive just before a frame,
  the \<open>S\<close> that starts the frame is discarded, and a valid frame that has no other \<open>S\<close> is lost whole.\<close>

theorem partial_magic_loses_frame:
  assumes "idle p" and "SLVR_MAGIC_0 \<notin> set (tl (wire f))"
  shows "fst (slvr_feed ([SLVR_MAGIC_0, SLVR_MAGIC_1] @ wire f) p) = []"
proof -
  obtain ws where w: "wire f = SLVR_MAGIC_0 # ws" by (simp add: wire_def header_wire_def)
  let ?q = "p\<lparr>sp_state := SLVR_PARSE_STATE_MAGIC_0, sp_dropped_bytes := sp_dropped_bytes p + 3\<rparr>"
  have "slvr_feed [SLVR_MAGIC_0, SLVR_MAGIC_1, SLVR_MAGIC_0] p = ([], ?q)"
    using assms(1) by (simp add: parser_step_def idle_def Let_def SLVR_MAGIC_0_def SLVR_MAGIC_1_def SLVR_MAGIC_2_def)
  moreover have "fst (slvr_feed ws ?q) = []"
    using feed_garbage[of ?q ws] assms w by (simp add: idle_def)
  ultimately show ?thesis
    using feed_append[of "[SLVR_MAGIC_0, SLVR_MAGIC_1, SLVR_MAGIC_0]" ws p] w by (simp split: prod.splits)
qed

theorem partial_magic_loses_frame_witness:
  "fst (slvr_feed ([SLVR_MAGIC_0, SLVR_MAGIC_1] @ wire (demo_frame\<lparr>sf_length := 0\<rparr>)) demo_parser) = []"
  by (rule partial_magic_loses_frame[OF demo_parser_idle]) code_simp

end
