(* ===== verification/Retro_Games.thy ===== *)
theory Retro_Games
  imports Hal_Gpio "HOL-Library.Signed_Division"
begin

text \<open>
  \<^verbatim>\<open>os/apps/retro_games\<close>: the input controller and the lander game. The pin levels and the clock
  readings of the debounced inputs are arguments. An \<open>int16_t\<close> is a \<open>u16\<close> whose value is read with
  \<open>sint\<close>; storing the sum of two of them wraps.
\<close>

section \<open>Input\<close>

definition INPUT_DEBOUNCE_MS :: u32 where "INPUT_DEBOUNCE_MS = 15"
definition INPUT_BTN_UP :: u8 where "INPUT_BTN_UP = 0x01"
definition INPUT_BTN_DOWN :: u8 where "INPUT_BTN_DOWN = 0x02"
definition INPUT_BTN_LEFT :: u8 where "INPUT_BTN_LEFT = 0x04"
definition INPUT_BTN_RIGHT :: u8 where "INPUT_BTN_RIGHT = 0x08"
definition INPUT_BTN_A :: u8 where "INPUT_BTN_A = 0x10"
definition INPUT_BTN_B :: u8 where "INPUT_BTN_B = 0x20"

definition input_init :: "u8 \<times> gpio \<Rightarrow> mk_status \<times> u8 \<times> gpio" where
  "input_init s = (MK_STATUS_OK, 0, snd (hal_gpio_init (snd s)))"

definition input_set_state :: "u8 \<Rightarrow> u8 \<times> gpio \<Rightarrow> u8 \<times> gpio" where
  "input_set_state state s = (state, snd s)"

text \<open>The readings of the buttons, in order; \<open>now k\<close> is the clock at the \<open>k\<close>-th.\<close>

fun read_buttons :: "(u32 \<Rightarrow> u8) \<Rightarrow> (nat \<Rightarrow> u64) \<Rightarrow> nat \<Rightarrow> (u32 \<times> u8) list \<Rightarrow> u8 \<Rightarrow> gpio \<Rightarrow> u8 \<times> gpio" where
  "read_buttons level now k [] state g = (state, g)"
| "read_buttons level now k ((pin, btn) # ps) state g =
     (case hal_gpio_read_debounced level (now k) pin INPUT_DEBOUNCE_MS g of
        (l, g1) \<Rightarrow> read_buttons level now (Suc k) ps (if l = 0 then state OR btn else state) g1)"

definition input_get_state :: "(u32 \<Rightarrow> u8) \<Rightarrow> (nat \<Rightarrow> u64) \<Rightarrow> u8 \<times> gpio \<Rightarrow> u8 \<times> u8 \<times> gpio" where
  "input_get_state level now s =
     (case read_buttons level now 0
        [(HAL_PIN_BUTTON_UP, INPUT_BTN_UP), (HAL_PIN_BUTTON_DOWN, INPUT_BTN_DOWN),
         (HAL_PIN_BUTTON_LEFT, INPUT_BTN_LEFT), (HAL_PIN_BUTTON_RIGHT, INPUT_BTN_RIGHT),
         (HAL_PIN_BUTTON_A, INPUT_BTN_A), (HAL_PIN_BUTTON_B, INPUT_BTN_B)] (fst s) (snd s) of
        (state, g) \<Rightarrow> (state, fst s, g))"

section \<open>The lander\<close>

definition LANDING_PAD_X :: int where "LANDING_PAD_X = 50"
definition LANDING_PAD_Y :: int where "LANDING_PAD_Y = 60"
definition LANDING_PAD_W :: int where "LANDING_PAD_W = 28"

datatype game_status = GAME_STATE_PLAYING | GAME_STATE_LANDED | GAME_STATE_CRASHED

fun game_status_ord :: "game_status \<Rightarrow> nat" where
  "game_status_ord GAME_STATE_PLAYING = 0"
| "game_status_ord GAME_STATE_LANDED = 1"
| "game_status_ord GAME_STATE_CRASHED = 2"

record game_lander =
  gl_x :: u16
  gl_y :: u16
  gl_vx :: u16
  gl_vy :: u16
  gl_fuel :: u16
  gl_score :: u16
  gl_status :: game_status

record games =
  ga_lander :: game_lander
  ga_frame_counter :: u32
  ga_running :: bool
  ga_input :: "u8 \<times> gpio"

definition games_static :: games where
  "games_static = \<lparr>ga_lander = \<lparr>gl_x = 0, gl_y = 0, gl_vx = 0, gl_vy = 0, gl_fuel = 0, gl_score = 0,
     gl_status = GAME_STATE_PLAYING\<rparr>, ga_frame_counter = 0, ga_running = False, ga_input = (0, gpio_static)\<rparr>"

definition reset_lander :: "game_lander \<Rightarrow> game_lander" where
  "reset_lander l = l\<lparr>gl_x := 200, gl_y := 50, gl_vx := 5, gl_vy := 0, gl_fuel := 500,
     gl_status := GAME_STATE_PLAYING\<rparr>"

definition retro_games_init :: "games \<Rightarrow> mk_status \<times> games" where
  "retro_games_init s =
     (MK_STATUS_OK, s\<lparr>ga_input := snd (input_init (ga_input s)),
        ga_lander := (reset_lander (ga_lander s))\<lparr>gl_score := 0\<rparr>, ga_running := False\<rparr>)"

definition retro_games_start :: "games \<Rightarrow> mk_status \<times> games" where
  "retro_games_start s = (MK_STATUS_OK, s\<lparr>ga_running := True, ga_lander := reset_lander (ga_lander s)\<rparr>)"

definition retro_games_stop :: "games \<Rightarrow> mk_status \<times> games" where
  "retro_games_stop s = (MK_STATUS_OK, s\<lparr>ga_running := False\<rparr>)"

definition pressed :: "u8 \<Rightarrow> u8 \<Rightarrow> bool" where
  "pressed input btn \<longleftrightarrow> input AND btn \<noteq> 0"

text \<open>Gravity and the player's controls\<close>

definition apply_controls :: "u8 \<Rightarrow> game_lander \<Rightarrow> game_lander" where
  "apply_controls input l0 =
     (let l = l0\<lparr>gl_vy := gl_vy l0 + 1\<rparr>
      in if 0 < gl_fuel l
         then let l1 = (if pressed input INPUT_BTN_UP \<or> pressed input INPUT_BTN_A
                        then l\<lparr>gl_vy := gl_vy l - 2, gl_fuel := gl_fuel l - 1\<rparr> else l);
                  l2 = (if pressed input INPUT_BTN_LEFT
                        then l1\<lparr>gl_vx := gl_vx l1 - 1, gl_fuel := gl_fuel l1 - 1\<rparr> else l1)
              in (if pressed input INPUT_BTN_RIGHT
                  then l2\<lparr>gl_vx := gl_vx l2 + 1, gl_fuel := gl_fuel l2 - 1\<rparr> else l2)
         else l)"

definition move_lander :: "game_lander \<Rightarrow> game_lander" where
  "move_lander l = l\<lparr>gl_x := gl_x l + gl_vx l, gl_y := gl_y l + gl_vy l\<rparr>"

definition on_pad :: "game_lander \<Rightarrow> bool" where
  "on_pad l \<longleftrightarrow>
     (let px = sint (gl_x l) sdiv 10
      in LANDING_PAD_X \<le> px \<and> px + 6 \<le> LANDING_PAD_X + LANDING_PAD_W \<and> sint (gl_vy l) < 8 \<and> \<bar>sint (gl_vx l)\<bar> < 4)"

definition check_landing :: "game_lander \<Rightarrow> game_lander" where
  "check_landing l =
     (if LANDING_PAD_Y - 4 \<le> sint (gl_y l) sdiv 10
      then if on_pad l
           then l\<lparr>gl_status := GAME_STATE_LANDED, gl_score := gl_score l + (100 + gl_fuel l)\<rparr>
           else l\<lparr>gl_status := GAME_STATE_CRASHED\<rparr>
      else l)"

definition lander_frame :: "u8 \<Rightarrow> game_lander \<Rightarrow> game_lander" where
  "lander_frame input l =
     (if gl_status l = GAME_STATE_PLAYING then check_landing (move_lander (apply_controls input l))
      else if pressed input INPUT_BTN_A \<or> pressed input INPUT_BTN_B then reset_lander l else l)"

definition retro_games_task :: "(u32 \<Rightarrow> u8) \<Rightarrow> (nat \<Rightarrow> u64) \<Rightarrow> games \<Rightarrow> games" where
  "retro_games_task level now s =
     (if \<not> ga_running s then s
      else case input_get_state level now (ga_input s) of
        (input, i) \<Rightarrow> s\<lparr>ga_frame_counter := ga_frame_counter s + 1, ga_input := i,
                         ga_lander := lander_frame input (ga_lander s)\<rparr>)"

definition retro_games_get_lander :: "games \<Rightarrow> game_lander" where
  "retro_games_get_lander s = ga_lander s"

definition retro_games_reset :: "games \<Rightarrow> mk_status \<times> games" where
  "retro_games_reset s = (MK_STATUS_OK, s\<lparr>ga_lander := (reset_lander (ga_lander s))\<lparr>gl_score := 0\<rparr>\<rparr>)"

section \<open>The input state\<close>

text \<open>With the buttons at rest the input is the state the host set.\<close>

definition buttons_idle :: "gpio \<Rightarrow> bool" where
  "buttons_idle g \<longleftrightarrow> gp_initialized g \<and> length (gp_debounce_tbl g) = 32 \<and> (\<forall>st \<in> set (gp_debounce_tbl g). settled 1 st)"

lemma debounce_idle:
  assumes "buttons_idle g" and "level pin = 1"
  shows "\<exists>g'. hal_gpio_read_debounced level now pin ms g = (1, g') \<and> buttons_idle g'"
proof (cases "32 \<le> pin")
  case True
  then show ?thesis using assms
    by (simp add: hal_gpio_read_debounced_def buttons_idle_def hal_gpio_read_def MAX_DEBOUNCE_PINS_def)
next
  case False
  let ?st = "gp_debounce_tbl g ! unat pin"
  have "unat pin < 32" using False by (simp add: word_le_nat_alt)
  then have "settled 1 ?st" using assms(1) by (simp add: buttons_idle_def)
  then have d: "settled 1 (debounce now 1 ms ?st)" "last_stable_level (debounce now 1 ms ?st) = 1"
    by (auto simp: settled_def debounce_def Let_def)
  then show ?thesis using assms False
    by (auto simp: hal_gpio_read_debounced_def buttons_idle_def hal_gpio_read_def MAX_DEBOUNCE_PINS_def Let_def
        dest!: set_update_subset_insert[THEN subsetD])
qed

lemma read_buttons_idle:
  "buttons_idle g \<Longrightarrow> (\<And>pin. level pin = 1) \<Longrightarrow> \<exists>g'. read_buttons level now k ps state g = (state, g') \<and> buttons_idle g'"
proof (induction ps arbitrary: k g)
  case (Cons p ps)
  obtain pin btn where p: "p = (pin, btn)" by (cases p)
  obtain g1 where "hal_gpio_read_debounced level (now k) pin INPUT_DEBOUNCE_MS g = (1, g1)" "buttons_idle g1"
    using debounce_idle[of g level pin "now k", OF Cons.prems(1) Cons.prems(2)[of pin]] by blast
  note g1 = this
  obtain g' where "read_buttons level now (Suc k) ps state g1 = (state, g')" "buttons_idle g'"
    using Cons.IH[of g1 "Suc k"] g1(2) Cons.prems(2) by blast
  then show ?case by (simp add: p g1(1))
qed simp

lemma input_idle:
  assumes "buttons_idle g"
  shows "\<exists>g'. input_get_state host_level now (h, g) = (h, h, g') \<and> buttons_idle g'"
proof -
  let ?ps = "[(HAL_PIN_BUTTON_UP, INPUT_BTN_UP), (HAL_PIN_BUTTON_DOWN, INPUT_BTN_DOWN),
         (HAL_PIN_BUTTON_LEFT, INPUT_BTN_LEFT), (HAL_PIN_BUTTON_RIGHT, INPUT_BTN_RIGHT),
         (HAL_PIN_BUTTON_A, INPUT_BTN_A), (HAL_PIN_BUTTON_B, INPUT_BTN_B)]"
  obtain g' where g': "read_buttons host_level now 0 ?ps h g = (h, g')" "buttons_idle g'"
    using read_buttons_idle[OF assms, of host_level now 0 ?ps h] by (auto simp: host_level_def)
  then have "input_get_state host_level now (h, g) = (h, h, g')"
    by (simp only: input_get_state_def fst_conv snd_conv prod.case)
  then show ?thesis using g'(2) by blast
qed

lemma init_idle: "buttons_idle (snd (hal_gpio_init g))"
  by (simp add: hal_gpio_init_def buttons_idle_def settled_def MAX_DEBOUNCE_PINS_def)

section \<open>The game\<close>

text \<open>The thrusters an input fires\<close>

definition thrusters :: "u8 \<Rightarrow> nat" where
  "thrusters input = of_bool (pressed input INPUT_BTN_UP \<or> pressed input INPUT_BTN_A)
     + of_bool (pressed input INPUT_BTN_LEFT) + of_bool (pressed input INPUT_BTN_RIGHT)"

lemma controls_fuel:
  "gl_fuel (apply_controls input l) = (if gl_fuel l = 0 then 0 else gl_fuel l - of_nat (thrusters input))"
  "gl_score (apply_controls input l) = gl_score l" "gl_status (apply_controls input l) = gl_status l"
  by (auto simp: apply_controls_def Let_def thrusters_def word_gt_0)

text \<open>Two thrusters on the last unit of fuel: the counter wraps to 65535.\<close>

lemma fuel_underflow:
  "gl_fuel l = 1 \<Longrightarrow> gl_fuel (apply_controls (INPUT_BTN_UP OR INPUT_BTN_LEFT) l) = 65535"
  by (simp add: controls_fuel thrusters_def pressed_def INPUT_BTN_UP_def INPUT_BTN_LEFT_def INPUT_BTN_RIGHT_def INPUT_BTN_A_def)

lemma fuel_single:
  assumes "thrusters input \<le> 1"
  shows "gl_fuel (apply_controls input l) \<le> gl_fuel l"
proof (cases "gl_fuel l = 0")
  case False
  then have "1 \<le> unat (gl_fuel l)" by (simp add: Suc_le_eq unat_gt_0)
  moreover have "thrusters input = 0 \<or> thrusters input = 1" using assms by linarith
  ultimately show ?thesis using False by (auto simp: controls_fuel word_le_nat_alt unat_sub_if_size)
qed (simp add: controls_fuel)

text \<open>The number of landings of a game and the points they brought\<close>

fun landings :: "u8 list \<Rightarrow> game_lander \<Rightarrow> u16 list" where
  "landings [] l = []"
| "landings (i # ins) l =
     (let l1 = lander_frame i l
      in (if gl_status l = GAME_STATE_PLAYING \<and> gl_status l1 = GAME_STATE_LANDED then [100 + gl_fuel l1] else [])
         @ landings ins l1)"

fun play :: "u8 list \<Rightarrow> game_lander \<Rightarrow> game_lander" where
  "play [] l = l"
| "play (i # ins) l = play ins (lander_frame i l)"

lemma frame_step:
  assumes "thrusters i \<le> 1" and "gl_fuel l \<le> 500"
  defines "l1 \<equiv> lander_frame i l"
  shows "gl_fuel l1 \<le> 500"
    and "gl_score l1 = gl_score l + (if gl_status l = GAME_STATE_PLAYING \<and> gl_status l1 = GAME_STATE_LANDED then 100 + gl_fuel l1 else 0)"
proof -
  have "gl_fuel (apply_controls i l) \<le> 500" using fuel_single[OF assms(1)] assms(2) by (rule order.trans)
  then show "gl_fuel l1 \<le> 500" using assms(2)
    by (simp add: l1_def lander_frame_def check_landing_def move_lander_def reset_lander_def)
  show "gl_score l1 = gl_score l + (if gl_status l = GAME_STATE_PLAYING \<and> gl_status l1 = GAME_STATE_LANDED then 100 + gl_fuel l1 else 0)"
    by (simp add: l1_def lander_frame_def check_landing_def move_lander_def reset_lander_def controls_fuel)
qed

text \<open>C37. Whatever single thrusters the player fires, the fuel never exceeds the 500 units of a full
  tank, every landing brings between 100 and 600 points, and the score is the sum of the landings.\<close>

theorem lander_scores:
  assumes "list_all (\<lambda>i. thrusters i \<le> 1) inputs" and "gl_fuel l \<le> 500"
  shows "gl_fuel (play inputs l) \<le> 500 \<and> gl_score (play inputs l) = gl_score l + sum_list (landings inputs l)
    \<and> list_all (\<lambda>p. 100 \<le> p \<and> p \<le> 600) (landings inputs l)"
  using assms
proof (induction inputs arbitrary: l)
  case (Cons i ins)
  let ?l1 = "lander_frame i l"
  have st: "gl_fuel ?l1 \<le> 500" using frame_step(1)[of i l] Cons.prems by simp
  then have "unat (gl_fuel ?l1) \<le> 500" by (simp add: word_le_nat_alt)
  then have "100 \<le> 100 + gl_fuel ?l1 \<and> 100 + gl_fuel ?l1 \<le> 600"
    by (simp add: word_le_nat_alt unat_word_ariths)
  then show ?case
    using Cons.IH[OF _ st] frame_step(2)[of i l] Cons.prems by (simp add: Let_def add.assoc)
qed simp

text \<open>From the start of a game, falling without thrust ends in a crash after 32 frames.\<close>

theorem lander_scores_witness:
  "gl_fuel (play (replicate 32 0) (reset_lander (ga_lander games_static))) \<le> 500
   \<and> gl_status (play (replicate 32 0) (reset_lander (ga_lander games_static))) = GAME_STATE_CRASHED"
proof -
  have "thrusters 0 = 0" by (simp add: thrusters_def pressed_def)
  moreover have "gl_status (play (replicate 32 0) (reset_lander (ga_lander games_static))) = GAME_STATE_CRASHED"
    by code_simp
  ultimately show ?thesis
    using lander_scores[of "replicate 32 0" "reset_lander (ga_lander games_static)"]
    by (simp add: reset_lander_def list_all_iff)
qed

end
