(* ===== verification/C_Bytes.thy ===== *)
theory C_Bytes
  imports C_String
begin

text \<open>
  Structures as the bytes they occupy. Target and host are little-endian; \<open>le16\<close> and \<open>le32\<close> are the
  bytes of an integer, \<open>of_le16\<close> and \<open>of_le32\<close> read them back.
\<close>

definition le16 :: "u16 \<Rightarrow> u8 list" where
  "le16 w = [ucast w, ucast (drop_bit 8 w)]"

definition le32 :: "u32 \<Rightarrow> u8 list" where
  "le32 w = [ucast w, ucast (drop_bit 8 w), ucast (drop_bit 16 w), ucast (drop_bit 24 w)]"

definition of_le16 :: "u8 list \<Rightarrow> u16" where
  "of_le16 bs = ucast (bs ! 0) OR push_bit 8 (ucast (bs ! 1))"

definition of_le32 :: "u8 list \<Rightarrow> u32" where
  "of_le32 bs = ucast (bs ! 0) OR push_bit 8 (ucast (bs ! 1)) OR push_bit 16 (ucast (bs ! 2))
     OR push_bit 24 (ucast (bs ! 3))"

text \<open>The field of \<open>n\<close> bytes at offset \<open>k\<close> of a structure\<close>

definition field :: "nat \<Rightarrow> nat \<Rightarrow> u8 list \<Rightarrow> u8 list" where
  "field k n bs = take n (drop k bs)"

text \<open>\<open>memcpy(dst + off, src, length src)\<close> on an array that is large enough\<close>

definition put_bytes :: "nat \<Rightarrow> u8 list \<Rightarrow> u8 list \<Rightarrow> u8 list" where
  "put_bytes off src dst = take off dst @ src @ drop (off + length src) dst"

text \<open>Characters as bytes\<close>

definition byte_of_char :: "char \<Rightarrow> u8" where
  "byte_of_char c = of_nat (of_char c)"

definition char_of_byte :: "u8 \<Rightarrow> char" where
  "char_of_byte b = char_of (unat b)"

definition bytes_of :: "string \<Rightarrow> u8 list" where
  "bytes_of s = map byte_of_char s"

definition chars_of :: "u8 list \<Rightarrow> string" where
  "chars_of bs = map char_of_byte bs"

lemma length_le16 [simp]: "length (le16 w) = 2"
  by (simp add: le16_def)

lemma length_le32 [simp]: "length (le32 w) = 4"
  by (simp add: le32_def)

lemma of_le16_le16 [simp]: "of_le16 (le16 w) = w"
proof (rule bit_word_eqI)
  fix n assume "n < LENGTH(16)"
  then show "bit (of_le16 (le16 w)) n \<longleftrightarrow> bit w n"
    by (auto simp: of_le16_def le16_def bit_or_iff bit_push_bit_iff bit_ucast_iff bit_drop_bit_eq)
qed

lemma of_le32_le32 [simp]: "of_le32 (le32 w) = w"
proof (rule bit_word_eqI)
  fix n assume "n < LENGTH(32)"
  moreover have "n < 8 \<or> 8 \<le> n \<and> n < 16 \<or> 16 \<le> n \<and> n < 24 \<or> 24 \<le> n" by linarith
  ultimately show "bit (of_le32 (le32 w)) n \<longleftrightarrow> bit w n"
    by (elim disjE) (auto simp: of_le32_def le32_def bit_or_iff bit_push_bit_iff bit_ucast_iff bit_drop_bit_eq)
qed

lemma le32_inj: "le32 v = le32 w \<Longrightarrow> v = w"
  using of_le32_le32 by metis

lemma bit_byte: "bit (b :: u8) n \<Longrightarrow> n < 8"
  using bit_imp_le_length[of b n] by simp

lemma le32_of_le32: "le32 (of_le32 [a, b, c, d]) = [a, b, c, d]"
proof -
  have "ucast (of_le32 [a, b, c, d]) = a" "ucast (drop_bit 8 (of_le32 [a, b, c, d])) = b"
    "ucast (drop_bit 16 (of_le32 [a, b, c, d])) = c" "ucast (drop_bit 24 (of_le32 [a, b, c, d])) = d"
    by (rule bit_word_eqI; auto simp: of_le32_def bit_or_iff bit_push_bit_iff bit_ucast_iff
        bit_drop_bit_eq dest: bit_byte)+
  then show ?thesis by (simp add: le32_def)
qed

lemma of_le32_inj: "of_le32 [a, b, c, d] = of_le32 [a', b', c', d'] \<Longrightarrow> [a, b, c, d] = [a', b', c', d']"
  using le32_of_le32 by metis

lemma length_field [simp]: "k + n \<le> length bs \<Longrightarrow> length (field k n bs) = n"
  by (simp add: field_def)

lemma field_append1: "k + n \<le> length xs \<Longrightarrow> field k n (xs @ ys) = field k n xs"
  by (simp add: field_def)

lemma field_append2: "length xs \<le> k \<Longrightarrow> field k n (xs @ ys) = field (k - length xs) n ys"
  by (simp add: field_def)

lemma field_0_all [simp]: "length bs = n \<Longrightarrow> field 0 n bs = bs"
  by (simp add: field_def)

lemma length_put_bytes [simp]: "off + length src \<le> length dst \<Longrightarrow> length (put_bytes off src dst) = length dst"
  by (simp add: put_bytes_def)

lemma char_of_byte_of_char [simp]: "char_of_byte (byte_of_char c) = c"
proof -
  have "of_char c < (256 :: nat)" by (rule nat_of_char_less_256)
  then show ?thesis by (simp add: char_of_byte_def byte_of_char_def unat_of_nat)
qed

lemma byte_of_char_of_byte [simp]: "byte_of_char (char_of_byte b) = b"
proof -
  have "unat b < 256" using unsigned_less[of b, where 'a = nat] by simp
  then show ?thesis by (simp add: char_of_byte_def byte_of_char_def)
qed

lemma byte_of_char_inj: "byte_of_char c = byte_of_char d \<Longrightarrow> c = d"
  using char_of_byte_of_char by metis

lemma chars_of_bytes_of [simp]: "chars_of (bytes_of s) = s"
  by (simp add: chars_of_def bytes_of_def comp_def)

lemma bytes_of_chars_of [simp]: "bytes_of (chars_of bs) = bs"
  by (simp add: chars_of_def bytes_of_def comp_def)

lemma length_bytes_of [simp]: "length (bytes_of s) = length s"
  by (simp add: bytes_of_def)

lemma length_chars_of [simp]: "length (chars_of s) = length s"
  by (simp add: chars_of_def)

end
