(* ===== verification/Vfs_Block.thy ===== *)
theory Vfs_Block
  imports Kernel_Types C_Bytes
begin

text \<open>
  \<^verbatim>\<open>os/vfs/vfs_block.c\<close>: the flash sectors, the CRC-32 and the power-loss safe records. The flash
  driver is that of the host build, whose flash is the array \<open>s_sim_flash\<close>; the addresses of its
  bytes are natural numbers. \<open>size_t\<close> has the 32 bits of the target.
\<close>

section \<open>Constants and state\<close>

definition VFS_SECTOR_SIZE :: u32 where "VFS_SECTOR_SIZE = 4096"
definition VFS_BLOCK_MAGIC :: u32 where "VFS_BLOCK_MAGIC = 0x4F534653"
definition VFS_RECORD_MAGIC :: u32 where "VFS_RECORD_MAGIC = 0x52454331"
definition VFS_RECORD_COMMIT_MAGIC :: u32 where "VFS_RECORD_COMMIT_MAGIC = 0x55AA55AA"
definition SIM_SECTOR_COUNT :: u32 where "SIM_SECTOR_COUNT = 64"

record vblock =
  vb_flash :: "nat \<Rightarrow> u8"
  vb_sector_count :: u32
  vb_initialized :: bool
  vb_crc_table :: "u32 list"
  vb_crc_table_ready :: bool

definition vblock_static :: vblock where
  "vblock_static = \<lparr>vb_flash = (\<lambda>_. 0), vb_sector_count = 0, vb_initialized = False,
     vb_crc_table = replicate 256 0, vb_crc_table_ready = False\<rparr>"

text \<open>\<open>flash_get f a n\<close> are the \<open>n\<close> bytes from address \<open>a\<close> on, \<open>flash_put a bs\<close> stores \<open>bs\<close> there.\<close>

definition flash_get :: "(nat \<Rightarrow> u8) \<Rightarrow> nat \<Rightarrow> nat \<Rightarrow> u8 list" where
  "flash_get f a n = map f [a..<a + n]"

definition flash_put :: "nat \<Rightarrow> u8 list \<Rightarrow> (nat \<Rightarrow> u8) \<Rightarrow> (nat \<Rightarrow> u8)" where
  "flash_put a bs f = (\<lambda>i. if a \<le> i \<and> i < a + length bs then bs ! (i - a) else f i)"

section \<open>CRC-32\<close>

definition crc32_bit :: "u32 \<Rightarrow> u32" where
  "crc32_bit c = (if c AND 1 \<noteq> 0 then 0xEDB88320 XOR drop_bit 1 c else drop_bit 1 c)"

definition init_crc_table :: "vblock \<Rightarrow> vblock" where
  "init_crc_table s = s\<lparr>vb_crc_table := map (\<lambda>i. (crc32_bit ^^ 8) (of_nat i)) [0..<256],
     vb_crc_table_ready := True\<rparr>"

definition crc32_table_step :: "u32 list \<Rightarrow> u32 \<Rightarrow> u8 \<Rightarrow> u32" where
  "crc32_table_step table c b = table ! unat ((c XOR ucast b) AND 0xFF) XOR drop_bit 8 c"

definition vfs_block_calc_crc32 :: "u8 list \<Rightarrow> vblock \<Rightarrow> u32 \<times> vblock" where
  "vfs_block_calc_crc32 data s0 =
     (let s = (if vb_crc_table_ready s0 then s0 else init_crc_table s0)
      in (foldl (crc32_table_step (vb_crc_table s)) 0xFFFFFFFF data XOR 0xFFFFFFFF, s))"

section \<open>Sectors\<close>

definition vfs_block_init :: "vblock \<Rightarrow> mk_status \<times> vblock" where
  "vfs_block_init s0 =
     (let s = (if vb_crc_table_ready s0 then s0 else init_crc_table s0)
      in (MK_STATUS_OK,
          s\<lparr>vb_flash := flash_put 0 (replicate (unat (SIM_SECTOR_COUNT * VFS_SECTOR_SIZE)) 0xFF) (vb_flash s),
            vb_sector_count := SIM_SECTOR_COUNT, vb_initialized := True\<rparr>))"

definition vfs_block_get_sector_count :: "vblock \<Rightarrow> u32" where
  "vfs_block_get_sector_count s = vb_sector_count s"

definition sector_addr :: "u32 \<Rightarrow> nat" where
  "sector_addr i = unat (i * VFS_SECTOR_SIZE)"

text \<open>The flag says that the buffer is not NULL; the result holds the bytes copied to it.\<close>

definition vfs_block_read :: "u32 \<Rightarrow> bool \<Rightarrow> u32 \<Rightarrow> vblock \<Rightarrow> mk_status \<times> u8 list" where
  "vfs_block_read sector_idx buffer_ok sz s =
     (if \<not> vb_initialized s \<or> \<not> buffer_ok \<or> vb_sector_count s \<le> sector_idx \<or> VFS_SECTOR_SIZE < sz
      then (MK_STATUS_INVALID_ARG, [])
      else (MK_STATUS_OK, flash_get (vb_flash s) (sector_addr sector_idx) (unat sz)))"

text \<open>\<open>None\<close> is a NULL buffer; otherwise the buffer holds at least \<open>size\<close> bytes.\<close>

definition vfs_block_write :: "u32 \<Rightarrow> u8 list option \<Rightarrow> u32 \<Rightarrow> vblock \<Rightarrow> mk_status \<times> vblock" where
  "vfs_block_write sector_idx buffer sz s =
     (case buffer of
        None \<Rightarrow> (MK_STATUS_INVALID_ARG, s)
      | Some buf \<Rightarrow>
          (if \<not> vb_initialized s \<or> vb_sector_count s \<le> sector_idx \<or> VFS_SECTOR_SIZE < sz
           then (MK_STATUS_INVALID_ARG, s)
           else (MK_STATUS_OK,
                 s\<lparr>vb_flash := flash_put (sector_addr sector_idx) (take (unat sz) buf) (vb_flash s)\<rparr>)))"

definition vfs_block_erase :: "u32 \<Rightarrow> vblock \<Rightarrow> mk_status \<times> vblock" where
  "vfs_block_erase sector_idx s =
     (if \<not> vb_initialized s \<or> vb_sector_count s \<le> sector_idx then (MK_STATUS_INVALID_ARG, s)
      else (MK_STATUS_OK,
            s\<lparr>vb_flash := flash_put (sector_addr sector_idx) (replicate (unat VFS_SECTOR_SIZE) 0xFF) (vb_flash s)\<rparr>))"

section \<open>Records\<close>

text \<open>\<open>vfs_record_header_t\<close> occupies 16 bytes: magic, version, sequence, payload length and CRC.\<close>

record vfs_record_header =
  rh_magic :: u32
  rh_version :: u16
  rh_sequence :: u16
  rh_payload_len :: u32
  rh_payload_crc32 :: u32

definition sizeof_record_header :: u32 where "sizeof_record_header = 16"

definition header_to_bytes :: "vfs_record_header \<Rightarrow> u8 list" where
  "header_to_bytes h = le32 (rh_magic h) @ le16 (rh_version h) @ le16 (rh_sequence h)
     @ le32 (rh_payload_len h) @ le32 (rh_payload_crc32 h)"

definition header_of_bytes :: "u8 list \<Rightarrow> vfs_record_header" where
  "header_of_bytes bs = \<lparr>rh_magic = of_le32 (field 0 4 bs), rh_version = of_le16 (field 4 2 bs),
     rh_sequence = of_le16 (field 6 2 bs), rh_payload_len = of_le32 (field 8 4 bs),
     rh_payload_crc32 = of_le32 (field 12 4 bs)\<rparr>"

text \<open>\<open>None\<close> is a NULL pointer, the flag says that \<open>out_total_len\<close> is not NULL. The result holds the
  buffer afterwards and the length stored. The payload is the \<open>payload_len\<close> bytes at the pointer.\<close>

definition vfs_record_format ::
  "u8 list option \<Rightarrow> u32 \<Rightarrow> u16 \<Rightarrow> u8 list option \<Rightarrow> bool \<Rightarrow> vblock \<Rightarrow>
   mk_status \<times> u8 list option \<times> u32 option \<times> vblock" where
  "vfs_record_format out_buf max_buf_len seq payload len_ok s =
     (case (out_buf, payload) of
        (Some buf, Some data) \<Rightarrow>
          (if \<not> len_ok then (MK_STATUS_INVALID_ARG, out_buf, None, s)
           else let payload_len = of_nat (length data) :: u32;
                    total_len = sizeof_record_header + payload_len + 4
                in if max_buf_len < total_len then (MK_STATUS_NO_MEMORY, out_buf, None, s)
                   else let (crc, s1) = vfs_block_calc_crc32 data s;
                            hdr = \<lparr>rh_magic = VFS_RECORD_MAGIC, rh_version = 1, rh_sequence = seq,
                                   rh_payload_len = payload_len, rh_payload_crc32 = crc\<rparr>;
                            b1 = put_bytes 0 (header_to_bytes hdr) buf;
                            b2 = put_bytes 16 data b1;
                            b3 = put_bytes (16 + length data) (le32 VFS_RECORD_COMMIT_MAGIC) b2
                        in (MK_STATUS_OK, Some b3, Some total_len, s1))
      | _ \<Rightarrow> (MK_STATUS_INVALID_ARG, out_buf, None, s))"

text \<open>The buffer is the \<open>buf_len\<close> bytes at the pointer. The result is \<open>None\<close> when the code reads
  outside the buffer, otherwise the status and the payload length stored when the status is OK.\<close>

definition vfs_record_validate :: "u8 list option \<Rightarrow> vblock \<Rightarrow> ((mk_status \<times> u32 option) \<times> vblock) option" where
  "vfs_record_validate buffer s =
     (case buffer of
        None \<Rightarrow> Some ((MK_STATUS_INVALID_ARG, None), s)
      | Some buf \<Rightarrow>
          let buf_len = of_nat (length buf) :: u32 in
          if buf_len < sizeof_record_header + 4 then Some ((MK_STATUS_CORRUPTED, None), s)
          else let hdr = header_of_bytes buf in
          if rh_magic hdr \<noteq> VFS_RECORD_MAGIC \<or> rh_version hdr \<noteq> 1 then Some ((MK_STATUS_CORRUPTED, None), s)
          else let expected_total = sizeof_record_header + rh_payload_len hdr + 4 in
          if buf_len < expected_total then Some ((MK_STATUS_CORRUPTED, None), s)
          else let n = unat (rh_payload_len hdr) in
          if length buf < 16 + n then None
          else let (calc_crc, s1) = vfs_block_calc_crc32 (field 16 n buf) s in
          if calc_crc \<noteq> rh_payload_crc32 hdr then Some ((MK_STATUS_CORRUPTED, None), s1)
          else if length buf < 16 + n + 4 then None
          else if of_le32 (field (16 + n) 4 buf) \<noteq> VFS_RECORD_COMMIT_MAGIC
          then Some ((MK_STATUS_CORRUPTED, None), s1)
          else Some ((MK_STATUS_OK, Some (rh_payload_len hdr)), s1))"


section \<open>The CRC as a bit-serial division\<close>

text \<open>
  The reference: the message is a sequence of bits, the least significant bit of each byte first,
  and every bit moves the register of the reflected CRC-32 polynomial by one position.
\<close>

definition lfsr :: "u32 \<Rightarrow> bool \<Rightarrow> u32" where
  "lfsr c m = (if bit c 0 \<noteq> m then drop_bit 1 c XOR 0xEDB88320 else drop_bit 1 c)"

definition message_bits :: "u8 list \<Rightarrow> bool list" where
  "message_bits data = concat (map (\<lambda>b. map (bit b) [0..<8]) data)"

definition crc32 :: "u8 list \<Rightarrow> u32" where
  "crc32 data = NOT (foldl lfsr (NOT 0) (message_bits data))"

lemma crc32_bit_alt: "crc32_bit c = drop_bit 1 c XOR (if bit c 0 then 0xEDB88320 else 0)"
  by (simp add: crc32_bit_def and_one_eq bit_0 odd_iff_mod_2_eq_one xor.commute)

lemma drop_bit_xor32: "drop_bit n (x XOR y) = drop_bit n x XOR drop_bit n (y :: u32)"
  by (rule bit_word_eqI) (simp add: bit_xor_iff bit_drop_bit_eq)

lemma crc32_bit_linear: "crc32_bit (x XOR y) = crc32_bit x XOR crc32_bit y"
  by (auto simp: crc32_bit_alt drop_bit_xor32 bit_xor_iff xor.assoc xor.left_commute)

lemma crc32_bits_linear: "(crc32_bit ^^ k) (x XOR y) = (crc32_bit ^^ k) x XOR (crc32_bit ^^ k) y"
  by (induction k) (simp_all add: crc32_bit_linear)

lemma crc32_bits_high:
  assumes "\<And>i. i < k \<Longrightarrow> \<not> bit y i"
  shows "(crc32_bit ^^ k) y = drop_bit k y"
  using assms
proof (induction k)
  case 0
  then show ?case by simp
next
  case (Suc k)
  have "\<not> bit (drop_bit k y) 0" using Suc.prems[of k] by (simp add: bit_drop_bit_eq)
  then have "crc32_bit (drop_bit k y) = drop_bit (Suc k) y"
    by (simp add: crc32_bit_alt drop_bit_drop_bit del: One_nat_def) simp
  then show ?case using Suc by simp
qed

lemma lfsr_crc32_bit: "lfsr c m = crc32_bit (c XOR of_bool m)"
  by (rule bit_word_eqI)
     (auto simp: lfsr_def crc32_bit_alt bit_xor_iff bit_drop_bit_eq bit_1_iff)

lemma foldl_lfsr_byte:
  "i + n = 8 \<Longrightarrow> foldl lfsr c (map (bit b) [i..<8]) = (crc32_bit ^^ n) (c XOR drop_bit i (ucast (b :: u8)))"
proof (induction n arbitrary: i c)
  case 0
  have "drop_bit 8 (ucast b :: u32) = 0"
    by (rule bit_word_eqI) (auto simp: bit_drop_bit_eq bit_ucast_iff dest: bit_byte)
  with 0 show ?case by simp
next
  case (Suc n)
  let ?d = "drop_bit i (ucast b :: u32)"
  have split: "?d = of_bool (bit b i) XOR (?d XOR of_bool (bit b i))"
    by (simp add: xor.left_commute)
  have "crc32_bit (?d XOR of_bool (bit b i)) = drop_bit 1 (?d XOR of_bool (bit b i))"
    using bit_byte[of b i] by (auto simp: crc32_bit_alt bit_xor_iff bit_drop_bit_eq bit_ucast_iff)
  also have "\<dots> = drop_bit (Suc i) (ucast b)"
    by (rule bit_word_eqI) (auto simp: bit_xor_iff bit_drop_bit_eq bit_1_iff)
  finally have h: "crc32_bit (?d XOR of_bool (bit b i)) = drop_bit (Suc i) (ucast b)" .
  have "crc32_bit (c XOR ?d) = lfsr c (bit b i) XOR drop_bit (Suc i) (ucast b)"
    by (subst split) (simp add: lfsr_crc32_bit crc32_bit_linear flip: xor.assoc h)
  moreover have "[i..<8] = i # [Suc i..<8]" using Suc.prems by (simp add: upt_conv_Cons)
  ultimately show ?case using Suc.IH[of "Suc i" "lfsr c (bit b i)"] Suc.prems
    by (simp add: funpow_swap1)
qed

lemma crc32_fold: "crc32 data = foldl (\<lambda>c b. (crc32_bit ^^ 8) (c XOR ucast b)) 0xFFFFFFFF data XOR 0xFFFFFFFF"
proof -
  have "foldl lfsr c (message_bits data) = foldl (\<lambda>c b. (crc32_bit ^^ 8) (c XOR ucast b)) c data" for c
    using foldl_lfsr_byte[of 0 8] by (induction data arbitrary: c) (simp_all add: message_bits_def)
  moreover have "(NOT 0 :: u32) = 0xFFFFFFFF" by simp
  moreover have "(0xFFFFFFFF :: u32) = - 1" by simp
  then have "NOT x = x XOR 0xFFFFFFFF" for x :: u32 by (simp only: bit.xor_one_right)
  ultimately show ?thesis by (simp only: crc32_def)
qed

text \<open>A table is right when it holds the eight steps of every byte; \<open>init_crc_table\<close> makes it so.\<close>

definition crc_table_ok :: "vblock \<Rightarrow> bool" where
  "crc_table_ok s \<longleftrightarrow> (vb_crc_table_ready s \<longrightarrow> vb_crc_table s = map (\<lambda>i. (crc32_bit ^^ 8) (of_nat i)) [0..<256])"

lemma init_crc_table_ok [simp]: "crc_table_ok (init_crc_table s)"
  by (simp add: crc_table_ok_def init_crc_table_def)

lemma and_xor_and_not: "x = (x AND m) XOR (x AND NOT m)" for x m :: u32
  by (rule bit_word_eqI) (auto simp: bit_xor_iff bit_and_iff bit_not_iff)

lemma crc32_table_step:
  assumes "table = map (\<lambda>i. (crc32_bit ^^ 8) (of_nat i)) [0..<256]"
  shows "crc32_table_step table c b = (crc32_bit ^^ 8) (c XOR ucast b)"
proof -
  let ?x = "c XOR ucast b"
  have lt: "unat (?x AND 0xFF) < 256"
    using word_and_le1[of ?x "0xFF"] by (simp add: word_le_nat_alt)
  have split: "?x = (?x AND 0xFF) XOR (?x AND NOT 0xFF)"
    by (rule and_xor_and_not)
  have FF: "(0xFF :: u32) = mask 8" by (simp add: mask_eq_exp_minus_1)
  have "(crc32_bit ^^ 8) (?x AND NOT 0xFF) = drop_bit 8 (?x AND NOT 0xFF)"
    by (rule crc32_bits_high) (simp add: FF bit_and_iff bit_not_iff bit_mask_iff)
  also have "\<dots> = drop_bit 8 c"
    unfolding FF by (rule bit_word_eqI)
      (auto simp: bit_and_iff bit_not_iff bit_mask_iff bit_drop_bit_eq bit_xor_iff bit_ucast_iff dest: bit_byte bit_imp_le_length)
  finally have high: "(crc32_bit ^^ 8) (?x AND NOT 0xFF) = drop_bit 8 c" .
  have "crc32_table_step table c b = (crc32_bit ^^ 8) (?x AND 0xFF) XOR drop_bit 8 c"
    using lt by (simp add: crc32_table_step_def assms)
  also have "\<dots> = (crc32_bit ^^ 8) ?x"
    by (subst (2) split) (simp only: crc32_bits_linear high)
  finally show ?thesis .
qed

lemma calc_crc32:
  assumes "crc_table_ok s"
  shows "vfs_block_calc_crc32 data s = (crc32 data, if vb_crc_table_ready s then s else init_crc_table s)"
proof -
  let ?s = "if vb_crc_table_ready s then s else init_crc_table s"
  have "vb_crc_table ?s = map (\<lambda>i. (crc32_bit ^^ 8) (of_nat i)) [0..<256]"
    using assms by (auto simp: crc_table_ok_def init_crc_table_def)
  then have "crc32_table_step (vb_crc_table ?s) = (\<lambda>c b. (crc32_bit ^^ 8) (c XOR ucast b))"
    by (intro ext crc32_table_step)
  then show ?thesis by (simp add: vfs_block_calc_crc32_def Let_def crc32_fold)
qed


text \<open>C16. The table-driven CRC computes the bit-serial division of the message, whether or not
  the table was initialised before.\<close>

theorem crc32_table_driven:
  assumes "crc_table_ok s"
  shows "fst (vfs_block_calc_crc32 data s) = crc32 data \<and> crc_table_ok (snd (vfs_block_calc_crc32 data s))"
  using assms by (auto simp: calc_crc32)

theorem crc32_table_driven_witness:
  "fst (vfs_block_calc_crc32 [1, 2, 3] vblock_static) = crc32 [1, 2, 3]"
  using crc32_table_driven[of vblock_static "[1, 2, 3]"] by (simp add: crc_table_ok_def vblock_static_def)

section \<open>The CRC detects every change of four neighbouring bytes\<close>

lemma xor32_twice [simp]: "(x XOR m) XOR m = x" for x m :: u32
  by (simp add: xor.assoc)

lemma xor32_right_cancel [simp]: "x XOR m = y XOR m \<longleftrightarrow> x = y" for x y m :: u32
  using xor32_twice by metis

lemma crc32_bit_inj: "crc32_bit x = crc32_bit y \<Longrightarrow> x = y"
proof -
  assume e: "crc32_bit x = crc32_bit y"
  have b: "bit (crc32_bit x) 31 \<longleftrightarrow> bit x 0" for x
    using bit_imp_le_length[of x 32] by (auto simp: crc32_bit_alt bit_xor_iff bit_drop_bit_eq)
  have "bit x 0 \<longleftrightarrow> bit y 0" using e b by metis
  with e have d: "drop_bit 1 x = drop_bit 1 y" unfolding crc32_bit_alt by (simp only: xor32_right_cancel)
  show "x = y"
  proof (rule bit_word_eqI)
    fix n
    show "bit x n \<longleftrightarrow> bit y n"
    proof (cases n)
      case (Suc m)
      then show ?thesis using d bit_drop_bit_eq[of 1 x] bit_drop_bit_eq[of 1 y] by (metis plus_1_eq_Suc comp_apply)
    qed (use \<open>bit x 0 \<longleftrightarrow> bit y 0\<close> in simp)
  qed
qed

lemma crc32_bits_inj: "(crc32_bit ^^ k) x = (crc32_bit ^^ k) y \<Longrightarrow> x = y"
  by (induction k) (auto dest: crc32_bit_inj)

definition crc32_byte :: "u32 \<Rightarrow> u8 \<Rightarrow> u32" where
  "crc32_byte c b = (crc32_bit ^^ 8) (c XOR ucast b)"

lemma crc32_def2: "crc32 data = foldl crc32_byte 0xFFFFFFFF data XOR 0xFFFFFFFF"
  by (simp add: crc32_fold crc32_byte_def[abs_def])

lemma crc32_byte_inj: "crc32_byte c b = crc32_byte d b \<Longrightarrow> c = d"
  unfolding crc32_byte_def by (drule crc32_bits_inj) simp

lemma crc32_fold_inj: "foldl crc32_byte c bs = foldl crc32_byte d bs \<Longrightarrow> c = d"
  by (induction bs arbitrary: c d) (auto dest: crc32_byte_inj)

lemma crc32_byte_later:
  assumes "k \<le> 24"
  shows "crc32_byte ((crc32_bit ^^ k) x) b = (crc32_bit ^^ (k + 8)) (x XOR push_bit k (ucast b))"
proof -
  have "(crc32_bit ^^ k) (push_bit k (ucast b)) = drop_bit k (push_bit k (ucast b :: u32))"
    by (rule crc32_bits_high) (simp add: bit_push_bit_iff)
  also have "\<dots> = ucast b"
    using assms by (intro bit_word_eqI) (auto simp: bit_drop_bit_eq bit_push_bit_iff bit_ucast_iff dest: bit_byte)
  finally have e: "ucast b = (crc32_bit ^^ k) (push_bit k (ucast b))" by (rule sym)
  have "crc32_byte ((crc32_bit ^^ k) x) b = (crc32_bit ^^ 8) ((crc32_bit ^^ k) x XOR (crc32_bit ^^ k) (push_bit k (ucast b)))"
    unfolding crc32_byte_def by (subst e) (rule refl)
  then show ?thesis by (simp only: crc32_bits_linear[symmetric] funpow_add comp_apply add.commute[of k])
qed

lemma crc32_four:
  "foldl crc32_byte c [b0, b1, b2, b3] = (crc32_bit ^^ 32) (c XOR of_le32 [b0, b1, b2, b3])"
proof -
  have or: "of_le32 [b0, b1, b2, b3] = ucast b0 XOR push_bit 8 (ucast b1) XOR push_bit 16 (ucast b2) XOR push_bit 24 (ucast b3)"
    by (rule bit_word_eqI) (auto simp: of_le32_def bit_or_iff bit_xor_iff bit_push_bit_iff bit_ucast_iff dest: bit_byte)
  have "crc32_byte c b0 = (crc32_bit ^^ 8) (c XOR ucast b0)" by (simp only: crc32_byte_def)
  then show ?thesis
    using crc32_byte_later[of 8 "c XOR ucast b0" b1] crc32_byte_later[of 16 "c XOR ucast b0 XOR push_bit 8 (ucast b1)" b2]
      crc32_byte_later[of 24 "c XOR ucast b0 XOR push_bit 8 (ucast b1) XOR push_bit 16 (ucast b2)" b3]
    by (simp only: foldl.simps or) (simp only: numeral_plus_numeral add_num_simps xor.assoc order.refl simp_thms rel_simps)
qed

lemma crc32_four_inj:
  assumes "length xs = 4" and "length ys = 4" and "foldl crc32_byte c xs = foldl crc32_byte c ys"
  shows "xs = ys"
proof -
  obtain a0 a1 a2 a3 where xs: "xs = [a0, a1, a2, a3]"
    using assms(1) by (auto simp: numeral_eq_Suc length_Suc_conv)
  obtain b0 b1 b2 b3 where ys: "ys = [b0, b1, b2, b3]"
    using assms(2) by (auto simp: numeral_eq_Suc length_Suc_conv)
  have "c XOR of_le32 xs = c XOR of_le32 ys"
    using assms(3) unfolding xs ys crc32_four by (rule crc32_bits_inj)
  then have "of_le32 xs = of_le32 ys" by (simp only: xor.commute[of c] xor32_right_cancel)
  then show ?thesis unfolding xs ys by (rule of_le32_inj)
qed

lemma crc32_detects_burst:
  assumes "length xs = 4" and "length ys = 4" and "xs \<noteq> ys"
  shows "crc32 (pre @ xs @ post) \<noteq> crc32 (pre @ ys @ post)"
proof
  assume "crc32 (pre @ xs @ post) = crc32 (pre @ ys @ post)"
  then have "foldl crc32_byte (foldl crc32_byte (foldl crc32_byte 0xFFFFFFFF pre) xs) post
    = foldl crc32_byte (foldl crc32_byte (foldl crc32_byte 0xFFFFFFFF pre) ys) post"
    unfolding crc32_def2 foldl_append by (simp only: xor32_right_cancel)
  then show False using assms crc32_fold_inj crc32_four_inj by blast
qed


section \<open>Records\<close>

lemma length_header_to_bytes [simp]: "length (header_to_bytes h) = 16"
  by (simp add: header_to_bytes_def)

lemma header_of_to_bytes [simp]: "header_of_bytes (header_to_bytes h @ rest) = h"
  by (simp add: header_of_bytes_def header_to_bytes_def field_append2 field_append1 flip: append_assoc)

definition record_header :: "u16 \<Rightarrow> u8 list \<Rightarrow> vfs_record_header" where
  "record_header seq data = \<lparr>rh_magic = VFS_RECORD_MAGIC, rh_version = 1, rh_sequence = seq,
     rh_payload_len = of_nat (length data), rh_payload_crc32 = crc32 data\<rparr>"

text \<open>The bytes of a committed record\<close>

definition record_bytes :: "u16 \<Rightarrow> u8 list \<Rightarrow> u8 list" where
  "record_bytes seq data = header_to_bytes (record_header seq data) @ data @ le32 VFS_RECORD_COMMIT_MAGIC"

definition table_ready :: "vblock \<Rightarrow> vblock" where
  "table_ready s = (if vb_crc_table_ready s then s else init_crc_table s)"

lemma calc_crc32' [simp]: "crc_table_ok s \<Longrightarrow> vfs_block_calc_crc32 data s = (crc32 data, table_ready s)"
  by (simp add: calc_crc32 table_ready_def)

lemma table_ready_ok [simp]: "crc_table_ok s \<Longrightarrow> crc_table_ok (table_ready s)"
  by (simp add: table_ready_def)

lemma table_ready_twice [simp]: "table_ready (table_ready s) = table_ready s"
  by (simp add: table_ready_def init_crc_table_def)

lemma format_bytes:
  assumes "crc_table_ok s" and "20 + length data \<le> length buf" and "length buf < 2 ^ 32"
  shows "vfs_record_format (Some buf) (of_nat (length buf)) seq (Some data) True s
    = (MK_STATUS_OK, Some (record_bytes seq data @ drop (20 + length data) buf), Some (of_nat (20 + length data)), table_ready s)"
proof -
  have t: "sizeof_record_header + of_nat (length data) + 4 = (of_nat (20 + length data) :: u32)"
    by (simp add: sizeof_record_header_def)
  have le: "\<not> (of_nat (length buf) :: u32) < of_nat (20 + length data)"
    using assms(2,3) by (simp add: word_less_nat_alt unat_simps del: of_nat_add)
  have "put_bytes (16 + length data) (le32 VFS_RECORD_COMMIT_MAGIC)
      (put_bytes 16 data (put_bytes 0 (header_to_bytes (record_header seq data)) buf))
    = record_bytes seq data @ drop (20 + length data) buf"
    using assms(2) by (simp add: put_bytes_def record_bytes_def add.commute)
  then show ?thesis
    using assms(1) le unfolding vfs_record_format_def
    by (simp add: t Let_def record_header_def del: of_nat_add)
qed

lemma validate_bytes:
  assumes "crc_table_ok s" and "rh_magic h = VFS_RECORD_MAGIC" and "rh_version h = 1"
    and "rh_payload_len h = of_nat (length data)" and "4 \<le> length post" and "20 + length data + length post < 2 ^ 32"
  shows "vfs_record_validate (Some (header_to_bytes h @ data @ post)) s =
    Some (if crc32 data \<noteq> rh_payload_crc32 h \<or> of_le32 (take 4 post) \<noteq> VFS_RECORD_COMMIT_MAGIC
          then (MK_STATUS_CORRUPTED, None) else (MK_STATUS_OK, Some (of_nat (length data))), table_ready s)"
proof -
  let ?buf = "header_to_bytes h @ data @ post"
  have l: "length ?buf = 16 + length data + length post" by simp
  have t: "sizeof_record_header + of_nat (length data) + 4 = (of_nat (20 + length data) :: u32)"
    by (simp add: sizeof_record_header_def)
  have a: "\<not> (of_nat (length ?buf) :: u32) < sizeof_record_header + 4"
    using assms(5,6) unfolding l sizeof_record_header_def
    by (simp add: word_less_nat_alt unat_simps del: of_nat_add)
  have b: "\<not> (of_nat (length ?buf) :: u32) < of_nat (20 + length data)"
    using assms(5,6) unfolding l by (simp add: word_less_nat_alt unat_simps del: of_nat_add)
  have n: "unat (of_nat (length data) :: u32) = length data" using assms(6) by (intro unat32_of_nat) simp
  have f: "field 16 (length data) ?buf = data" "field (16 + length data) 4 ?buf = take 4 post"
    by (simp_all add: field_def)
  have g: "\<not> length ?buf < 16 + length data" "\<not> length ?buf < 16 + length data + 4" using assms(5) by simp_all
  show ?thesis
    unfolding vfs_record_validate_def using assms(1) a b
    by (simp only: Let_def option.case header_of_to_bytes assms(2-4) t n f g calc_crc32' if_False if_True split simp_thms)
       (simp split: if_splits)
qed

text \<open>C17. Formatting a payload and validating the buffer gives the payload back: its length, and
  its bytes behind the header.\<close>

theorem record_roundtrip:
  assumes "crc_table_ok s" and "20 + length data \<le> length buf" and "length buf + 20 < 2 ^ 32"
  shows "\<exists>rec s1. vfs_record_format (Some buf) (of_nat (length buf)) seq (Some data) True s
      = (MK_STATUS_OK, Some rec, Some (of_nat (20 + length data)), s1)
    \<and> vfs_record_validate (Some rec) s1 = Some ((MK_STATUS_OK, Some (of_nat (length data))), s1)
    \<and> field 16 (length data) rec = data \<and> length rec = length buf"
proof -
  let ?post = "le32 VFS_RECORD_COMMIT_MAGIC @ drop (20 + length data) buf"
  have "vfs_record_validate (Some (header_to_bytes (record_header seq data) @ data @ ?post)) (table_ready s)
    = Some ((MK_STATUS_OK, Some (of_nat (length data))), table_ready s)"
    using assms by (subst validate_bytes) (simp_all add: record_header_def)
  then show ?thesis
    using format_bytes[OF assms(1,2)] assms(2,3) by (simp add: record_bytes_def field_def)
qed

theorem record_roundtrip_witness:
  "\<exists>rec s1. vfs_record_format (Some (replicate 32 0)) 32 7 (Some [1, 2, 3]) True vblock_static
      = (MK_STATUS_OK, Some rec, Some 23, s1)
    \<and> vfs_record_validate (Some rec) s1 = Some ((MK_STATUS_OK, Some 3), s1)"
  using record_roundtrip[of vblock_static "[1, 2, 3]" "replicate 32 0" 7]
  by (auto simp: crc_table_ok_def vblock_static_def)


section \<open>Interrupted writes and damaged payloads\<close>

text \<open>The flash after a write of \<open>rec\<close> into \<open>n\<close> erased bytes that stopped after \<open>k\<close> bytes\<close>

definition torn :: "nat \<Rightarrow> nat \<Rightarrow> u8 list \<Rightarrow> u8 list" where
  "torn k n rec = take k rec @ replicate (n - k) 0xFF"

lemma length_torn: "k \<le> length rec \<Longrightarrow> k \<le> n \<Longrightarrow> length (torn k n rec) = n"
  by (simp add: torn_def)

lemma field_torn: "i + m \<le> k \<Longrightarrow> k \<le> length rec \<Longrightarrow> field i m (torn k n rec) = field i m rec"
  by (simp add: torn_def field_def drop_take)

lemma nth_torn: "k \<le> length rec \<Longrightarrow> k \<le> i \<Longrightarrow> i < n \<Longrightarrow> torn k n rec ! i = 0xFF"
  by (simp add: torn_def nth_append)

lemma nth_field: "i < n \<Longrightarrow> k + n \<le> length bs \<Longrightarrow> field k n bs ! i = bs ! (k + i)"
  by (simp add: field_def)

lemma validate_bad_version:
  "rh_version (header_of_bytes buf) \<noteq> 1 \<Longrightarrow> vfs_record_validate (Some buf) s = Some ((MK_STATUS_CORRUPTED, None), s)"
  by (simp add: vfs_record_validate_def Let_def)

lemma length_record_bytes [simp]: "length (record_bytes seq data) = 20 + length data"
  by (simp add: record_bytes_def)

lemma list4: "length xs = 4 \<Longrightarrow> xs = [xs ! 0, xs ! 1, xs ! 2, xs ! 3]"
  by (simp add: list_eq_iff_nth_eq less_Suc_eq numeral_eq_Suc)

lemma le32_of_le32': "length xs = 4 \<Longrightarrow> le32 (of_le32 xs) = xs"
  using le32_of_le32 list4 by metis

lemma le16_of_le16: "length xs = 2 \<Longrightarrow> le16 (of_le16 xs) = xs"
proof -
  assume "length xs = 2"
  then obtain a b where xs: "xs = [a, b]" by (auto simp: numeral_eq_Suc length_Suc_conv)
  have "ucast (of_le16 [a, b]) = a" "ucast (drop_bit 8 (of_le16 [a, b])) = b"
    by (rule bit_word_eqI; auto simp: of_le16_def bit_or_iff bit_push_bit_iff bit_ucast_iff
        bit_drop_bit_eq dest: bit_byte)+
  then show ?thesis by (simp add: le16_def xs)
qed

lemma take_field: "k + n \<le> length xs \<Longrightarrow> take (k + n) xs = take k xs @ field k n xs"
  by (simp add: field_def take_add)

lemma header_to_of_bytes: "16 \<le> length bs \<Longrightarrow> header_to_bytes (header_of_bytes bs) = take 16 bs"
  using take_field[of 0 4 bs] take_field[of 4 2 bs] take_field[of 6 2 bs] take_field[of 8 4 bs] take_field[of 12 4 bs]
  by (simp add: header_to_bytes_def header_of_bytes_def le32_of_le32' le16_of_le16)

lemma split_three: "xs = take k xs @ take m (drop k xs) @ drop (k + m) xs"
  by (metis append_take_drop_id drop_drop add.commute)

text \<open>C14. A record whose write was interrupted is rejected, wherever before the last byte the power
  failed, except within the sequence number and the payload length (bytes 6 to 11 of the header).\<close>

theorem torn_record_rejected:
  assumes "crc_table_ok s" and "k < 20 + length data" and "k < 6 \<or> 12 \<le> k"
    and "20 + length data \<le> n" and "n + 20 < 2 ^ 32"
  shows "\<exists>s1. vfs_record_validate (Some (torn k n (record_bytes seq data))) s = Some ((MK_STATUS_CORRUPTED, None), s1)"
proof -
  let ?rec = "record_bytes seq data"
  let ?buf = "torn k n ?rec"
  have len: "length ?buf = n" using assms(2,4) by (intro length_torn) simp_all
  show ?thesis
  proof (cases "k < 6")
    case True
    have "?buf ! 5 = 0xFF" using True assms(2,4) by (intro nth_torn) simp_all
    then have "bit (of_le16 (field 4 2 ?buf)) 8"
      using len assms(4) by (simp add: of_le16_def field_def bit_or_iff bit_push_bit_iff bit_ucast_iff)
    then have "rh_version (header_of_bytes ?buf) \<noteq> 1"
      by (auto simp: header_of_bytes_def bit_1_iff)
    then show ?thesis using validate_bad_version by blast
  next
    case False
    then have k: "12 \<le> k" using assms(3) by simp
    let ?h = "header_of_bytes ?buf"
    have "header_of_bytes ?rec = record_header seq data" unfolding record_bytes_def by (rule header_of_to_bytes)
    then have h: "rh_magic ?h = VFS_RECORD_MAGIC" "rh_version ?h = 1" "rh_payload_len ?h = of_nat (length data)"
      using k assms(2) by (simp_all add: header_of_bytes_def field_torn record_header_def)
    define post where "post = drop (16 + length data) ?buf"
    have buf: "?buf = header_to_bytes ?h @ field 16 (length data) ?buf @ post"
      using split_three[of ?buf 16 "length data"] len assms(4) by (simp add: header_to_of_bytes field_def post_def)
    have lp: "length post = n - (16 + length data)" using len by (simp add: post_def)
    have "post ! 3 = ?buf ! (16 + length data + 3)"
      unfolding post_def using len assms(4) by (intro nth_drop) simp
    also have "\<dots> = 0xFF" using assms(2,4) by (intro nth_torn) simp_all
    finally have p3: "post ! 3 = 0xFF" .
    have "of_le32 (take 4 post) \<noteq> VFS_RECORD_COMMIT_MAGIC"
    proof
      assume "of_le32 (take 4 post) = VFS_RECORD_COMMIT_MAGIC"
      then have "take 4 post = le32 VFS_RECORD_COMMIT_MAGIC"
        using le32_of_le32'[of "take 4 post"] lp assms(4) by simp
      then have "take 4 post ! 3 = le32 VFS_RECORD_COMMIT_MAGIC ! 3" by simp
      then show False using p3 by (simp add: le32_def VFS_RECORD_COMMIT_MAGIC_def)
    qed
    moreover have "length (field 16 (length data) ?buf) = length data" using len assms(4) by simp
    ultimately have "vfs_record_validate (Some (header_to_bytes ?h @ field 16 (length data) ?buf @ post)) s
        = Some ((MK_STATUS_CORRUPTED, None), table_ready s)"
      using validate_bytes[OF assms(1) h(1,2), of "field 16 (length data) ?buf" post] h(3) lp assms(4,5) by simp
    then show ?thesis unfolding buf[symmetric] by blast
  qed
qed

theorem torn_record_rejected_witness:
  "\<exists>s1. vfs_record_validate (Some (torn 22 64 (record_bytes 7 [1, 2, 3]))) vblock_static = Some ((MK_STATUS_CORRUPTED, None), s1)"
  using torn_record_rejected[of vblock_static 22 "[1, 2, 3]" 64 7] by (simp add: crc_table_ok_def vblock_static_def)

text \<open>In the gap the length field still reads as erased flash: the 32-bit sum in the bounds check wraps
  to 19, and the CRC loop runs over 4 GB behind the buffer.\<close>

theorem torn_length_overreads:
  assumes "6 \<le> k" and "k \<le> 8" and "20 + length data \<le> n" and "n + 20 < 2 ^ 32"
  shows "vfs_record_validate (Some (torn k n (record_bytes seq data))) s = None"
proof -
  let ?rec = "record_bytes seq data"
  let ?buf = "torn k n ?rec"
  have len: "length ?buf = n" using assms by (intro length_torn) simp_all
  have "header_of_bytes ?rec = record_header seq data" unfolding record_bytes_def by (rule header_of_to_bytes)
  then have h: "rh_magic (header_of_bytes ?buf) = VFS_RECORD_MAGIC" "rh_version (header_of_bytes ?buf) = 1"
    using assms(1,2) by (simp_all add: header_of_bytes_def field_torn record_header_def)
  have "field 8 4 ?buf = [0xFF, 0xFF, 0xFF, 0xFF]"
    using assms(1-3) len list4[of "field 8 4 ?buf"] by (simp add: nth_field nth_torn)
  then have l: "rh_payload_len (header_of_bytes ?buf) = 0xFFFFFFFF"
    by (simp add: header_of_bytes_def of_le32_def push_bit_eq_mult)
  have "\<not> (of_nat n :: u32) < 20" "\<not> (of_nat n :: u32) < 19"
    using assms(3,4) by (simp_all add: word_less_nat_alt unat_simps)
  moreover have "sizeof_record_header + 4 = 20" "sizeof_record_header + 0xFFFFFFFF + 4 = 19"
    by (simp_all add: sizeof_record_header_def)
  ultimately show ?thesis
    using assms(4) by (simp only: vfs_record_validate_def Let_def h l len option.case simp_thms if_False) simp
qed

text \<open>C36. A payload damaged within four neighbouring bytes is rejected.\<close>

theorem damaged_record_rejected:
  assumes "crc_table_ok s" and "length xs = 4" and "length ys = 4" and "xs \<noteq> ys"
    and "data = pre @ xs @ post" and "length data + 24 < 2 ^ 32"
  shows "\<exists>s1. vfs_record_validate (Some (header_to_bytes (record_header seq data) @ (pre @ ys @ post)
      @ le32 VFS_RECORD_COMMIT_MAGIC)) s = Some ((MK_STATUS_CORRUPTED, None), s1)"
proof -
  have "crc32 (pre @ ys @ post) \<noteq> crc32 (pre @ xs @ post)" using crc32_detects_burst assms(2-4) by metis
  then show ?thesis
    using assms(1-3,6) unfolding assms(5) by (subst validate_bytes) (simp_all add: record_header_def)
qed

theorem damaged_record_rejected_witness:
  "\<exists>s1. vfs_record_validate (Some (header_to_bytes (record_header 7 [1, 2, 3, 4, 5]) @ [1, 2, 9, 4, 5]
      @ le32 VFS_RECORD_COMMIT_MAGIC)) vblock_static = Some ((MK_STATUS_CORRUPTED, None), s1)"
  using damaged_record_rejected[of vblock_static "[1, 2, 3, 4]" "[1, 2, 9, 4]" "[1, 2, 3, 4, 5]" "[]" "[5]" 7]
  by (simp add: crc_table_ok_def vblock_static_def)

end
