(* ===== verification/Vfs.thy ===== *)
theory Vfs
  imports Vfs_Block Fault_Manager
begin

text \<open>
  \<^verbatim>\<open>os/vfs/vfs.c\<close>: the flat file system of at most 16 files, one sector each, whose directory is the
  superblock in sector 0. The superblock is written to flash as the bytes of its C structure.
\<close>

section \<open>State\<close>

definition VFS_MAX_FILES :: nat where "VFS_MAX_FILES = 16"
definition VFS_DIR_SECTOR :: u32 where "VFS_DIR_SECTOR = 0"
definition VFS_MAX_OPEN_FILES :: nat where "VFS_MAX_OPEN_FILES = 8"
definition VFS_MAX_FILENAME_LEN :: nat where "VFS_MAX_FILENAME_LEN = 32"

definition VFS_O_RDONLY :: u32 where "VFS_O_RDONLY = 0x0001"
definition VFS_O_WRONLY :: u32 where "VFS_O_WRONLY = 0x0002"
definition VFS_O_RDWR :: u32 where "VFS_O_RDWR = 0x0003"
definition VFS_O_CREAT :: u32 where "VFS_O_CREAT = 0x0004"
definition VFS_O_APPEND :: u32 where "VFS_O_APPEND = 0x0008"
definition VFS_O_TRUNC :: u32 where "VFS_O_TRUNC = 0x0010"

record vfs_inode =
  in_name :: string
  in_start_sector :: u32
  in_size_bytes :: u32
  in_flags :: u32
  in_in_use :: u32

record vfs_superblock =
  sb_magic :: u32
  sb_file_count :: u32
  sb_inodes :: "vfs_inode list"
  sb_crc32 :: u32

record vfs_file_desc =
  fd_inode_idx :: nat
  fd_cursor :: u32
  fd_flags :: u32
  fd_is_open :: bool

record vfs =
  v_blk :: vblock
  v_sb :: vfs_superblock
  v_files :: "vfs_file_desc list"
  v_ready :: bool

definition inode_zero :: vfs_inode where
  "inode_zero = \<lparr>in_name = replicate VFS_MAX_FILENAME_LEN NUL, in_start_sector = 0, in_size_bytes = 0,
     in_flags = 0, in_in_use = 0\<rparr>"

definition superblock_zero :: vfs_superblock where
  "superblock_zero = \<lparr>sb_magic = 0, sb_file_count = 0, sb_inodes = replicate VFS_MAX_FILES inode_zero, sb_crc32 = 0\<rparr>"

definition file_desc_zero :: vfs_file_desc where
  "file_desc_zero = \<lparr>fd_inode_idx = 0, fd_cursor = 0, fd_flags = 0, fd_is_open = False\<rparr>"

definition vfs_static :: vfs where
  "vfs_static = \<lparr>v_blk = vblock_static, v_sb = superblock_zero,
     v_files = replicate VFS_MAX_OPEN_FILES file_desc_zero, v_ready = False\<rparr>"

text \<open>The superblock as the 780 bytes of its structure: an inode takes 48 bytes.\<close>

definition inode_to_bytes :: "vfs_inode \<Rightarrow> u8 list" where
  "inode_to_bytes i = bytes_of (in_name i) @ le32 (in_start_sector i) @ le32 (in_size_bytes i)
     @ le32 (in_flags i) @ le32 (in_in_use i)"

definition inode_of_bytes :: "u8 list \<Rightarrow> vfs_inode" where
  "inode_of_bytes bs = \<lparr>in_name = chars_of (field 0 32 bs), in_start_sector = of_le32 (field 32 4 bs),
     in_size_bytes = of_le32 (field 36 4 bs), in_flags = of_le32 (field 40 4 bs), in_in_use = of_le32 (field 44 4 bs)\<rparr>"

text \<open>All fields but the checksum\<close>

definition superblock_body :: "vfs_superblock \<Rightarrow> u8 list" where
  "superblock_body sb = le32 (sb_magic sb) @ le32 (sb_file_count sb) @ concat (map inode_to_bytes (sb_inodes sb))"

definition superblock_to_bytes :: "vfs_superblock \<Rightarrow> u8 list" where
  "superblock_to_bytes sb = superblock_body sb @ le32 (sb_crc32 sb)"

definition superblock_of_bytes :: "u8 list \<Rightarrow> vfs_superblock" where
  "superblock_of_bytes bs = \<lparr>sb_magic = of_le32 (field 0 4 bs), sb_file_count = of_le32 (field 4 4 bs),
     sb_inodes = map (\<lambda>i. inode_of_bytes (field (8 + 48 * i) 48 bs)) [0..<VFS_MAX_FILES],
     sb_crc32 = of_le32 (field 776 4 bs)\<rparr>"

definition sizeof_superblock :: u32 where "sizeof_superblock = 780"

section \<open>Helpers of the operations\<close>

definition set_inode :: "nat \<Rightarrow> (vfs_inode \<Rightarrow> vfs_inode) \<Rightarrow> vfs \<Rightarrow> vfs" where
  "set_inode i f v = v\<lparr>v_sb := (v_sb v)\<lparr>sb_inodes := (sb_inodes (v_sb v))[i := f (sb_inodes (v_sb v) ! i)]\<rparr>\<rparr>"

definition set_desc :: "nat \<Rightarrow> (vfs_file_desc \<Rightarrow> vfs_file_desc) \<Rightarrow> vfs \<Rightarrow> vfs" where
  "set_desc i f v = v\<lparr>v_files := (v_files v)[i := f (v_files v ! i)]\<rparr>"

definition erase_sector :: "u32 \<Rightarrow> vfs \<Rightarrow> vfs" where
  "erase_sector i v = v\<lparr>v_blk := snd (vfs_block_erase i (v_blk v))\<rparr>"

definition vfs_sync_superblock :: "vfs \<Rightarrow> vfs" where
  "vfs_sync_superblock v =
     (let sb1 = (v_sb v)\<lparr>sb_magic := VFS_BLOCK_MAGIC\<rparr>;
          (crc, b1) = vfs_block_calc_crc32 (superblock_body sb1) (v_blk v);
          sb2 = sb1\<lparr>sb_crc32 := crc\<rparr>;
          (_, b2) = vfs_block_erase VFS_DIR_SECTOR b1;
          (_, b3) = vfs_block_write VFS_DIR_SECTOR (Some (superblock_to_bytes sb2)) sizeof_superblock b2
      in v\<lparr>v_sb := sb2, v_blk := b3\<rparr>)"

text \<open>\<open>(path[0] == '/') ? &path[1] : path\<close>\<close>

definition strip_slash :: "string \<Rightarrow> string" where
  "strip_slash path = (case path of c # r \<Rightarrow> if c = CHR ''/'' then r else path | [] \<Rightarrow> [])"

text \<open>The loop that looks for a file in use with this name\<close>

definition find_inode :: "string \<Rightarrow> vfs_inode list \<Rightarrow> nat option" where
  "find_inode fname inodes =
     find (\<lambda>i. in_in_use (inodes ! i) \<noteq> 0 \<and> strncmp_eq (in_name (inodes ! i)) fname VFS_MAX_FILENAME_LEN)
       [0..<VFS_MAX_FILES]"

section \<open>Mounting\<close>

definition default_macro :: string where
  "default_macro = ''STRING Hello MicroKernel'' @ [CHR 0x0A] @ ''DELAY 200'' @ [CHR 0x0A] @ ''ENTER'' @ [CHR 0x0A]"

definition create_default_files :: "vfs \<Rightarrow> vfs" where
  "create_default_files v0 =
     (let len = of_nat (length default_macro);
          v1 = set_inode 0 (\<lambda>i. i\<lparr>in_name := strncpy (in_name i) ''macro.txt'' (VFS_MAX_FILENAME_LEN - 1),
                 in_start_sector := 1, in_size_bytes := len, in_in_use := 1, in_flags := 0\<rparr>) v0;
          v2 = erase_sector 1 v1;
          v3 = v2\<lparr>v_blk := snd (vfs_block_write 1 (Some (bytes_of default_macro)) len (v_blk v2))\<rparr>;
          v4 = set_inode 1 (\<lambda>i. i\<lparr>in_name := strncpy (in_name i) ''wifi_audit.log'' (VFS_MAX_FILENAME_LEN - 1),
                 in_start_sector := 2, in_size_bytes := 0, in_in_use := 1, in_flags := 0\<rparr>) v3;
          v5 = erase_sector 2 v4;
          v6 = v5\<lparr>v_sb := (v_sb v5)\<lparr>sb_file_count := 2\<rparr>\<rparr>
      in vfs_sync_superblock v6)"

text \<open>Reading the superblock from flash, or formatting\<close>

definition vfs_mount :: "vfs \<Rightarrow> vfs" where
  "vfs_mount v =
     (let (status, bs) = vfs_block_read VFS_DIR_SECTOR True sizeof_superblock (v_blk v);
          v1 = (if status = MK_STATUS_OK then v\<lparr>v_sb := superblock_of_bytes bs\<rparr> else v);
          v2 = (if status \<noteq> MK_STATUS_OK \<or> sb_magic (v_sb v1) \<noteq> VFS_BLOCK_MAGIC
                then create_default_files (v1\<lparr>v_sb := superblock_zero\<lparr>sb_magic := VFS_BLOCK_MAGIC\<rparr>\<rparr>)
                else v1)
      in v2\<lparr>v_ready := True\<rparr>)"

definition vfs_init :: "u32 option \<Rightarrow> vfs \<times> fault_manager \<Rightarrow> mk_status \<times> vfs \<times> fault_manager" where
  "vfs_init now s =
     (case s of (v0, fm) \<Rightarrow>
      let v1 = v0\<lparr>v_files := replicate VFS_MAX_OPEN_FILES file_desc_zero, v_sb := superblock_zero\<rparr>;
          (status, b) = vfs_block_init (v_blk v1);
          v2 = v1\<lparr>v_blk := b\<rparr>
      in if status \<noteq> MK_STATUS_OK
         then (status, v2, mk_fault_record_full now MK_FAULT_VFS_FAIL MK_FAULT_SRC_VFS MK_FAULT_SEV_CRITICAL 0x10 0 fm)
         else (MK_STATUS_OK, vfs_mount v2, fm))"

section \<open>Files\<close>

text \<open>The loops that look for a free inode and a free descriptor\<close>

definition free_inode :: "vfs_inode list \<Rightarrow> nat option" where
  "free_inode inodes = find (\<lambda>i. in_in_use (inodes ! i) = 0) [0..<VFS_MAX_FILES]"

definition free_desc :: "vfs_file_desc list \<Rightarrow> nat option" where
  "free_desc files = find (\<lambda>i. \<not> fd_is_open (files ! i)) [0..<VFS_MAX_OPEN_FILES]"

text \<open>Creating a file in inode \<open>i\<close>\<close>

definition create_inode :: "nat \<Rightarrow> string \<Rightarrow> u32 \<Rightarrow> vfs \<Rightarrow> vfs" where
  "create_inode i fname flags v =
     (let v1 = set_inode i (\<lambda>n. n\<lparr>in_name := strncpy (in_name n) fname (VFS_MAX_FILENAME_LEN - 1),
                 in_start_sector := 3 + of_nat i, in_size_bytes := 0, in_in_use := 1, in_flags := flags\<rparr>) v;
          v2 = v1\<lparr>v_sb := (v_sb v1)\<lparr>sb_file_count := sb_file_count (v_sb v1) + 1\<rparr>\<rparr>;
          v3 = erase_sector (in_start_sector (sb_inodes (v_sb v2) ! i)) v2
      in vfs_sync_superblock v3)"

definition truncate_inode :: "nat \<Rightarrow> vfs \<Rightarrow> vfs" where
  "truncate_inode i v =
     (let v1 = set_inode i (\<lambda>n. n\<lparr>in_size_bytes := 0\<rparr>) v
      in vfs_sync_superblock (erase_sector (in_start_sector (sb_inodes (v_sb v1) ! i)) v1))"

text \<open>Opening inode \<open>i\<close> in descriptor \<open>fd\<close>\<close>

definition open_desc :: "nat \<Rightarrow> nat \<Rightarrow> u32 \<Rightarrow> vfs \<Rightarrow> vfs" where
  "open_desc fd i flags v =
     (let v1 = set_desc fd (\<lambda>d. d\<lparr>fd_inode_idx := i, fd_flags := flags,
                 fd_cursor := (if flags AND VFS_O_APPEND \<noteq> 0 then in_size_bytes (sb_inodes (v_sb v) ! i) else 0),
                 fd_is_open := True\<rparr>) v
      in if flags AND VFS_O_TRUNC \<noteq> 0
         then truncate_inode i (set_desc fd (\<lambda>d. d\<lparr>fd_cursor := 0\<rparr>) v1) else v1)"

text \<open>A path is \<open>None\<close> when it is NULL, the flag says that \<open>out_fd\<close> is not NULL. The result holds the
  descriptor stored.\<close>

definition vfs_open :: "string option \<Rightarrow> u32 \<Rightarrow> bool \<Rightarrow> vfs \<Rightarrow> (mk_status \<times> int option) \<times> vfs" where
  "vfs_open path flags out_ok v =
     (case path of
        None \<Rightarrow> ((MK_STATUS_INVALID_ARG, None), v)
      | Some p \<Rightarrow>
          if \<not> v_ready v \<or> \<not> out_ok then ((MK_STATUS_INVALID_ARG, None), v)
          else
            let fname = strip_slash p;
                finish = (\<lambda>i v1. case free_desc (v_files v1) of
                    None \<Rightarrow> ((MK_STATUS_BUSY, None), v1)
                  | Some fd \<Rightarrow> ((MK_STATUS_OK, Some (int fd)), open_desc fd i flags v1))
            in case find_inode fname (sb_inodes (v_sb v)) of
                 Some i \<Rightarrow> finish i v
               | None \<Rightarrow>
                   if flags AND VFS_O_CREAT = 0 then ((MK_STATUS_NOT_FOUND, None), v)
                   else (case free_inode (sb_inodes (v_sb v)) of
                           None \<Rightarrow> ((MK_STATUS_NO_MEMORY, None), v)
                         | Some i \<Rightarrow> finish i (create_inode i fname flags v)))"

definition fd_valid :: "int \<Rightarrow> bool" where
  "fd_valid fd \<longleftrightarrow> 0 \<le> fd \<and> fd < int VFS_MAX_OPEN_FILES"

text \<open>The flags say that the pointers are not NULL. The result is \<open>None\<close> when the code reads outside the
  sector buffer; otherwise the status, the bytes copied to the buffer when \<open>*bytes_read\<close> is stored
  (it is their number), and the state.\<close>

definition vfs_read ::
  "int \<Rightarrow> bool \<Rightarrow> u32 \<Rightarrow> bool \<Rightarrow> vfs \<Rightarrow> ((mk_status \<times> u8 list option) \<times> vfs) option" where
  "vfs_read fd buffer_ok sz out_ok v =
     (if \<not> v_ready v \<or> \<not> buffer_ok \<or> \<not> out_ok \<or> \<not> fd_valid fd then Some ((MK_STATUS_INVALID_ARG, None), v)
      else let desc = v_files v ! nat fd in
      if \<not> fd_is_open desc then Some ((MK_STATUS_INVALID_STATE, None), v)
      else let inode = sb_inodes (v_sb v) ! fd_inode_idx desc in
      if in_size_bytes inode \<le> fd_cursor desc then Some ((MK_STATUS_OK, Some []), v)
      else
        let to_read = (if in_size_bytes inode < fd_cursor desc + sz
                       then in_size_bytes inode - fd_cursor desc else sz);
            (st, buf) = vfs_block_read (in_start_sector inode) True VFS_SECTOR_SIZE (v_blk v)
        in if st \<noteq> MK_STATUS_OK then Some ((st, None), v)
           else if unat VFS_SECTOR_SIZE < unat (fd_cursor desc) + unat to_read then None
           else Some ((MK_STATUS_OK, Some (field (unat (fd_cursor desc)) (unat to_read) buf)),
                      set_desc (nat fd) (\<lambda>d. d\<lparr>fd_cursor := fd_cursor d + to_read\<rparr>) v))"

text \<open>The buffer is \<open>None\<close> when NULL, otherwise the \<open>size\<close> bytes it points to. The result is \<open>None\<close> when the
  code writes outside the sector buffer. When reading the sector fails, the buffer keeps older bytes;
  they reach no result, because writing the sector then fails as well.\<close>

definition vfs_write ::
  "int \<Rightarrow> u8 list option \<Rightarrow> bool \<Rightarrow> vfs \<Rightarrow> ((mk_status \<times> u32 option) \<times> vfs) option" where
  "vfs_write fd buffer out_ok v =
     (case buffer of
        None \<Rightarrow> Some ((MK_STATUS_INVALID_ARG, None), v)
      | Some data \<Rightarrow>
          if \<not> v_ready v \<or> \<not> out_ok \<or> \<not> fd_valid fd then Some ((MK_STATUS_INVALID_ARG, None), v)
          else let desc = v_files v ! nat fd; sz = of_nat (length data) in
          if \<not> fd_is_open desc \<or> fd_flags desc AND VFS_O_RDONLY \<noteq> 0
          then Some ((MK_STATUS_INVALID_STATE, None), v)
          else let idx = fd_inode_idx desc; inode = sb_inodes (v_sb v) ! idx in
          if VFS_SECTOR_SIZE < fd_cursor desc + sz then Some ((MK_STATUS_NO_MEMORY, None), v)
          else
            let (rst, bs) = vfs_block_read (in_start_sector inode) True VFS_SECTOR_SIZE (v_blk v);
                buf = (if rst = MK_STATUS_OK then bs else replicate (unat VFS_SECTOR_SIZE) 0)
            in if unat VFS_SECTOR_SIZE < unat (fd_cursor desc) + length data then None
               else
                 let buf1 = put_bytes (unat (fd_cursor desc)) data buf;
                     v1 = erase_sector (in_start_sector inode) v;
                     (st, b) = vfs_block_write (in_start_sector inode) (Some buf1) (fd_cursor desc + sz) (v_blk v1);
                     v2 = v1\<lparr>v_blk := b\<rparr>
                 in if st \<noteq> MK_STATUS_OK then Some ((st, None), v2)
                    else
                      let cur = fd_cursor desc + sz;
                          v3 = set_desc (nat fd) (\<lambda>d. d\<lparr>fd_cursor := cur\<rparr>) v2;
                          v4 = (if in_size_bytes inode < cur
                                then vfs_sync_superblock (set_inode idx (\<lambda>n. n\<lparr>in_size_bytes := cur\<rparr>) v3)
                                else v3)
                      in Some ((MK_STATUS_OK, Some sz), v4))"

definition vfs_close :: "int \<Rightarrow> vfs \<Rightarrow> mk_status \<times> vfs" where
  "vfs_close fd v =
     (if \<not> fd_valid fd \<or> \<not> fd_is_open (v_files v ! nat fd) then (MK_STATUS_INVALID_ARG, v)
      else (MK_STATUS_OK, set_desc (nat fd) (\<lambda>d. d\<lparr>fd_is_open := False\<rparr>) v))"

definition vfs_delete :: "string option \<Rightarrow> vfs \<Rightarrow> mk_status \<times> vfs" where
  "vfs_delete path v =
     (case path of
        None \<Rightarrow> (MK_STATUS_INVALID_ARG, v)
      | Some p \<Rightarrow>
          if \<not> v_ready v then (MK_STATUS_INVALID_ARG, v)
          else (case find_inode (strip_slash p) (sb_inodes (v_sb v)) of
                  None \<Rightarrow> (MK_STATUS_NOT_FOUND, v)
                | Some i \<Rightarrow>
                    let v1 = set_inode i (\<lambda>n. n\<lparr>in_in_use := 0\<rparr>) v;
                        v2 = erase_sector (in_start_sector (sb_inodes (v_sb v1) ! i)) v1;
                        v3 = v2\<lparr>v_sb := (v_sb v2)\<lparr>sb_file_count := sb_file_count (v_sb v2) - 1\<rparr>\<rparr>
                    in (MK_STATUS_OK, vfs_sync_superblock v3)))"

record mk_vfs_stat =
  st_size :: u32
  st_flags :: u32
  st_created_tick :: u32
  st_modified_tick :: u32

definition vfs_stat :: "string option \<Rightarrow> bool \<Rightarrow> vfs \<Rightarrow> mk_status \<times> mk_vfs_stat option" where
  "vfs_stat path out_ok v =
     (case path of
        None \<Rightarrow> (MK_STATUS_INVALID_ARG, None)
      | Some p \<Rightarrow>
          if \<not> v_ready v \<or> \<not> out_ok then (MK_STATUS_INVALID_ARG, None)
          else (case find_inode (strip_slash p) (sb_inodes (v_sb v)) of
                  None \<Rightarrow> (MK_STATUS_NOT_FOUND, None)
                | Some i \<Rightarrow>
                    let n = sb_inodes (v_sb v) ! i
                    in (MK_STATUS_OK, Some \<lparr>st_size = in_size_bytes n, st_flags = in_flags n,
                          st_created_tick = 0, st_modified_tick = 0\<rparr>)))"

end
