(* ===== verification/Vfs_Files.thy ===== *)
theory Vfs_Files
  imports Vfs
begin

text \<open>
  What the file system keeps: sectors as byte lists, the invariant of a mounted file system (the
  directory in memory is the directory on flash, every file has a sector of its own) and its
  preservation by every operation.
\<close>

section \<open>Flash as sectors\<close>

lemma length_flash_get [simp]: "length (flash_get f a n) = n"
  by (simp add: flash_get_def)

lemma nth_flash_get: "i < n \<Longrightarrow> flash_get f a n ! i = f (a + i)"
  by (simp add: flash_get_def)

lemma take_flash_get: "m \<le> n \<Longrightarrow> take m (flash_get f a n) = flash_get f a m"
  by (rule nth_equalityI) (simp_all add: nth_flash_get)

lemma flash_get_put_other:
  "a + length bs \<le> b \<or> b + n \<le> a \<Longrightarrow> flash_get (flash_put a bs f) b n = flash_get f b n"
  by (rule nth_equalityI) (auto simp: nth_flash_get flash_put_def)

lemma flash_get_put:
  "length bs \<le> n \<Longrightarrow> flash_get (flash_put a bs f) a n = bs @ drop (length bs) (flash_get f a n)"
  by (rule nth_equalityI) (auto simp: nth_flash_get flash_put_def nth_append)

lemma sector_addr_small: "s < 64 \<Longrightarrow> sector_addr s = 4096 * unat s"
  by (simp add: sector_addr_def VFS_SECTOR_SIZE_def unat_word_ariths word_less_nat_alt)

lemma sector_addr_disjoint:
  assumes "s < 64" and "t < 64" and "s \<noteq> t"
  shows "sector_addr s + 4096 \<le> sector_addr t \<or> sector_addr t + 4096 \<le> sector_addr s"
proof -
  have "unat s < unat t \<or> unat t < unat s" using assms(3) by (metis linorder_neqE_nat word_unat_eq_iff)
  then show ?thesis using assms(1,2) by (auto simp: sector_addr_small)
qed

definition blk_ok :: "vblock \<Rightarrow> bool" where
  "blk_ok b \<longleftrightarrow> vb_initialized b \<and> vb_sector_count b = 64 \<and> crc_table_ok b"

text \<open>The bytes of sector \<open>s\<close>\<close>

definition sector :: "vfs \<Rightarrow> u32 \<Rightarrow> u8 list" where
  "sector v s = flash_get (vb_flash (v_blk v)) (sector_addr s) 4096"

lemma length_sector [simp]: "length (sector v s) = 4096"
  by (simp add: sector_def)

lemma sector_sb [simp]: "sector (v\<lparr>v_sb := sb\<rparr>) s = sector v s"
  by (simp add: sector_def)

lemma sector_set_inode [simp]: "sector (set_inode i f v) s = sector v s"
  by (simp add: sector_def set_inode_def)

lemma sector_set_desc [simp]: "sector (set_desc i f v) s = sector v s"
  by (simp add: sector_def set_desc_def)

lemma erase_frame [simp]:
  "v_sb (erase_sector s v) = v_sb v" "v_files (erase_sector s v) = v_files v" "v_ready (erase_sector s v) = v_ready v"
  by (simp_all add: erase_sector_def)

lemma blk_ok_erase [simp]: "blk_ok (v_blk v) \<Longrightarrow> blk_ok (v_blk (erase_sector s v))"
  by (auto simp: blk_ok_def erase_sector_def vfs_block_erase_def crc_table_ok_def)

lemma sector_erase:
  assumes "blk_ok (v_blk v)" and "s < 64" and "t < 64"
  shows "sector (erase_sector s v) t = (if s = t then replicate 4096 0xFF else sector v t)"
proof -
  have "sector (erase_sector s v) t
      = flash_get (flash_put (sector_addr s) (replicate 4096 0xFF) (vb_flash (v_blk v))) (sector_addr t) 4096"
    using assms by (auto simp: sector_def erase_sector_def vfs_block_erase_def blk_ok_def VFS_SECTOR_SIZE_def)
  then show ?thesis
    using sector_addr_disjoint[OF assms(2,3)] by (auto simp: flash_get_put flash_get_put_other sector_def)
qed

lemma block_write_ok:
  assumes "blk_ok (v_blk v)" and "s < 64" and "n \<le> 4096"
  shows "\<exists>b. vfs_block_write s (Some bs) n (v_blk v) = (MK_STATUS_OK, b) \<and> blk_ok b
    \<and> (\<forall>t < 64. unat n \<le> length bs \<longrightarrow> sector (v\<lparr>v_blk := b\<rparr>) t
         = (if s = t then take (unat n) bs @ drop (unat n) (sector v t) else sector v t))"
proof -
  let ?b = "(v_blk v)\<lparr>vb_flash := flash_put (sector_addr s) (take (unat n) bs) (vb_flash (v_blk v))\<rparr>"
  have n: "unat n \<le> 4096" using assms(3) by (simp add: word_le_nat_alt)
  have "sector (v\<lparr>v_blk := ?b\<rparr>) t = (if s = t then take (unat n) bs @ drop (unat n) (sector v t) else sector v t)"
    if "t < 64" "unat n \<le> length bs" for t
    using that n sector_addr_disjoint[OF assms(2) that(1)]
    by (auto simp: sector_def flash_get_put flash_get_put_other min_def)
  then show ?thesis
    using assms by (auto simp: vfs_block_write_def blk_ok_def VFS_SECTOR_SIZE_def crc_table_ok_def)
qed

lemma block_read_ok:
  assumes "blk_ok (v_blk v)" and "s < 64" and "n \<le> 4096"
  shows "vfs_block_read s True n (v_blk v) = (MK_STATUS_OK, take (unat n) (sector v s))"
  using assms by (auto simp: vfs_block_read_def blk_ok_def VFS_SECTOR_SIZE_def sector_def take_flash_get
      word_le_nat_alt word_less_nat_alt)

section \<open>The superblock on flash\<close>

lemma length_inode_to_bytes: "length (in_name i) = 32 \<Longrightarrow> length (inode_to_bytes i) = 48"
  by (simp add: inode_to_bytes_def)

lemma inode_of_to_bytes: "length (in_name i) = 32 \<Longrightarrow> inode_of_bytes (inode_to_bytes i @ rest) = i"
  by (simp add: inode_of_bytes_def inode_to_bytes_def field_append2 field_append1 flip: append_assoc)

lemma length_concat_inodes:
  "(\<forall>i \<in> set is. length (in_name i) = 32) \<Longrightarrow> length (concat (map inode_to_bytes is)) = 48 * length is"
  by (induction "is") (auto simp: length_inode_to_bytes)

lemma field_concat_inodes:
  assumes "\<forall>i \<in> set is. length (in_name i) = 32" and "k < length is"
  shows "field (48 * k) 48 (concat (map inode_to_bytes is) @ rest) = inode_to_bytes (is ! k)"
  using assms
proof (induction "is" arbitrary: k)
  case Nil
  then show ?case by simp
next
  case (Cons a as)
  have a: "length (inode_to_bytes a) = 48" using Cons.prems(1) by (simp add: length_inode_to_bytes)
  show ?case
  proof (cases k)
    case 0
    then show ?thesis using a by (simp add: field_append1)
  next
    case (Suc m)
    then show ?thesis using a Cons.IH[of m] Cons.prems by (simp add: field_append2)
  qed
qed

definition names_ok :: "vfs_superblock \<Rightarrow> bool" where
  "names_ok sb \<longleftrightarrow> length (sb_inodes sb) = 16 \<and> (\<forall>i \<in> set (sb_inodes sb). length (in_name i) = 32)"

lemma length_superblock_body: "names_ok sb \<Longrightarrow> length (superblock_body sb) = 776"
  by (simp add: superblock_body_def names_ok_def length_concat_inodes)

lemma superblock_of_to_bytes:
  assumes "names_ok sb"
  shows "superblock_of_bytes (superblock_to_bytes sb) = sb"
proof -
  let ?is = "concat (map inode_to_bytes (sb_inodes sb))"
  have l: "length ?is = 768" using assms by (simp add: names_ok_def length_concat_inodes)
  have e: "superblock_to_bytes sb = le32 (sb_magic sb) @ le32 (sb_file_count sb) @ ?is @ le32 (sb_crc32 sb)"
    by (simp add: superblock_to_bytes_def superblock_body_def)
  have "inode_of_bytes (field (8 + 48 * k) 48 (superblock_to_bytes sb)) = sb_inodes sb ! k" if "k < 16" for k
  proof -
    have "field (8 + 48 * k) 48 (superblock_to_bytes sb) = inode_to_bytes (sb_inodes sb ! k)"
      using that assms field_concat_inodes[of "sb_inodes sb" k] by (simp add: e field_append2 names_ok_def)
    then show ?thesis using that assms inode_of_to_bytes[of _ "[]"] by (simp add: names_ok_def)
  qed
  then have "map (\<lambda>i. inode_of_bytes (field (8 + 48 * i) 48 (superblock_to_bytes sb))) [0..<16] = sb_inodes sb"
    using assms by (intro nth_equalityI) (simp_all add: names_ok_def)
  moreover have "field 0 4 (superblock_to_bytes sb) = le32 (sb_magic sb)"
    "field 4 4 (superblock_to_bytes sb) = le32 (sb_file_count sb)"
    "field 776 4 (superblock_to_bytes sb) = le32 (sb_crc32 sb)"
    unfolding e using l by (simp_all add: field_append1 field_append2)
  ultimately show ?thesis by (simp add: superblock_of_bytes_def VFS_MAX_FILES_def)
qed


section \<open>The invariant\<close>

text \<open>The sector of inode \<open>i\<close>: its own, or that of a default file\<close>

definition start_ok :: "nat \<Rightarrow> u32 \<Rightarrow> bool" where
  "start_ok i s \<longleftrightarrow> s = 3 + of_nat i \<or> i < 2 \<and> s = 1 + of_nat i"

definition inode_ok :: "nat \<Rightarrow> vfs_inode \<Rightarrow> bool" where
  "inode_ok i n \<longleftrightarrow> length (in_name n) = 32 \<and> in_name n ! 31 = NUL \<and> in_size_bytes n \<le> 4096
     \<and> (in_in_use n \<noteq> 0 \<longrightarrow> start_ok i (in_start_sector n))"

definition files_used :: "vfs_inode list \<Rightarrow> nat" where
  "files_used inodes = length (filter (\<lambda>n. in_in_use n \<noteq> 0) inodes)"

definition dir_ok :: "vfs_superblock \<Rightarrow> bool" where
  "dir_ok sb \<longleftrightarrow> length (sb_inodes sb) = 16 \<and> (\<forall>i < 16. inode_ok i (sb_inodes sb ! i))
     \<and> sb_file_count sb = of_nat (files_used (sb_inodes sb))"

text \<open>The directory in memory is the directory on flash, with its checksum.\<close>

definition on_flash :: "vfs \<Rightarrow> bool" where
  "on_flash v \<longleftrightarrow> sb_magic (v_sb v) = VFS_BLOCK_MAGIC \<and> sb_crc32 (v_sb v) = crc32 (superblock_body (v_sb v))
     \<and> take 780 (sector v 0) = superblock_to_bytes (v_sb v)"

definition descs_ok :: "vfs_inode list \<Rightarrow> vfs_file_desc list \<Rightarrow> bool" where
  "descs_ok inodes files \<longleftrightarrow> length files = 8 \<and> (\<forall>d \<in> set files. fd_is_open d \<longrightarrow>
     fd_inode_idx d < 16 \<and> start_ok (fd_inode_idx d) (in_start_sector (inodes ! fd_inode_idx d)) \<and> fd_cursor d \<le> 4096)"

definition vfs_ok :: "vfs \<Rightarrow> bool" where
  "vfs_ok v \<longleftrightarrow> v_ready v \<and> blk_ok (v_blk v) \<and> dir_ok (v_sb v) \<and> on_flash v
     \<and> descs_ok (sb_inodes (v_sb v)) (v_files v)"

lemma start_ok_bounds: "start_ok i s \<Longrightarrow> i < 16 \<Longrightarrow> s \<noteq> 0 \<and> s < 64"
  by (auto simp: start_ok_def word_less_nat_alt unat_word_ariths unat_of_nat simp flip: unat_eq_0)

lemma start_ok_unat: "start_ok i s \<Longrightarrow> i < 16 \<Longrightarrow> unat s = i + 3 \<or> i < 2 \<and> unat s = i + 1"
  by (auto simp: start_ok_def unat_word_ariths unat_of_nat)

lemma start_ok_distinct: "start_ok i s \<Longrightarrow> start_ok j s \<Longrightarrow> i < 16 \<Longrightarrow> j < 16 \<Longrightarrow> i = j"
  using start_ok_unat[of i s] start_ok_unat[of j s] by linarith

lemma dir_ok_names: "dir_ok sb \<Longrightarrow> names_ok sb"
  by (auto simp: dir_ok_def names_ok_def inode_ok_def in_set_conv_nth)

lemma vfs_okD:
  assumes "vfs_ok v"
  shows "v_ready v" "blk_ok (v_blk v)" "dir_ok (v_sb v)" "on_flash v" "descs_ok (sb_inodes (v_sb v)) (v_files v)"
    "length (sb_inodes (v_sb v)) = 16" "length (v_files v) = 8" "names_ok (v_sb v)"
  using assms dir_ok_names by (auto simp: vfs_ok_def dir_ok_def descs_ok_def)

text \<open>Writing the superblock\<close>

lemma sync_spec:
  assumes "blk_ok (v_blk v)" and "names_ok (v_sb v)"
  defines "v' \<equiv> vfs_sync_superblock v"
  shows "v_files v' = v_files v" and "v_ready v' = v_ready v" and "blk_ok (v_blk v')" and "on_flash v'"
    and "sb_inodes (v_sb v') = sb_inodes (v_sb v)" and "sb_file_count (v_sb v') = sb_file_count (v_sb v)"
    and "\<And>t. t \<noteq> 0 \<Longrightarrow> t < 64 \<Longrightarrow> sector v' t = sector v t"
proof -
  let ?sb1 = "(v_sb v)\<lparr>sb_magic := VFS_BLOCK_MAGIC\<rparr>"
  let ?sb = "?sb1\<lparr>sb_crc32 := crc32 (superblock_body ?sb1)\<rparr>"
  let ?v1 = "v\<lparr>v_blk := table_ready (v_blk v)\<rparr>"
  let ?v2 = "erase_sector 0 ?v1"
  have b1: "blk_ok (v_blk ?v1)" using assms(1) by (auto simp: blk_ok_def table_ready_def init_crc_table_def crc_table_ok_def)
  have s1: "sector ?v1 t = sector v t" for t
    by (simp add: sector_def table_ready_def init_crc_table_def)
  have b2: "blk_ok (v_blk ?v2)" using b1 by simp
  obtain b where w: "vfs_block_write 0 (Some (superblock_to_bytes ?sb)) 780 (v_blk ?v2) = (MK_STATUS_OK, b)"
    and b: "blk_ok b"
    and s: "\<forall>t < 64. unat (780 :: u32) \<le> length (superblock_to_bytes ?sb) \<longrightarrow> sector (?v2\<lparr>v_blk := b\<rparr>) t
         = (if 0 = t then take (unat (780 :: u32)) (superblock_to_bytes ?sb) @ drop (unat (780 :: u32)) (sector ?v2 t) else sector ?v2 t)"
    using block_write_ok[OF b2, of 0 780 "superblock_to_bytes ?sb"] by auto
  have n: "names_ok ?sb" "names_ok ?sb1" using assms(2) by (simp_all add: names_ok_def)
  have l: "length (superblock_to_bytes ?sb) = 780" using n by (simp add: superblock_to_bytes_def length_superblock_body)
  have body: "superblock_body ?sb = superblock_body ?sb1" by (simp add: superblock_body_def)
  have "crc_table_ok (v_blk v)" using assms(1) by (simp add: blk_ok_def)
  then have v': "v' = v\<lparr>v_sb := ?sb, v_blk := b\<rparr>"
    using w by (simp add: v'_def vfs_sync_superblock_def Let_def VFS_DIR_SECTOR_def sizeof_superblock_def
        erase_sector_def case_prod_beta)
  have sec: "sector v' t = sector (?v2\<lparr>v_blk := b\<rparr>) t" for t by (simp add: v' sector_def)
  show "v_files v' = v_files v" "v_ready v' = v_ready v" "blk_ok (v_blk v')"
    "sb_inodes (v_sb v') = sb_inodes (v_sb v)" "sb_file_count (v_sb v') = sb_file_count (v_sb v)"
    using b by (simp_all add: v')
  have "sector v' 0 = superblock_to_bytes ?sb @ drop 780 (sector ?v2 0)"
    using s l unfolding sec by simp
  then show "on_flash v'" using l body by (simp add: on_flash_def v')
  fix t :: u32 assume t: "t \<noteq> 0" "t < 64"
  then have "sector v' t = sector ?v2 t" using s l unfolding sec by simp
  also have "\<dots> = sector ?v1 t" using t by (subst sector_erase[OF b1]) auto
  also have "\<dots> = sector v t" by (rule s1)
  finally show "sector v' t = sector v t" .
qed

lemma vfs_ok_sync:
  assumes "v_ready v" and "blk_ok (v_blk v)" and "dir_ok (v_sb v)" and "descs_ok (sb_inodes (v_sb v)) (v_files v)"
  shows "vfs_ok (vfs_sync_superblock v)"
  using sync_spec[OF assms(2) dir_ok_names[OF assms(3)]] assms by (simp add: vfs_ok_def dir_ok_def)


section \<open>Every operation keeps the invariant\<close>

lemma inodes_set_inode [simp]:
  "sb_inodes (v_sb (set_inode i f v)) = (sb_inodes (v_sb v))[i := f (sb_inodes (v_sb v) ! i)]"
  "sb_file_count (v_sb (set_inode i f v)) = sb_file_count (v_sb v)"
  "v_files (set_inode i f v) = v_files v" "v_ready (set_inode i f v) = v_ready v" "v_blk (set_inode i f v) = v_blk v"
  by (simp_all add: set_inode_def)

lemma frame_set_desc [simp]:
  "v_sb (set_desc i f v) = v_sb v" "v_ready (set_desc i f v) = v_ready v" "v_blk (set_desc i f v) = v_blk v"
  "v_files (set_desc i f v) = (v_files v)[i := f (v_files v ! i)]"
  by (simp_all add: set_desc_def)

lemma nth_update_if: "xs[i := x] ! j = (if i = j \<and> j < length xs then x else xs ! j)"
  by (cases "i = j"; cases "j < length xs") (simp_all add: list_update_beyond)

lemma files_used_update:
  "i < length ns \<Longrightarrow>
   files_used (ns[i := n]) + of_bool (in_in_use (ns ! i) \<noteq> 0) = files_used ns + of_bool (in_in_use n \<noteq> 0)"
proof (induction ns arbitrary: i)
  case Nil
  then show ?case by simp
next
  case (Cons a ns)
  show ?case
  proof (cases i)
    case (Suc m)
    then show ?thesis using Cons.IH[of m] Cons.prems by (simp add: files_used_def)
  qed (simp add: files_used_def)
qed

lemma find_upt_SomeD: "find P [0..<n] = Some i \<Longrightarrow> i < n \<and> P i"
  by (auto simp: find_Some_iff)

lemma find_inodeD:
  "find_inode n ns = Some i \<Longrightarrow> i < 16 \<and> in_in_use (ns ! i) \<noteq> 0 \<and> strncmp_eq (in_name (ns ! i)) n 32"
  by (auto simp: find_inode_def VFS_MAX_FILES_def VFS_MAX_FILENAME_LEN_def dest: find_upt_SomeD)

lemma free_inodeD: "free_inode ns = Some i \<Longrightarrow> i < 16 \<and> in_in_use (ns ! i) = 0"
  by (auto simp: free_inode_def VFS_MAX_FILES_def dest: find_upt_SomeD)

lemma free_descD: "free_desc fs = Some i \<Longrightarrow> i < 8 \<and> \<not> fd_is_open (fs ! i)"
  by (auto simp: free_desc_def VFS_MAX_OPEN_FILES_def dest: find_upt_SomeD)

lemma dir_ok_update:
  assumes "length ns = 16" and "\<forall>i < 16. inode_ok i (ns ! i)" and "inode_ok i n"
  shows "\<forall>j < 16. inode_ok j (ns[i := n] ! j)"
  using assms by (auto simp: nth_update_if)

lemma descs_ok_inode:
  assumes "descs_ok ns fs" and "length ns = 16" and "start_ok i (in_start_sector (ns ! i)) \<Longrightarrow> start_ok i (in_start_sector n)"
  shows "descs_ok (ns[i := n]) fs"
  using assms by (auto simp: descs_ok_def nth_update_if)

lemma descs_ok_desc:
  assumes "descs_ok ns fs"
    and "fd_is_open d \<Longrightarrow> fd_inode_idx d < 16 \<and> start_ok (fd_inode_idx d) (in_start_sector (ns ! fd_inode_idx d)) \<and> fd_cursor d \<le> 4096"
  shows "descs_ok ns (fs[i := d])"
  using assms by (auto simp: descs_ok_def dest!: set_update_subset_insert[THEN subsetD])

lemma names_ok_update:
  "names_ok (v_sb v) \<Longrightarrow> length (in_name n) = 32 \<Longrightarrow> names_ok ((v_sb v)\<lparr>sb_inodes := (sb_inodes (v_sb v))[i := n]\<rparr>)"
  by (auto simp: names_ok_def dest!: set_update_subset_insert[THEN subsetD])

lemma names_ok_nth: "names_ok sb \<Longrightarrow> i < 16 \<Longrightarrow> length (in_name (sb_inodes sb ! i)) = 32"
  by (simp add: names_ok_def)

lemma names_ok_count: "names_ok (sb\<lparr>sb_file_count := c\<rparr>) = names_ok sb"
  by (simp add: names_ok_def)

text \<open>The effect of creating, truncating and deleting on directory and sectors\<close>

definition created :: "string \<Rightarrow> u32 \<Rightarrow> nat \<Rightarrow> vfs_inode \<Rightarrow> vfs_inode" where
  "created fname flags i n = n\<lparr>in_name := strncpy (in_name n) fname 31, in_start_sector := 3 + of_nat i,
     in_size_bytes := 0, in_in_use := 1, in_flags := flags\<rparr>"

lemma created_sel [simp]:
  "in_name (created fname flags i n) = strncpy (in_name n) fname 31" "in_start_sector (created fname flags i n) = 3 + of_nat i"
  "in_size_bytes (created fname flags i n) = 0" "in_in_use (created fname flags i n) = 1" "in_flags (created fname flags i n) = flags"
  by (simp_all add: created_def)

lemma create_spec:
  fixes fname :: string and flags :: u32
  assumes "vfs_ok v" and "i < 16"
  defines "v' \<equiv> create_inode i fname flags v"
  shows "sb_inodes (v_sb v') = (sb_inodes (v_sb v))[i := created fname flags i (sb_inodes (v_sb v) ! i)]"
    and "v_files v' = v_files v"
    and "\<And>t. t \<noteq> 0 \<Longrightarrow> t < 64 \<Longrightarrow> sector v' t = (if t = 3 + of_nat i then replicate 4096 0xFF else sector v t)"
proof -
  note ok = vfs_okD[OF assms(1)]
  let ?n = "sb_inodes (v_sb v) ! i" and ?s = "3 + of_nat i :: u32"
  let ?sb = "(v_sb v)\<lparr>sb_inodes := (sb_inodes (v_sb v))[i := created fname flags i ?n]\<rparr>"
  let ?w = "erase_sector ?s (v\<lparr>v_sb := ?sb\<lparr>sb_file_count := sb_file_count (v_sb v) + 1\<rparr>\<rparr>)"
  have v': "v' = vfs_sync_superblock ?w"
    using ok(6) assms(2)
    by (simp add: v'_def create_inode_def Let_def set_inode_def created_def VFS_MAX_FILENAME_LEN_def)
  have "names_ok ?sb"
    using names_ok_nth[OF ok(8) assms(2)] by (intro names_ok_update[OF ok(8)]) (simp add: length_strncpy)
  then have sy: "blk_ok (v_blk ?w)" "names_ok (v_sb ?w)" using ok(2) by (simp_all add: names_ok_count)
  note sp = sync_spec[OF sy, folded v']
  show "sb_inodes (v_sb v') = (sb_inodes (v_sb v))[i := created fname flags i ?n]" "v_files v' = v_files v"
    using sp by simp_all
  fix t :: u32 assume t: "t \<noteq> 0" "t < 64"
  have s: "?s < 64" using start_ok_bounds[of i ?s] assms(2) by (simp add: start_ok_def)
  show "sector v' t = (if t = ?s then replicate 4096 0xFF else sector v t)"
    using sp(7)[OF t] sector_erase[OF _ s t(2), of "v\<lparr>v_sb := ?sb\<lparr>sb_file_count := sb_file_count (v_sb v) + 1\<rparr>\<rparr>"] ok(2)
    by simp
qed

lemma vfs_ok_create [inv_intros]:
  assumes "vfs_ok v" and "i < 16" and "in_in_use (sb_inodes (v_sb v) ! i) = 0"
  shows "vfs_ok (create_inode i fname flags v)"
proof -
  note ok = vfs_okD[OF assms(1)]
  let ?n = "sb_inodes (v_sb v) ! i"
  have n: "inode_ok i ?n" using ok(3) assms(2) by (simp add: dir_ok_def)
  let ?m = "?n\<lparr>in_name := strncpy (in_name ?n) fname 31, in_start_sector := 3 + of_nat i, in_size_bytes := 0,
      in_in_use := 1, in_flags := flags\<rparr>"
  have m: "inode_ok i ?m" using n by (simp add: inode_ok_def length_strncpy strncpy_last start_ok_def)
  have "files_used ((sb_inodes (v_sb v))[i := ?m]) = Suc (files_used (sb_inodes (v_sb v)))"
    using files_used_update[of i "sb_inodes (v_sb v)" ?m] ok(6) assms(2,3) by simp
  moreover have "descs_ok ((sb_inodes (v_sb v))[i := ?m]) (v_files v)"
    using ok(5,6) by (rule descs_ok_inode) (simp add: start_ok_def)
  ultimately show ?thesis
    unfolding create_inode_def Let_def using ok m dir_ok_update[of "sb_inodes (v_sb v)" i ?m] assms(2)
    by (intro vfs_ok_sync) (simp_all add: dir_ok_def VFS_MAX_FILENAME_LEN_def)
qed

lemma vfs_ok_truncate [inv_intros]:
  assumes "vfs_ok v" and "i < 16"
  shows "vfs_ok (truncate_inode i v)"
proof -
  note ok = vfs_okD[OF assms(1)]
  let ?n = "sb_inodes (v_sb v) ! i"
  have m: "inode_ok i (?n\<lparr>in_size_bytes := 0\<rparr>)" using ok(3) assms(2) by (simp add: dir_ok_def inode_ok_def)
  have "files_used ((sb_inodes (v_sb v))[i := ?n\<lparr>in_size_bytes := 0\<rparr>]) = files_used (sb_inodes (v_sb v))"
    using files_used_update[of i "sb_inodes (v_sb v)" "?n\<lparr>in_size_bytes := 0\<rparr>"] ok(6) assms(2) by simp
  moreover have "descs_ok ((sb_inodes (v_sb v))[i := ?n\<lparr>in_size_bytes := 0\<rparr>]) (v_files v)"
    using ok(5,6) by (rule descs_ok_inode) simp
  ultimately show ?thesis
    unfolding truncate_inode_def Let_def using ok m dir_ok_update[of "sb_inodes (v_sb v)" i] assms(2)
    by (intro vfs_ok_sync) (simp_all add: dir_ok_def)
qed

lemma vfs_ok_set_desc [inv_intros]:
  assumes "vfs_ok v"
    and "fd_is_open (f (v_files v ! i)) \<Longrightarrow> fd_inode_idx (f (v_files v ! i)) < 16
      \<and> start_ok (fd_inode_idx (f (v_files v ! i))) (in_start_sector (sb_inodes (v_sb v) ! fd_inode_idx (f (v_files v ! i))))
      \<and> fd_cursor (f (v_files v ! i)) \<le> 4096"
  shows "vfs_ok (set_desc i f v)"
  using vfs_okD[OF assms(1)] assms(2) by (auto simp: vfs_ok_def on_flash_def intro: descs_ok_desc)

lemma vfs_ok_open_desc [inv_intros]:
  assumes "vfs_ok v" and "fd < 8" and "i < 16" and "in_in_use (sb_inodes (v_sb v) ! i) \<noteq> 0"
  shows "vfs_ok (open_desc fd i flags v)"
proof -
  note ok = vfs_okD[OF assms(1)]
  have n: "inode_ok i (sb_inodes (v_sb v) ! i)" using ok(3) assms(3) by (simp add: dir_ok_def)
  then have s: "start_ok i (in_start_sector (sb_inodes (v_sb v) ! i))" "in_size_bytes (sb_inodes (v_sb v) ! i) \<le> 4096"
    using assms(4) by (simp_all add: inode_ok_def)
  show ?thesis
    unfolding open_desc_def Let_def
    using assms s ok(7) by (auto intro!: vfs_ok_set_desc vfs_ok_truncate)
qed


lemma vfs_ok_open [inv_intros]:
  assumes "vfs_ok v"
  shows "vfs_ok (snd (vfs_open path flags out_ok v))"
proof (cases path)
  case None
  then show ?thesis using assms by (simp add: vfs_open_def)
next
  case (Some p)
  let ?f = "strip_slash p" and ?ns = "sb_inodes (v_sb v)"
  have fin: "vfs_ok (snd (case free_desc (v_files w) of None \<Rightarrow> ((MK_STATUS_BUSY, None), w)
      | Some fd \<Rightarrow> ((MK_STATUS_OK, Some (int fd)), open_desc fd i flags w)))"
    if "vfs_ok w" "i < 16" "in_in_use (sb_inodes (v_sb w) ! i) \<noteq> 0" for w i
    using that by (auto split: option.splits intro!: vfs_ok_open_desc dest: free_descD)
  have created: "in_in_use (sb_inodes (v_sb (create_inode i ?f flags v)) ! i) \<noteq> 0" if "i < 16" for i
    using create_spec(1)[OF assms that] vfs_okD(6)[OF assms] that by simp
  show ?thesis
  proof (cases "find_inode ?f ?ns")
    case (Some i)
    then show ?thesis using \<open>path = Some p\<close> assms fin[of v i] find_inodeD[OF Some]
      by (simp add: vfs_open_def Let_def)
  next
    case None
    show ?thesis
    proof (cases "free_inode ?ns")
      case (Some i)
      then show ?thesis using \<open>path = Some p\<close> None assms fin[of "create_inode i ?f flags v" i] created[of i]
          free_inodeD[OF Some] vfs_ok_create[OF assms, of i ?f flags]
        by (simp add: vfs_open_def Let_def)
    qed (use \<open>path = Some p\<close> None assms in \<open>simp add: vfs_open_def Let_def\<close>)
  qed
qed

lemma vfs_ok_close [inv_intros]: "vfs_ok v \<Longrightarrow> vfs_ok (snd (vfs_close fd v))"
  by (auto simp: vfs_close_def intro: vfs_ok_set_desc)

lemma vfs_ok_delete [inv_intros]:
  assumes "vfs_ok v"
  shows "vfs_ok (snd (vfs_delete path v))"
proof (cases "path = None \<or> find_inode (strip_slash (the path)) (sb_inodes (v_sb v)) = None")
  case True
  then show ?thesis using assms by (auto simp: vfs_delete_def split: option.splits)
next
  case False
  then obtain p i where p: "path = Some p" and i: "find_inode (strip_slash p) (sb_inodes (v_sb v)) = Some i" by auto
  note ok = vfs_okD[OF assms] and fi = find_inodeD[OF i]
  let ?n = "sb_inodes (v_sb v) ! i"
  let ?m = "?n\<lparr>in_in_use := 0\<rparr>"
  have m: "inode_ok i ?m" using ok(3) fi by (simp add: dir_ok_def inode_ok_def)
  have u: "Suc (files_used ((sb_inodes (v_sb v))[i := ?m])) = files_used (sb_inodes (v_sb v))"
    using files_used_update[of i "sb_inodes (v_sb v)" ?m] ok(6) fi by simp
  have c: "sb_file_count (v_sb v) - 1 = of_nat (files_used ((sb_inodes (v_sb v))[i := ?m]))"
    using ok(3) by (simp add: dir_ok_def flip: u)
  have "descs_ok ((sb_inodes (v_sb v))[i := ?m]) (v_files v)"
    using ok(5,6) by (rule descs_ok_inode) simp
  then have "vfs_ok (vfs_sync_superblock (v\<lparr>v_blk := snd (vfs_block_erase (in_start_sector ?n) (v_blk v)),
      v_sb := (v_sb v)\<lparr>sb_inodes := (sb_inodes (v_sb v))[i := ?m], sb_file_count := sb_file_count (v_sb v) - 1\<rparr>\<rparr>))"
    using ok m c dir_ok_update[of "sb_inodes (v_sb v)" i ?m] blk_ok_erase[OF ok(2)]
    by (intro vfs_ok_sync) (simp_all add: dir_ok_def erase_sector_def)
  then show ?thesis using p i ok fi
    by (simp add: vfs_delete_def Let_def set_inode_def erase_sector_def)
qed

text \<open>Reading and writing: what they return and what they change\<close>

lemma open_desc_facts:
  assumes "vfs_ok v" and "fd_valid fd" and "fd_is_open (v_files v ! nat fd)"
  defines "d \<equiv> v_files v ! nat fd"
  shows "nat fd < 8" and "fd_inode_idx d < 16" and "start_ok (fd_inode_idx d) (in_start_sector (sb_inodes (v_sb v) ! fd_inode_idx d))"
    and "fd_cursor d \<le> 4096" and "in_start_sector (sb_inodes (v_sb v) ! fd_inode_idx d) < 64"
    and "in_start_sector (sb_inodes (v_sb v) ! fd_inode_idx d) \<noteq> 0" and "inode_ok (fd_inode_idx d) (sb_inodes (v_sb v) ! fd_inode_idx d)"
proof -
  note ok = vfs_okD[OF assms(1)]
  show "nat fd < 8" using assms(2) by (simp add: fd_valid_def VFS_MAX_OPEN_FILES_def nat_less_iff)
  then have "d \<in> set (v_files v)" using ok(7) by (simp add: d_def)
  then show a: "fd_inode_idx d < 16" "start_ok (fd_inode_idx d) (in_start_sector (sb_inodes (v_sb v) ! fd_inode_idx d))"
    "fd_cursor d \<le> 4096" using ok(5) assms(3) by (auto simp: descs_ok_def d_def)
  show "in_start_sector (sb_inodes (v_sb v) ! fd_inode_idx d) < 64"
    "in_start_sector (sb_inodes (v_sb v) ! fd_inode_idx d) \<noteq> 0" using start_ok_bounds[OF a(2,1)] by simp_all
  show "inode_ok (fd_inode_idx d) (sb_inodes (v_sb v) ! fd_inode_idx d)" using ok(3) a(1) by (simp add: dir_ok_def)
qed

text \<open>The contents of inode \<open>i\<close>\<close>

definition file_bytes :: "vfs \<Rightarrow> nat \<Rightarrow> u8 list" where
  "file_bytes v i = (let n = sb_inodes (v_sb v) ! i in take (unat (in_size_bytes n)) (sector v (in_start_sector n)))"

lemma vfs_read_spec:
  assumes "vfs_ok v" and "fd_valid fd" and "fd_is_open (v_files v ! nat fd)" and "unat sz + 4096 < 2 ^ 32"
  defines "d \<equiv> v_files v ! nat fd"
  defines "out \<equiv> take (unat sz) (drop (unat (fd_cursor d)) (file_bytes v (fd_inode_idx d)))"
  shows "vfs_read fd True sz True v = Some ((MK_STATUS_OK, Some out),
    set_desc (nat fd) (\<lambda>d. d\<lparr>fd_cursor := fd_cursor d + of_nat (length out)\<rparr>) v)"
proof -
  note ok = vfs_okD[OF assms(1)] and df = open_desc_facts[OF assms(1-3), folded d_def]
  let ?n = "sb_inodes (v_sb v) ! fd_inode_idx d"
  have sz: "unat (in_size_bytes ?n) \<le> 4096" and c: "unat (fd_cursor d) \<le> 4096"
    using df(4,7) by (simp_all add: inode_ok_def word_le_nat_alt)
  have set0: "set_desc (nat fd) (\<lambda>d. d\<lparr>fd_cursor := fd_cursor d + 0\<rparr>) v = v"
    using df(1) ok(7) by (simp add: set_desc_def)
  show ?thesis
  proof (cases "in_size_bytes ?n \<le> fd_cursor d")
    case True
    then have "out = []" by (simp add: out_def file_bytes_def Let_def word_le_nat_alt)
    then show ?thesis using True assms(2,3) ok(1) set0 by (simp add: vfs_read_def d_def Let_def)
  next
    case False
    let ?to = "if in_size_bytes ?n < fd_cursor d + sz then in_size_bytes ?n - fd_cursor d else sz"
    have lt: "unat (fd_cursor d) < unat (in_size_bytes ?n)" using False by (simp add: word_le_nat_alt)
    have sum: "unat (fd_cursor d + sz) = unat (fd_cursor d) + unat sz"
      using c assms(4) by (intro unat_add_small) linarith
    have to: "unat ?to = min (unat sz) (unat (in_size_bytes ?n) - unat (fd_cursor d))"
      using lt by (auto simp: word_less_nat_alt sum unat_sub_small)
    have lo: "length out = unat ?to" using sz unfolding to out_def file_bytes_def Let_def by simp
    have o: "field (unat (fd_cursor d)) (unat ?to) (sector v (in_start_sector ?n)) = out"
      unfolding field_def out_def file_bytes_def Let_def to by (simp add: drop_take min.commute)
    have rd: "vfs_block_read (in_start_sector ?n) True VFS_SECTOR_SIZE (v_blk v) = (MK_STATUS_OK, sector v (in_start_sector ?n))"
      using block_read_ok[OF ok(2) df(5), of 4096] by (simp add: VFS_SECTOR_SIZE_def)
    have "of_nat (length out) = ?to" using lo by simp
    moreover have "\<not> unat VFS_SECTOR_SIZE < unat (fd_cursor d) + unat ?to"
      using lt sz unfolding to by (simp add: VFS_SECTOR_SIZE_def)
    ultimately show ?thesis using False assms(2,3) ok(1) rd o
      unfolding vfs_read_def by (simp only: Let_def d_def[symmetric] split if_False simp_thms)
  qed
qed

lemma truncate_spec:
  assumes "vfs_ok v" and "i < 16" and "start_ok i (in_start_sector (sb_inodes (v_sb v) ! i))"
  defines "v' \<equiv> truncate_inode i v"
  shows "sb_inodes (v_sb v') = (sb_inodes (v_sb v))[i := (sb_inodes (v_sb v) ! i)\<lparr>in_size_bytes := 0\<rparr>]"
    and "v_files v' = v_files v"
    and "\<And>t. t \<noteq> 0 \<Longrightarrow> t < 64 \<Longrightarrow>
      sector v' t = (if t = in_start_sector (sb_inodes (v_sb v) ! i) then replicate 4096 0xFF else sector v t)"
proof -
  note ok = vfs_okD[OF assms(1)]
  let ?n = "sb_inodes (v_sb v) ! i"
  let ?base = "set_inode i (\<lambda>n. n\<lparr>in_size_bytes := 0\<rparr>) v"
  let ?w = "erase_sector (in_start_sector ?n) ?base"
  have v': "v' = vfs_sync_superblock ?w"
    using ok(6) assms(2) by (simp add: v'_def truncate_inode_def Let_def)
  have "names_ok (v_sb ?w)"
    using names_ok_nth[OF ok(8) assms(2)] names_ok_update[OF ok(8)] by (simp add: set_inode_def)
  then have sy: "blk_ok (v_blk ?w)" "names_ok (v_sb ?w)" using ok(2) by simp_all
  note sp = sync_spec[OF sy, folded v']
  show "sb_inodes (v_sb v') = (sb_inodes (v_sb v))[i := ?n\<lparr>in_size_bytes := 0\<rparr>]" "v_files v' = v_files v"
    using sp by simp_all
  fix t :: u32 assume t: "t \<noteq> 0" "t < 64"
  have "in_start_sector ?n < 64" using start_ok_bounds[OF assms(3,2)] by simp
  then show "sector v' t = (if t = in_start_sector ?n then replicate 4096 0xFF else sector v t)"
    using sp(7)[OF t] sector_erase[of ?base "in_start_sector ?n" t] ok(2) t by simp
qed

lemma delete_spec:
  assumes "vfs_ok v" and "find_inode (strip_slash p) (sb_inodes (v_sb v)) = Some i"
  shows "\<exists>v'. vfs_delete (Some p) v = (MK_STATUS_OK, v')
    \<and> sb_inodes (v_sb v') = (sb_inodes (v_sb v))[i := (sb_inodes (v_sb v) ! i)\<lparr>in_in_use := 0\<rparr>] \<and> v_files v' = v_files v
    \<and> (\<forall>t. t \<noteq> 0 \<longrightarrow> t < 64 \<longrightarrow>
      sector v' t = (if t = in_start_sector (sb_inodes (v_sb v) ! i) then replicate 4096 0xFF else sector v t))"
proof -
  note ok = vfs_okD[OF assms(1)] and fi = find_inodeD[OF assms(2)]
  let ?n = "sb_inodes (v_sb v) ! i"
  have st: "start_ok i (in_start_sector ?n)" using ok(3) fi by (simp add: dir_ok_def inode_ok_def)
  let ?base = "set_inode i (\<lambda>n. n\<lparr>in_in_use := 0\<rparr>) v"
  let ?erased = "erase_sector (in_start_sector ?n) ?base"
  let ?w = "?erased\<lparr>v_sb := (v_sb ?erased)\<lparr>sb_file_count := sb_file_count (v_sb ?erased) - 1\<rparr>\<rparr>"
  have d: "vfs_delete (Some p) v = (MK_STATUS_OK, vfs_sync_superblock ?w)"
    using ok(1,6) fi assms(2) by (simp add: vfs_delete_def Let_def)
  have "names_ok (v_sb ?w)"
    using names_ok_nth[OF ok(8)] fi names_ok_update[OF ok(8)] by (simp add: names_ok_count set_inode_def)
  then have sy: "blk_ok (v_blk ?w)" "names_ok (v_sb ?w)" using ok(2) by simp_all
  note sp = sync_spec[OF sy]
  have "sector (vfs_sync_superblock ?w) t = (if t = in_start_sector ?n then replicate 4096 0xFF else sector v t)"
    if t: "t \<noteq> 0" "t < 64" for t
    using sp(7)[OF t] sector_erase[of ?base "in_start_sector ?n" t] start_ok_bounds[OF st] fi ok(2) t by simp
  then show ?thesis using sp(1,5) d by auto
qed

lemma vfs_write_spec:
  assumes "vfs_ok v" and "fd_valid fd" and "fd_is_open (v_files v ! nat fd)"
    and "fd_flags (v_files v ! nat fd) AND VFS_O_RDONLY = 0"
    and "unat (fd_cursor (v_files v ! nat fd)) + length data \<le> 4096"
  defines "d \<equiv> v_files v ! nat fd"
  defines "n \<equiv> sb_inodes (v_sb v) ! fd_inode_idx d"
  defines "cur \<equiv> fd_cursor d + of_nat (length data)"
  shows "\<exists>v'. vfs_write fd (Some data) True v = Some ((MK_STATUS_OK, Some (of_nat (length data))), v') \<and> vfs_ok v'
    \<and> sb_inodes (v_sb v') = (sb_inodes (v_sb v))[fd_inode_idx d := n\<lparr>in_size_bytes := max (in_size_bytes n) cur\<rparr>]
    \<and> v_files v' = (v_files v)[nat fd := d\<lparr>fd_cursor := cur\<rparr>]
    \<and> (\<forall>t. t \<noteq> 0 \<longrightarrow> t < 64 \<longrightarrow> sector v' t =
         (if t = in_start_sector n
          then take (unat (fd_cursor d)) (sector v t) @ data @ replicate (4096 - (unat (fd_cursor d) + length data)) 0xFF
          else sector v t))"
proof -
  note ok = vfs_okD[OF assms(1)] and df = open_desc_facts[OF assms(1-3), folded d_def, folded n_def]
  let ?c = "unat (fd_cursor d)" and ?s = "in_start_sector n" and ?i = "fd_inode_idx d"
  have len: "?c + length data \<le> 4096" using assms(5) by (simp add: d_def)
  have cur: "unat cur = ?c + length data" unfolding cur_def using len by (simp add: unat_simps)
  have cur4: "cur \<le> 4096" using len by (simp add: word_le_nat_alt cur)
  define buf where "buf = put_bytes ?c data (sector v ?s)"
  have lb: "length buf = 4096" using len by (simp add: buf_def)
  let ?v1 = "erase_sector ?s v"
  have b1: "blk_ok (v_blk ?v1)" using ok(2) by simp
  obtain b where w: "vfs_block_write ?s (Some buf) cur (v_blk ?v1) = (MK_STATUS_OK, b)" and b: "blk_ok b"
    and sec: "\<forall>t < 64. sector (?v1\<lparr>v_blk := b\<rparr>) t
        = (if ?s = t then take (unat cur) buf @ drop (unat cur) (sector ?v1 t) else sector ?v1 t)"
    using block_write_ok[OF b1 df(5) cur4, of buf] lb len cur by auto
  have rd: "vfs_block_read ?s True VFS_SECTOR_SIZE (v_blk v) = (MK_STATUS_OK, sector v ?s)"
    using block_read_ok[OF ok(2) df(5), of 4096] by (simp add: VFS_SECTOR_SIZE_def)
  let ?v3 = "set_desc (nat fd) (\<lambda>d. d\<lparr>fd_cursor := cur\<rparr>) (?v1\<lparr>v_blk := b\<rparr>)"
  let ?v4 = "if in_size_bytes n < cur then vfs_sync_superblock (set_inode ?i (\<lambda>n. n\<lparr>in_size_bytes := cur\<rparr>) ?v3) else ?v3"
  have nb: "\<not> VFS_SECTOR_SIZE < cur" "\<not> unat VFS_SECTOR_SIZE < ?c + length data"
    using cur4 len by (auto simp: VFS_SECTOR_SIZE_def)
  have W: "vfs_write fd (Some data) True v = Some ((MK_STATUS_OK, Some (of_nat (length data))), ?v4)"
    using ok(1) assms(2-4) nb rd w
    unfolding vfs_write_def by (simp add: Let_def flip: d_def n_def cur_def buf_def)
  have secs: "sector ?v3 t = (if t = ?s then take ?c (sector v t) @ data @ replicate (4096 - (?c + length data)) 0xFF
      else sector v t)" if "t < 64" for t
  proof -
    have "take (unat cur) buf = take ?c (sector v ?s) @ data"
      using len by (simp add: buf_def put_bytes_def cur)
    then show ?thesis using sec that sector_erase[OF ok(2) df(5) that] by (auto simp: cur)
  qed
  have files: "v_files ?v3 = (v_files v)[nat fd := d\<lparr>fd_cursor := cur\<rparr>]" by (simp add: d_def)
  have dd: "descs_ok (sb_inodes (v_sb v)) (v_files ?v3)"
    unfolding files using ok(5) by (rule descs_ok_desc) (use df cur4 n_def in simp)
  show ?thesis
  proof (cases "in_size_bytes n < cur")
    case True
    let ?m = "n\<lparr>in_size_bytes := cur\<rparr>"
    let ?w = "set_inode ?i (\<lambda>n. n\<lparr>in_size_bytes := cur\<rparr>) ?v3"
    have m: "inode_ok ?i ?m" using df(7) cur4 by (simp add: inode_ok_def)
    have wn: "sb_inodes (v_sb ?w) = (sb_inodes (v_sb v))[?i := ?m]" by (simp add: n_def)
    have "files_used ((sb_inodes (v_sb v))[?i := ?m]) = files_used (sb_inodes (v_sb v))"
      using files_used_update[of ?i "sb_inodes (v_sb v)" ?m] ok(6) df(2) by (simp add: n_def)
    then have dir: "dir_ok (v_sb ?w)"
      using ok(3) dir_ok_update[of "sb_inodes (v_sb v)" ?i ?m] m wn by (simp add: dir_ok_def)
    have desc: "descs_ok (sb_inodes (v_sb ?w)) (v_files ?w)"
      unfolding wn using descs_ok_inode[OF dd ok(6), of ?i ?m] by (simp add: n_def)
    have "vfs_ok (vfs_sync_superblock ?w)"
      using ok(1) b dir desc by (intro vfs_ok_sync) simp_all
    moreover have "max (in_size_bytes n) cur = cur" using True by simp
    moreover have bw: "blk_ok (v_blk ?w)" using b by simp
    note sp = sync_spec[OF bw dir_ok_names[OF dir]]
    have "sector (vfs_sync_superblock ?w) t = sector ?v3 t" if "t \<noteq> 0" "t < 64" for t
      using sp(7)[OF that] by simp
    ultimately show ?thesis using W True sp(1,5) wn files secs by simp
  next
    case False
    have "sector ?v3 0 = sector v 0" using secs[of 0] df(6) by simp
    then have "vfs_ok ?v3" using ok b dd by (simp add: vfs_ok_def on_flash_def)
    moreover have "max (in_size_bytes n) cur = in_size_bytes n" using False by (simp add: max_def not_less)
    moreover have "(sb_inodes (v_sb v))[?i := n] = sb_inodes (v_sb v)" by (simp add: n_def)
    ultimately show ?thesis using W False files secs by simp
  qed
qed

lemma vfs_write_full:
  assumes "vfs_ok v" and "fd_valid fd" and "fd_is_open (v_files v ! nat fd)"
    and "fd_flags (v_files v ! nat fd) AND VFS_O_RDONLY = 0"
    and "4096 < unat (fd_cursor (v_files v ! nat fd)) + length data" and "length data + 4096 < 2 ^ 32"
  shows "vfs_write fd (Some data) True v = Some ((MK_STATUS_NO_MEMORY, None), v)"
proof -
  have "unat (fd_cursor (v_files v ! nat fd)) \<le> 4096"
    using open_desc_facts(4)[OF assms(1-3)] by (simp add: word_le_nat_alt)
  then have "unat (fd_cursor (v_files v ! nat fd) + of_nat (length data)) = unat (fd_cursor (v_files v ! nat fd)) + length data"
    using assms(6) by (simp add: unat_simps)
  then have "VFS_SECTOR_SIZE < fd_cursor (v_files v ! nat fd) + of_nat (length data)"
    using assms(5) by (simp add: word_less_nat_alt VFS_SECTOR_SIZE_def)
  then show ?thesis using vfs_okD(1)[OF assms(1)] assms(2-4) by (simp add: vfs_write_def Let_def)
qed

section \<open>Mounting\<close>

lemma blk_ok_block_init:
  assumes "crc_table_ok b"
  shows "\<exists>b'. vfs_block_init b = (MK_STATUS_OK, b') \<and> blk_ok b' \<and> (\<forall>i < 262144. vb_flash b' i = 0xFF)"
  using assms
  by (auto simp: vfs_block_init_def Let_def SIM_SECTOR_COUNT_def VFS_SECTOR_SIZE_def blk_ok_def flash_put_def
      crc_table_ok_def init_crc_table_def)

lemma inode_ok_zero: "inode_ok i inode_zero"
  by (simp add: inode_ok_def inode_zero_def VFS_MAX_FILENAME_LEN_def)

definition default_inodes :: "vfs_inode list" where
  "default_inodes =
     [inode_zero\<lparr>in_name := strncpy (in_name inode_zero) ''macro.txt'' 31, in_start_sector := 1,
        in_size_bytes := of_nat (length default_macro), in_in_use := 1\<rparr>,
      inode_zero\<lparr>in_name := strncpy (in_name inode_zero) ''wifi_audit.log'' 31, in_start_sector := 2, in_in_use := 1\<rparr>]
     @ replicate 14 inode_zero"

lemma vfs_ok_default_files:
  assumes "blk_ok (v_blk v)" and "v_sb v = superblock_zero\<lparr>sb_magic := VFS_BLOCK_MAGIC\<rparr>"
    and "v_files v = replicate 8 file_desc_zero"
  shows "vfs_ok (create_default_files v\<lparr>v_ready := True\<rparr>) \<and> v_files (create_default_files v) = replicate 8 file_desc_zero
    \<and> sb_inodes (v_sb (create_default_files v)) = default_inodes
    \<and> take (length default_macro) (sector (create_default_files v) 1) = bytes_of default_macro"
proof -
  let ?len = "of_nat (length default_macro) :: u32"
  let ?m = "inode_zero\<lparr>in_name := strncpy (in_name inode_zero) ''macro.txt'' 31, in_start_sector := 1,
          in_size_bytes := ?len, in_in_use := 1\<rparr>"
  let ?l = "inode_zero\<lparr>in_name := strncpy (in_name inode_zero) ''wifi_audit.log'' 31, in_start_sector := 2, in_in_use := 1\<rparr>"
  let ?sb = "(v_sb v)\<lparr>sb_inodes := [?m, ?l] @ replicate 14 inode_zero, sb_file_count := 2\<rparr>"
  have ll: "length default_macro = 41" by (simp add: default_macro_def)
  let ?e1 = "erase_sector 1 v"
  have b1: "blk_ok (v_blk ?e1)" using assms(1) by simp
  obtain b where w: "vfs_block_write 1 (Some (bytes_of default_macro)) ?len (v_blk ?e1) = (MK_STATUS_OK, b)"
    and b: "blk_ok b"
    and sec: "\<forall>t < 64. sector (?e1\<lparr>v_blk := b\<rparr>) t
      = (if 1 = t then bytes_of default_macro @ drop 41 (sector ?e1 t) else sector ?e1 t)"
    using block_write_ok[OF b1, of 1 ?len "bytes_of default_macro"] ll by auto
  let ?w = "(erase_sector 2 (?e1\<lparr>v_blk := b\<rparr>))\<lparr>v_sb := ?sb\<rparr>"
  have z: "sb_inodes (v_sb v) = replicate 16 inode_zero"
    using assms(2) by (simp add: superblock_zero_def VFS_MAX_FILES_def)
  have "create_default_files v = vfs_sync_superblock ?w"
    using w z unfolding create_default_files_def Let_def set_inode_def
    by (simp add: VFS_MAX_FILENAME_LEN_def erase_sector_def numeral_eq_Suc inode_zero_def)
  moreover have "inode_ok 0 ?m" "inode_ok 1 ?l"
    using inode_ok_zero[of 0] ll by (simp_all add: inode_ok_def length_strncpy strncpy_last start_ok_def)
  note slots = this
  have nodes: "inode_ok i (([?m, ?l] @ replicate 14 inode_zero) ! i)" if "i < 16" for i
  proof (cases i)
    case (Suc j)
    then show ?thesis using slots inode_ok_zero[of i] that by (cases j) simp_all
  qed (use slots in simp)
  have "in_in_use inode_zero = 0" by (simp add: inode_zero_def)
  then have dir: "dir_ok ?sb"
    using nodes by (simp add: dir_ok_def files_used_def filter_replicate)
  have sy: "blk_ok (v_blk ?w)" "names_ok (v_sb ?w)" using b dir_ok_names[OF dir] by simp_all
  note sp = sync_spec[OF sy]
  have "descs_ok (sb_inodes ?sb) (replicate 8 file_desc_zero)" by (simp add: descs_ok_def file_desc_zero_def)
  then have "vfs_ok (vfs_sync_superblock ?w\<lparr>v_ready := True\<rparr>)"
    using sp dir assms(3) by (simp add: vfs_ok_def dir_ok_def on_flash_def sector_def)
  moreover have "sector (vfs_sync_superblock ?w) 1 = bytes_of default_macro @ drop 41 (sector ?e1 1)"
    using sp(7)[of 1] sec sector_erase[of "?e1\<lparr>v_blk := b\<rparr>" 2 1] b by simp
  ultimately show ?thesis using sp(1,5) assms(3) ll by (simp add: default_inodes_def)
qed

lemma superblock_of_erased: "sb_magic (superblock_of_bytes (replicate 780 0xFF)) \<noteq> VFS_BLOCK_MAGIC"
  by (simp add: superblock_of_bytes_def field_def of_le32_def VFS_BLOCK_MAGIC_def push_bit_eq_mult)

lemma vfs_init_ok:
  assumes "crc_table_ok (v_blk v)"
  shows "\<exists>v'. vfs_init now (v, fm) = (MK_STATUS_OK, v', fm) \<and> vfs_ok v' \<and> v_files v' = replicate 8 file_desc_zero
    \<and> sb_inodes (v_sb v') = default_inodes
    \<and> take (length default_macro) (sector v' 1) = bytes_of default_macro"
proof -
  obtain b where b: "vfs_block_init (v_blk v) = (MK_STATUS_OK, b)" "blk_ok b" "\<forall>i < 262144. vb_flash b i = 0xFF"
    using blk_ok_block_init[OF assms] by blast
  let ?v = "v\<lparr>v_files := replicate 8 file_desc_zero, v_sb := superblock_zero, v_blk := b\<rparr>"
  have "take 780 (sector ?v 0) = replicate 780 0xFF"
    using b(3) by (intro nth_equalityI) (simp_all add: sector_def nth_flash_get sector_addr_def)
  then have rd: "vfs_block_read VFS_DIR_SECTOR True sizeof_superblock b = (MK_STATUS_OK, replicate 780 0xFF)"
    using block_read_ok[of ?v 0 780] b(2) by (simp add: VFS_DIR_SECTOR_def sizeof_superblock_def)
  have m: "vfs_mount ?v = create_default_files (?v\<lparr>v_sb := superblock_zero\<lparr>sb_magic := VFS_BLOCK_MAGIC\<rparr>\<rparr>)\<lparr>v_ready := True\<rparr>"
    using rd superblock_of_erased by (simp add: vfs_mount_def Let_def)
  have "vfs_init now (v, fm) = (MK_STATUS_OK, vfs_mount ?v, fm)"
    using b(1) by (simp add: vfs_init_def Let_def VFS_MAX_OPEN_FILES_def)
  then show ?thesis
    using vfs_ok_default_files[of "?v\<lparr>v_sb := superblock_zero\<lparr>sb_magic := VFS_BLOCK_MAGIC\<rparr>\<rparr>"] b(2) unfolding m by (simp add: sector_def)
qed

text \<open>A power cycle loses the RAM and keeps the flash.\<close>

definition power_cycle :: "vfs \<Rightarrow> vfs" where
  "power_cycle v = vfs_static\<lparr>v_blk := v_blk v\<rparr>"

lemma mount_restores:
  assumes "vfs_ok v"
  shows "vfs_mount (power_cycle v) = v\<lparr>v_files := replicate 8 file_desc_zero\<rparr>"
proof -
  note ok = vfs_okD[OF assms]
  have "vfs_block_read VFS_DIR_SECTOR True sizeof_superblock (v_blk v) = (MK_STATUS_OK, superblock_to_bytes (v_sb v))"
    using block_read_ok[OF ok(2), of 0 780] ok(4) by (simp add: VFS_DIR_SECTOR_def sizeof_superblock_def on_flash_def)
  then have "vfs_mount (power_cycle v) = (power_cycle v)\<lparr>v_sb := v_sb v, v_ready := True\<rparr>"
    using ok(4) superblock_of_to_bytes[OF ok(8)]
    by (simp add: vfs_mount_def power_cycle_def Let_def on_flash_def)
  then show ?thesis using ok(1) by (simp add: power_cycle_def vfs_static_def VFS_MAX_OPEN_FILES_def)
qed

section \<open>Clients of the file system\<close>

datatype vfs_call =
    Open "string option" u32 bool | Read int bool u32 bool | Write int "u8 list option" bool
  | Close int | Delete "string option"

definition vfs_call_step :: "vfs_call \<Rightarrow> vfs \<Rightarrow> vfs option" where
  "vfs_call_step c v =
     (case c of
        Open path flags out_ok \<Rightarrow> Some (snd (vfs_open path flags out_ok v))
      | Read fd buffer_ok sz out_ok \<Rightarrow> map_option snd (vfs_read fd buffer_ok sz out_ok v)
      | Write fd data out_ok \<Rightarrow> map_option snd (vfs_write fd data out_ok v)
      | Close fd \<Rightarrow> Some (snd (vfs_close fd v))
      | Delete path \<Rightarrow> Some (snd (vfs_delete path v)))"

fun vfs_session :: "vfs_call list \<Rightarrow> vfs \<Rightarrow> vfs option" where
  "vfs_session [] v = Some v"
| "vfs_session (c # cs) v = (case vfs_call_step c v of None \<Rightarrow> None | Some w \<Rightarrow> vfs_session cs w)"

text \<open>A buffer cannot span the last page of the address space.\<close>

fun call_ok :: "vfs_call \<Rightarrow> bool" where
  "call_ok (Read fd buffer_ok sz out_ok) = (unat sz + 4096 < 2 ^ 32)"
| "call_ok (Write fd (Some data) out_ok) = (length data + 4096 < 2 ^ 32)"
| "call_ok _ = True"

lemma vfs_read_step:
  assumes "vfs_ok v" and "unat sz + 4096 < 2 ^ 32"
  shows "\<exists>r w. vfs_read fd buffer_ok sz out_ok v = Some (r, w) \<and> vfs_ok w"
proof (cases "buffer_ok \<and> out_ok \<and> fd_valid fd \<and> fd_is_open (v_files v ! nat fd)")
  case True
  let ?d = "v_files v ! nat fd"
  let ?out = "take (unat sz) (drop (unat (fd_cursor ?d)) (file_bytes v (fd_inode_idx ?d)))"
  have o: "fd_valid fd" "fd_is_open ?d" using True by auto
  note df = open_desc_facts[OF assms(1) o]
  have "length ?out \<le> length (file_bytes v (fd_inode_idx ?d)) - unat (fd_cursor ?d)" by simp
  moreover have "length (file_bytes v (fd_inode_idx ?d)) \<le> 4096" by (simp add: file_bytes_def Let_def)
  moreover have "unat (fd_cursor ?d) \<le> 4096" using df(4) by (simp add: word_le_nat_alt)
  ultimately have "length ?out + unat (fd_cursor ?d) \<le> 4096" by linarith
  then have "fd_cursor ?d + of_nat (length ?out) \<le> 4096"
    by (simp add: word_le_nat_alt unat_simps)
  then have "vfs_ok (set_desc (nat fd) (\<lambda>d. d\<lparr>fd_cursor := fd_cursor d + of_nat (length ?out)\<rparr>) v)"
    using assms(1) df by (intro vfs_ok_set_desc) simp_all
  then show ?thesis using vfs_read_spec[OF assms(1) o assms(2)] True by simp
qed (use assms in \<open>auto simp: vfs_read_def Let_def\<close>)

lemma vfs_write_step:
  assumes "vfs_ok v" and "\<And>bs. data = Some bs \<Longrightarrow> length bs + 4096 < 2 ^ 32"
  shows "\<exists>r w. vfs_write fd data out_ok v = Some (r, w) \<and> vfs_ok w"
proof (cases "\<exists>bs. data = Some bs \<and> out_ok \<and> fd_valid fd \<and> fd_is_open (v_files v ! nat fd)
    \<and> fd_flags (v_files v ! nat fd) AND VFS_O_RDONLY = 0")
  case True
  then obtain bs where d: "data = Some bs" "out_ok" and o: "fd_valid fd" "fd_is_open (v_files v ! nat fd)"
    "fd_flags (v_files v ! nat fd) AND VFS_O_RDONLY = 0" by blast
  show ?thesis
  proof (cases "unat (fd_cursor (v_files v ! nat fd)) + length bs \<le> 4096")
    case True
    then show ?thesis using vfs_write_spec[OF assms(1) o] d by fastforce
  next
    case False
    then show ?thesis using vfs_write_full[OF assms(1) o _ assms(2)[OF d(1)]] d assms(1) by simp
  qed
next
  case False
  then show ?thesis using assms(1) by (cases data) (auto simp: vfs_write_def Let_def)
qed

lemma vfs_step_ok:
  assumes "vfs_ok v" and "call_ok c"
  shows "\<exists>w. vfs_call_step c v = Some w \<and> vfs_ok w"
proof (cases c)
  case (Read fd b sz o')
  then show ?thesis using vfs_read_step[OF assms(1), of sz fd b o'] assms(2) by (auto simp: vfs_call_step_def)
next
  case (Write fd data o')
  have "length bs + 4096 < 2 ^ 32" if "data = Some bs" for bs using that assms(2) Write by simp
  then show ?thesis using vfs_write_step[OF assms(1), of data fd o'] Write by (auto simp: vfs_call_step_def)
qed (use assms in \<open>auto simp: vfs_call_step_def intro: inv_intros\<close>)

lemma vfs_session_ok:
  "vfs_ok v \<Longrightarrow> list_all call_ok cs \<Longrightarrow> \<exists>w. vfs_session cs v = Some w \<and> vfs_ok w"
proof (induction cs arbitrary: v)
  case (Cons c cs)
  obtain w where "vfs_call_step c v = Some w" "vfs_ok w" using vfs_step_ok[OF Cons.prems(1)] Cons.prems(2) by auto
  then show ?case using Cons.IH[of w] Cons.prems(2) by simp
qed simp

text \<open>C15. Whatever calls follow \<open>vfs_init\<close>, none touches memory outside the sector buffer, and the
  directory is on flash after every call: after a power cycle, mounting restores every file and its
  contents, with all descriptors closed.\<close>

theorem vfs_sessions_persist:
  assumes "crc_table_ok (v_blk v)" and "vfs_init now (v, fm) = (MK_STATUS_OK, v1, fm')" and "list_all call_ok cs"
  shows "\<exists>w. vfs_session cs v1 = Some w \<and> vfs_ok w \<and> fm' = fm
    \<and> v_sb (vfs_mount (power_cycle w)) = v_sb w \<and> file_bytes (vfs_mount (power_cycle w)) = file_bytes w
    \<and> list_all (\<lambda>d. \<not> fd_is_open d) (v_files (vfs_mount (power_cycle w)))"
proof -
  have v1: "vfs_ok v1" "fm' = fm" using vfs_init_ok[OF assms(1), of now fm] assms(2) by auto
  then obtain w where w: "vfs_session cs v1 = Some w" "vfs_ok w" using vfs_session_ok[OF _ assms(3)] by blast
  have "list_all (\<lambda>d. \<not> fd_is_open d) (replicate 8 file_desc_zero)"
    by (simp add: list_all_iff file_desc_zero_def)
  moreover have "file_bytes (w\<lparr>v_files := fs\<rparr>) = file_bytes w" for fs
    by (simp add: fun_eq_iff file_bytes_def sector_def)
  ultimately show ?thesis using w v1(2) by (simp add: mount_restores)
qed

definition demo_calls :: "vfs_call list" where
  "demo_calls = [Open (Some ''notes'') (VFS_O_CREAT OR VFS_O_WRONLY) True, Write 0 (Some [1, 2, 3]) True, Close 0,
     Delete (Some ''macro.txt'')]"

theorem vfs_sessions_persist_witness:
  "\<exists>v1 w. vfs_init None (vfs_static, fault_manager_static) = (MK_STATUS_OK, v1, fault_manager_static)
     \<and> vfs_session demo_calls v1 = Some w \<and> v_sb (vfs_mount (power_cycle w)) = v_sb w"
proof -
  have c: "crc_table_ok (v_blk vfs_static)" by (simp add: crc_table_ok_def vfs_static_def vblock_static_def)
  then obtain v1 where i: "vfs_init None (vfs_static, fault_manager_static) = (MK_STATUS_OK, v1, fault_manager_static)"
    using vfs_init_ok by blast
  have "list_all call_ok demo_calls" by (simp add: demo_calls_def)
  then show ?thesis using vfs_sessions_persist[OF c i] i by blast
qed

end
