(* ===== verification/Vfs_Log.thy ===== *)
theory Vfs_Log
  imports Vfs_Files
begin

text \<open>
  \<^verbatim>\<open>os/vfs/vfs_log.c\<close>: the audit log, a client of the file system that opens, writes and closes a file
  for every entry. The specification of the file system it rests on is a finite map from names to
  contents of at most 16 files of at most 4096 bytes.
\<close>

section \<open>The code\<close>

definition vfs_log_init :: "string option \<Rightarrow> vfs \<Rightarrow> mk_status \<times> vfs" where
  "vfs_log_init log_filename v =
     (case vfs_open log_filename (VFS_O_CREAT OR VFS_O_WRONLY) True v of
        ((st, fd), v1) \<Rightarrow> if st = MK_STATUS_OK then (st, snd (vfs_close (the fd) v1)) else (st, v1))"

text \<open>\<open>None\<close> is an access outside the sector buffer, see \<open>vfs_write\<close>.\<close>

definition vfs_log_append :: "string option \<Rightarrow> string option \<Rightarrow> vfs \<Rightarrow> (mk_status \<times> vfs) option" where
  "vfs_log_append log_filename entry v =
     (case (log_filename, entry) of
        (Some f, Some e) \<Rightarrow>
          (case vfs_open (Some f) (VFS_O_CREAT OR VFS_O_WRONLY OR VFS_O_APPEND) True v of
             ((st, fd), v1) \<Rightarrow>
               if st \<noteq> MK_STATUS_OK then Some (st, v1)
               else (case vfs_write (the fd) (Some (bytes_of (cstr e))) True v1 of
                       None \<Rightarrow> None
                     | Some ((st2, _), v2) \<Rightarrow> Some (st2, snd (vfs_close (the fd) v2))))
      | _ \<Rightarrow> Some (MK_STATUS_INVALID_ARG, v))"

definition vfs_log_clear :: "string option \<Rightarrow> vfs \<Rightarrow> mk_status \<times> vfs" where
  "vfs_log_clear log_filename v =
     (case vfs_open log_filename (VFS_O_CREAT OR VFS_O_WRONLY OR VFS_O_TRUNC) True v of
        ((st, fd), v1) \<Rightarrow> if st = MK_STATUS_OK then (st, snd (vfs_close (the fd) v1)) else (st, v1))"

section \<open>The abstract file store\<close>

type_synonym store = "string \<rightharpoonup> u8 list"

definition spec_create :: "string \<Rightarrow> store \<Rightarrow> mk_status \<times> store" where
  "spec_create n m = (if n \<in> dom m then (MK_STATUS_OK, m)
     else if card (dom m) = VFS_MAX_FILES then (MK_STATUS_NO_MEMORY, m) else (MK_STATUS_OK, m(n \<mapsto> [])))"

definition spec_append :: "string \<Rightarrow> u8 list \<Rightarrow> store \<Rightarrow> mk_status \<times> store" where
  "spec_append n e m =
     (case spec_create n m of (st, m1) \<Rightarrow>
        if st \<noteq> MK_STATUS_OK then (st, m1)
        else let c = the (m1 n)
             in if 4096 < length c + length e then (MK_STATUS_NO_MEMORY, m1) else (MK_STATUS_OK, m1(n \<mapsto> c @ e)))"

definition spec_clear :: "string \<Rightarrow> store \<Rightarrow> mk_status \<times> store" where
  "spec_clear n m = (case spec_create n m of (st, m1) \<Rightarrow>
     if st = MK_STATUS_OK then (st, m1(n \<mapsto> [])) else (st, m1))"

definition spec_delete :: "string \<Rightarrow> store \<Rightarrow> mk_status \<times> store" where
  "spec_delete n m = (if n \<in> dom m then (MK_STATUS_OK, m(n := None)) else (MK_STATUS_NOT_FOUND, m))"

section \<open>The abstraction\<close>

text \<open>Inode \<open>i\<close> holds the file \<open>n\<close>.\<close>

definition entry :: "vfs_inode list \<Rightarrow> string \<Rightarrow> nat \<Rightarrow> bool" where
  "entry ns n i \<longleftrightarrow> i < 16 \<and> in_in_use (ns ! i) \<noteq> 0 \<and> cstr (in_name (ns ! i)) = n"

definition unique_names :: "vfs_inode list \<Rightarrow> bool" where
  "unique_names ns \<longleftrightarrow> (\<forall>n i j. entry ns n i \<longrightarrow> entry ns n j \<longrightarrow> i = j)"

definition vfs_store :: "vfs \<Rightarrow> store" where
  "vfs_store v n = (if NUL \<in> set n then None
     else map_option (file_bytes v) (find_inode n (sb_inodes (v_sb v))))"

text \<open>Names that fit an inode; longer ones are cut when a file is created and never found again.\<close>

definition path_ok :: "string \<Rightarrow> bool" where
  "path_ok p \<longleftrightarrow> length (strip_slash p) < 32 \<and> NUL \<notin> set (strip_slash p)"

definition store_ok :: "vfs \<Rightarrow> bool" where
  "store_ok v \<longleftrightarrow> vfs_ok v \<and> unique_names (sb_inodes (v_sb v)) \<and> free_desc (v_files v) \<noteq> None"

lemma option_eqI: "(\<And>c. x = Some c \<longleftrightarrow> y = Some c) \<Longrightarrow> x = y"
  by (cases x; cases y) auto

lemma takeWhile_shorter: "x \<in> set xs \<Longrightarrow> \<not> P x \<Longrightarrow> length (takeWhile P xs) < length xs"
  by (induction xs) auto

lemma cstr_name_short: "inode_ok i n \<Longrightarrow> length (cstr (in_name n)) < 32"
proof -
  assume "inode_ok i n"
  then have n: "length (in_name n) = 32" "in_name n ! 31 = NUL" by (simp_all add: inode_ok_def)
  have "NUL \<in> set (in_name n)" using n nth_mem[of 31 "in_name n"] by simp
  then have "length (takeWhile (\<lambda>c. c \<noteq> NUL) (in_name n)) < length (in_name n)"
    by (intro takeWhile_shorter) simp_all
  then show ?thesis using n(1) by (simp add: cstr_def)
qed

lemma strncmp_name:
  assumes "inode_ok i n" and "NUL \<notin> set f"
  shows "strncmp_eq (in_name n) f 32 \<longleftrightarrow> cstr (in_name n) = f"
proof
  assume "strncmp_eq (in_name n) f 32"
  then have e: "cstr (in_name n) = take 32 f"
    using cstr_name_short[OF assms(1)] assms(2) by (simp add: strncmp_eq_def cstr_id)
  moreover have "length (take 32 f) < 32" using cstr_name_short[OF assms(1)] e by simp
  ultimately show "cstr (in_name n) = f" by simp
qed (use assms in \<open>auto simp: strncmp_eq_def cstr_id\<close>)

lemma find_upt_None: "find P [0..<n] = None \<longleftrightarrow> (\<forall>i < n. \<not> P i)"
  by (auto simp: find_None_iff)

lemma find_inode_entry:
  assumes "vfs_ok v" and "NUL \<notin> set f"
  shows "find_inode f (sb_inodes (v_sb v)) = None \<longleftrightarrow> (\<forall>i. \<not> entry (sb_inodes (v_sb v)) f i)"
    and "find_inode f (sb_inodes (v_sb v)) = Some i \<Longrightarrow> entry (sb_inodes (v_sb v)) f i"
proof -
  have n: "inode_ok i (sb_inodes (v_sb v) ! i)" if "i < 16" for i
    using vfs_okD(3)[OF assms(1)] that by (simp add: dir_ok_def)
  show "find_inode f (sb_inodes (v_sb v)) = None \<longleftrightarrow> (\<forall>i. \<not> entry (sb_inodes (v_sb v)) f i)"
    using strncmp_name[OF n assms(2)]
    by (auto simp: find_inode_def find_upt_None VFS_MAX_FILES_def VFS_MAX_FILENAME_LEN_def entry_def)
  show "find_inode f (sb_inodes (v_sb v)) = Some i \<Longrightarrow> entry (sb_inodes (v_sb v)) f i"
    using find_inodeD[of f "sb_inodes (v_sb v)" i] strncmp_name[OF n assms(2), of i] by (auto simp: entry_def)
qed

lemma find_inode_unique:
  assumes "vfs_ok v" and "unique_names (sb_inodes (v_sb v))" and "entry (sb_inodes (v_sb v)) f i"
  shows "find_inode f (sb_inodes (v_sb v)) = Some i"
proof -
  have "NUL \<notin> set f" using assms(3) cstr_no_NUL by (auto simp: entry_def)
  note fi = find_inode_entry[OF assms(1) this]
  show ?thesis
  proof (cases "find_inode f (sb_inodes (v_sb v))")
    case None
    then show ?thesis using fi(1) assms(3) by blast
  next
    case (Some j)
    then show ?thesis using fi(2) assms(2,3) unfolding unique_names_def by blast
  qed
qed

lemma store_entry:
  assumes "vfs_ok v" and "unique_names (sb_inodes (v_sb v))"
  shows "vfs_store v n = Some c \<longleftrightarrow> (\<exists>i. entry (sb_inodes (v_sb v)) n i \<and> c = file_bytes v i)"
proof
  assume "vfs_store v n = Some c"
  then obtain i where "NUL \<notin> set n" "find_inode n (sb_inodes (v_sb v)) = Some i" "c = file_bytes v i"
    by (auto simp: vfs_store_def split: if_splits)
  then show "\<exists>i. entry (sb_inodes (v_sb v)) n i \<and> c = file_bytes v i"
    using find_inode_entry(2)[OF assms(1)] by blast
next
  assume "\<exists>i. entry (sb_inodes (v_sb v)) n i \<and> c = file_bytes v i"
  then obtain i where i: "entry (sb_inodes (v_sb v)) n i" "c = file_bytes v i" by blast
  moreover have "NUL \<notin> set n" using i(1) cstr_no_NUL by (auto simp: entry_def)
  ultimately show "vfs_store v n = Some c"
    using find_inode_unique[OF assms] by (simp add: vfs_store_def)
qed

lemma store_None:
  assumes "vfs_ok v" and "unique_names (sb_inodes (v_sb v))"
  shows "vfs_store v n = None \<longleftrightarrow> (\<forall>i. \<not> entry (sb_inodes (v_sb v)) n i)"
  using store_entry[OF assms, of n] by (metis option.exhaust option.distinct(1))

definition used_set :: "vfs_inode list \<Rightarrow> nat set" where
  "used_set ns = {i. i < 16 \<and> in_in_use (ns ! i) \<noteq> 0}"

lemma entry_used: "(\<exists>i. entry ns n i) \<longleftrightarrow> n \<in> (\<lambda>i. cstr (in_name (ns ! i))) ` used_set ns"
  unfolding entry_def used_set_def by auto

lemma dom_store:
  assumes "vfs_ok v" and "unique_names (sb_inodes (v_sb v))"
  shows "dom (vfs_store v) = (\<lambda>i. cstr (in_name (sb_inodes (v_sb v) ! i))) ` used_set (sb_inodes (v_sb v))"
proof (rule set_eqI)
  fix n
  have "n \<in> dom (vfs_store v) \<longleftrightarrow> (\<exists>i. entry (sb_inodes (v_sb v)) n i)"
    using store_None[OF assms, of n] by (simp only: domIff) blast
  then show "n \<in> dom (vfs_store v) \<longleftrightarrow> n \<in> (\<lambda>i. cstr (in_name (sb_inodes (v_sb v) ! i))) ` used_set (sb_inodes (v_sb v))"
    by (simp only: entry_used)
qed

lemma card_store:
  assumes "vfs_ok v" and "unique_names (sb_inodes (v_sb v))"
  shows "free_inode (sb_inodes (v_sb v)) = None \<longleftrightarrow> card (dom (vfs_store v)) = VFS_MAX_FILES"
proof -
  let ?ns = "sb_inodes (v_sb v)"
  have "inj_on (\<lambda>i. cstr (in_name (?ns ! i))) (used_set ?ns)"
    using assms(2) unfolding inj_on_def unique_names_def entry_def used_set_def by blast
  then have c: "card (dom (vfs_store v)) = card (used_set ?ns)" by (simp add: dom_store[OF assms] card_image)
  have sub: "used_set ?ns \<subseteq> {..<16}" by (auto simp: used_set_def)
  have "free_inode ?ns = None \<longleftrightarrow> used_set ?ns = {..<16}"
    by (auto simp: free_inode_def find_upt_None VFS_MAX_FILES_def used_set_def)
  also have "\<dots> \<longleftrightarrow> card (used_set ?ns) = 16"
    using card_subset_eq[of "{..<16::nat}" "used_set ?ns"] sub by (metis card_lessThan finite_lessThan)
  finally show ?thesis by (simp add: c VFS_MAX_FILES_def)
qed

text \<open>Storing one file: the other files keep name, sector and contents.\<close>

lemma entry_update:
  "length ns = 16 \<Longrightarrow> entry (ns[i := m]) n j \<longleftrightarrow>
     (if j = i \<and> i < 16 then in_in_use m \<noteq> 0 \<and> cstr (in_name m) = n else entry ns n j)"
  by (auto simp: entry_def nth_update_if)

lemma file_bytes_other:
  assumes "vfs_ok v" and "sb_inodes (v_sb w) = (sb_inodes (v_sb v))[i := m]" and "i < 16" and "start_ok i s"
    and "\<And>t. t \<noteq> 0 \<Longrightarrow> t < 64 \<Longrightarrow> t \<noteq> s \<Longrightarrow> sector w t = sector v t"
    and "entry (sb_inodes (v_sb v)) n j" and "j \<noteq> i"
  shows "file_bytes w j = file_bytes v j"
proof -
  have j: "j < 16" "in_in_use (sb_inodes (v_sb v) ! j) \<noteq> 0" using assms(6) by (auto simp: entry_def)
  then have st: "start_ok j (in_start_sector (sb_inodes (v_sb v) ! j))"
    using vfs_okD(3)[OF assms(1)] by (simp add: dir_ok_def inode_ok_def)
  have "in_start_sector (sb_inodes (v_sb v) ! j) \<noteq> s" using start_ok_distinct[OF st] assms(3,4,7) j(1) by blast
  then show ?thesis
    using assms(2,5,7) start_ok_bounds[OF st j(1)] by (simp add: file_bytes_def Let_def)
qed

lemma store_put:
  assumes "vfs_ok v" and "unique_names (sb_inodes (v_sb v))" and "vfs_ok w"
    and w: "sb_inodes (v_sb w) = (sb_inodes (v_sb v))[i := m]" and "i < 16"
    and m: "in_in_use m \<noteq> 0" "cstr (in_name m) = n"
    and old: "in_in_use (sb_inodes (v_sb v) ! i) = 0 \<and> vfs_store v n = None \<or> entry (sb_inodes (v_sb v)) n i"
    and sec: "\<And>t. t \<noteq> 0 \<Longrightarrow> t < 64 \<Longrightarrow> t \<noteq> in_start_sector m \<Longrightarrow> sector w t = sector v t"
  shows "unique_names (sb_inodes (v_sb w)) \<and> vfs_store w = (vfs_store v)(n \<mapsto> file_bytes w i)"
proof
  let ?ns = "sb_inodes (v_sb v)"
  note ok = vfs_okD[OF assms(1)]
  have en: "entry (sb_inodes (v_sb w)) a j \<longleftrightarrow> (if j = i then a = n else entry ?ns a j)" for a j
    using entry_update[OF ok(6), of i m a j] assms(5) m unfolding w by auto
  have only: "j = i" if "entry ?ns n j" for j
    using old that assms(2) store_None[OF assms(1,2)] unfolding unique_names_def by blast
  show u: "unique_names (sb_inodes (v_sb w))"
    unfolding unique_names_def en using assms(2) only by (auto simp: unique_names_def split: if_splits)
  have "inode_ok i (sb_inodes (v_sb w) ! i)" using vfs_okD(3)[OF assms(3)] assms(5) by (simp add: dir_ok_def)
  then have st: "start_ok i (in_start_sector m)" using m(1) assms(5) ok(6) by (simp add: inode_ok_def w)
  have same: "file_bytes w j = file_bytes v j" if "entry ?ns a j" "j \<noteq> i" for a j
    using file_bytes_other[OF assms(1) w assms(5) st sec that] by blast
  show "vfs_store w = (vfs_store v)(n \<mapsto> file_bytes w i)"
  proof
    fix a
    show "vfs_store w a = ((vfs_store v)(n \<mapsto> file_bytes w i)) a"
    proof (cases "a = n")
      case True
      then show ?thesis using store_entry[OF assms(3) u, of n "file_bytes w i"] en by auto
    next
      case False
      have ne: "j \<noteq> i" if "entry ?ns a j" for j
        using that old False by (auto simp: entry_def)
      have "entry (sb_inodes (v_sb w)) a j \<and> c = file_bytes w j \<longleftrightarrow> entry ?ns a j \<and> c = file_bytes v j" for c j
        using en[of a j] ne[of j] same[of a j] False by auto
      then have "vfs_store w a = vfs_store v a"
        by (intro option_eqI) (simp only: store_entry[OF assms(3) u] store_entry[OF assms(1,2)])
      then show ?thesis using False by simp
    qed
  qed
qed

lemma store_remove:
  assumes "vfs_ok v" and "unique_names (sb_inodes (v_sb v))" and "vfs_ok w"
    and w: "sb_inodes (v_sb w) = (sb_inodes (v_sb v))[i := m]"
    and m: "in_in_use m = 0" and e: "entry (sb_inodes (v_sb v)) n i"
    and sec: "\<And>t. t \<noteq> 0 \<Longrightarrow> t < 64 \<Longrightarrow> t \<noteq> in_start_sector (sb_inodes (v_sb v) ! i) \<Longrightarrow> sector w t = sector v t"
  shows "unique_names (sb_inodes (v_sb w)) \<and> vfs_store w = (vfs_store v)(n := None)"
proof
  let ?ns = "sb_inodes (v_sb v)"
  note ok = vfs_okD[OF assms(1)]
  have i: "i < 16" using e by (simp add: entry_def)
  have en: "entry (sb_inodes (v_sb w)) a j \<longleftrightarrow> j \<noteq> i \<and> entry ?ns a j" for a j
    using entry_update[OF ok(6), of i m a j] i m unfolding w by auto
  show u: "unique_names (sb_inodes (v_sb w))"
    using assms(2) unfolding unique_names_def en by blast
  have st: "start_ok i (in_start_sector (?ns ! i))"
    using ok(3) e by (simp add: dir_ok_def inode_ok_def entry_def)
  have same: "file_bytes w j = file_bytes v j" if "entry ?ns a j" "j \<noteq> i" for a j
    using file_bytes_other[OF assms(1) w i st sec that] by blast
  show "vfs_store w = (vfs_store v)(n := None)"
  proof
    fix a
    have ne: "j \<noteq> i \<longleftrightarrow> a \<noteq> n" if "entry ?ns a j" for j
      using that e assms(2) by (auto simp: entry_def unique_names_def)
    have "entry (sb_inodes (v_sb w)) a j \<and> c = file_bytes w j \<longleftrightarrow> a \<noteq> n \<and> entry ?ns a j \<and> c = file_bytes v j" for c j
      using en[of a j] ne[of j] same[of a j] by auto
    then have "vfs_store w a = Some c \<longleftrightarrow> a \<noteq> n \<and> vfs_store v a = Some c" for c
      by (simp only: store_entry[OF assms(3) u] store_entry[OF assms(1,2)]) blast
    then show "vfs_store w a = ((vfs_store v)(n := None)) a"
      by (intro option_eqI) simp
  qed
qed

section \<open>The operations implement the store\<close>

lemma file_bytes_set_desc [simp]: "file_bytes (set_desc fd f v) = file_bytes v"
  by (simp add: fun_eq_iff file_bytes_def Let_def)

lemma store_set_desc [simp]: "vfs_store (set_desc fd f v) = vfs_store v"
  by (simp add: fun_eq_iff vfs_store_def)

lemma free_desc_closed: "fd < 8 \<Longrightarrow> \<not> fd_is_open (fs ! fd) \<Longrightarrow> free_desc fs \<noteq> None"
  unfolding free_desc_def by (auto simp: find_upt_None VFS_MAX_OPEN_FILES_def simp del: find_None_iff)

lemma close_spec:
  assumes "vfs_ok w" and "unique_names (sb_inodes (v_sb w))" and "fd < 8" and "fd_is_open (v_files w ! fd)"
  shows "\<exists>w'. vfs_close (int fd) w = (MK_STATUS_OK, w') \<and> store_ok w' \<and> vfs_store w' = vfs_store w"
proof -
  let ?w = "set_desc fd (\<lambda>d. d\<lparr>fd_is_open := False\<rparr>) w"
  have "vfs_close (int fd) w = (MK_STATUS_OK, ?w)"
    using assms(3,4) by (simp add: vfs_close_def fd_valid_def VFS_MAX_OPEN_FILES_def)
  moreover have "vfs_ok ?w" using assms(1) by (intro vfs_ok_set_desc) simp_all
  moreover have "free_desc (v_files ?w) \<noteq> None"
    using assms(3) vfs_okD(7)[OF assms(1)] by (intro free_desc_closed[of fd]) simp_all
  ultimately show ?thesis using assms(2) by (simp add: store_ok_def)
qed

text \<open>What opening for creation leaves: a descriptor \<open>fd\<close> on the inode \<open>i\<close> of the file\<close>

definition opened :: "string \<Rightarrow> u32 \<Rightarrow> store \<Rightarrow> nat \<Rightarrow> nat \<Rightarrow> vfs \<Rightarrow> bool" where
  "opened n flags m fd i w \<longleftrightarrow> vfs_ok w \<and> unique_names (sb_inodes (v_sb w)) \<and> fd < 8 \<and> fd_is_open (v_files w ! fd)
     \<and> fd_flags (v_files w ! fd) = flags \<and> fd_inode_idx (v_files w ! fd) = i \<and> entry (sb_inodes (v_sb w)) n i
     \<and> vfs_store w = m \<and> m n = Some (file_bytes w i)
     \<and> (flags AND VFS_O_APPEND \<noteq> 0 \<longrightarrow> fd_cursor (v_files w ! fd) = in_size_bytes (sb_inodes (v_sb w) ! i))"

lemma file_bytes_length: "vfs_ok v \<Longrightarrow> i < 16 \<Longrightarrow> length (file_bytes v i) = unat (in_size_bytes (sb_inodes (v_sb v) ! i))"
  using vfs_okD(3)[of v] by (auto simp: dir_ok_def inode_ok_def file_bytes_def Let_def word_le_nat_alt)

lemma open_desc_opened:
  assumes "vfs_ok v" and "unique_names (sb_inodes (v_sb v))" and "fd < 8" and e: "entry (sb_inodes (v_sb v)) n i"
    and "flags AND VFS_O_TRUNC = 0 \<or> flags AND VFS_O_APPEND = 0"
  shows "opened n flags (if flags AND VFS_O_TRUNC \<noteq> 0 then (vfs_store v)(n \<mapsto> []) else vfs_store v) fd i (open_desc fd i flags v)"
proof -
  have i: "i < 16" "in_in_use (sb_inodes (v_sb v) ! i) \<noteq> 0" using e by (auto simp: entry_def)
  note ok = vfs_okD[OF assms(1)]
  let ?w = "open_desc fd i flags v"
  have w: "vfs_ok ?w" using vfs_ok_open_desc[OF assms(1,3) i] .
  have st: "start_ok i (in_start_sector (sb_inodes (v_sb v) ! i))" "in_size_bytes (sb_inodes (v_sb v) ! i) \<le> 4096"
    using ok(3) i by (simp_all add: dir_ok_def inode_ok_def)
  have some: "vfs_store v n = Some (file_bytes v i)" using store_entry[OF assms(1,2)] e by blast
  show ?thesis
  proof (cases "flags AND VFS_O_TRUNC = 0")
    case True
    have fb: "file_bytes ?w i = file_bytes v i" using True by (simp add: open_desc_def file_bytes_def Let_def)
    show ?thesis
      using True assms w some e fb unfolding opened_def by (simp add: open_desc_def Let_def ok(7))
  next
    case False
    let ?d = "\<lambda>d. (d::vfs_file_desc)\<lparr>fd_inode_idx := i, fd_flags := flags,
                 fd_cursor := (if flags AND VFS_O_APPEND \<noteq> 0 then in_size_bytes (sb_inodes (v_sb v) ! i) else 0),
                 fd_is_open := True\<rparr>"
    let ?v1 = "set_desc fd (\<lambda>d. d\<lparr>fd_cursor := 0\<rparr>) (set_desc fd ?d v)"
    have wt: "?w = truncate_inode i ?v1" using False by (simp add: open_desc_def Let_def)
    have v1: "vfs_ok ?v1" using assms(1) i st ok(7) assms(3) by (intro vfs_ok_set_desc) (simp_all add: dir_ok_def)
    note ts = truncate_spec[of ?v1 i, OF v1 i(1), folded wt]
    have ts1: "sb_inodes (v_sb ?w) = (sb_inodes (v_sb v))[i := (sb_inodes (v_sb v) ! i)\<lparr>in_size_bytes := 0\<rparr>]"
      using ts(1) st by simp
    have "unique_names (sb_inodes (v_sb ?w)) \<and> vfs_store ?w = (vfs_store v)(n \<mapsto> file_bytes ?w i)"
      by (rule store_put[OF assms(1,2) w ts1 i(1)]) (use i e ts(3) st in \<open>simp_all add: entry_def\<close>)
    moreover have "file_bytes ?w i = []" using ts1 i(1) ok(6) by (simp add: file_bytes_def Let_def)
    moreover have "entry (sb_inodes (v_sb ?w)) n i" using ts1 i e ok(6) by (simp add: entry_def)
    moreover have "v_files ?w ! fd = (?d (v_files v ! fd))\<lparr>fd_cursor := 0\<rparr>"
      using ts(2) st assms(3) ok(7) by simp
    ultimately show ?thesis using w False assms(3,5) by (simp add: opened_def)
  qed
qed

lemma created_entry:
  fixes flags :: u32
  assumes "store_ok v" and "i < 16" and "in_in_use (sb_inodes (v_sb v) ! i) = 0" and "length n < 32" and "NUL \<notin> set n"
    and "vfs_store v n = None"
  defines "w \<equiv> create_inode i n flags v"
  shows "vfs_ok w \<and> unique_names (sb_inodes (v_sb w)) \<and> vfs_store w = (vfs_store v)(n \<mapsto> [])
    \<and> entry (sb_inodes (v_sb w)) n i \<and> v_files w = v_files v"
proof -
  have v: "vfs_ok v" "unique_names (sb_inodes (v_sb v))" using assms(1) by (simp_all add: store_ok_def)
  note ok = vfs_okD[OF v(1)] and cs = create_spec[where fname = n and flags = flags, OF v(1) assms(2), folded w_def]
  have w: "vfs_ok w" unfolding w_def using vfs_ok_create[OF v(1) assms(2,3)] .
  let ?m = "created n flags i (sb_inodes (v_sb v) ! i)"
  have "in_name (sb_inodes (v_sb v) ! i) ! 31 = NUL" "length (in_name (sb_inodes (v_sb v) ! i)) = 32"
    using ok(3) assms(2) by (simp_all add: dir_ok_def inode_ok_def)
  then have nm: "cstr (in_name ?m) = n" using assms(4,5) by (simp add: cstr_strncpy cstr_id)
  have "unique_names (sb_inodes (v_sb w)) \<and> vfs_store w = (vfs_store v)(n \<mapsto> file_bytes w i)"
    by (rule store_put[OF v w cs(1) assms(2) _ nm]) (use assms(3,6) cs(3) in simp_all)
  moreover have "file_bytes w i = []" using cs(1) assms(2) ok(6) by (simp add: file_bytes_def Let_def)
  moreover have "entry (sb_inodes (v_sb w)) n i" using cs(1) assms(2) ok(6) nm by (simp add: entry_def)
  ultimately show ?thesis using w cs(2) by simp
qed

text \<open>Opening with \<open>VFS_O_CREAT\<close>\<close>

lemma open_creat_spec:
  assumes "store_ok v" and "path_ok p" and "flags AND VFS_O_CREAT \<noteq> 0" and "flags AND VFS_O_TRUNC = 0 \<or> flags AND VFS_O_APPEND = 0"
    and "spec_create (strip_slash p) (vfs_store v) = (st, m)"
  defines "n \<equiv> strip_slash p"
  shows "if st = MK_STATUS_OK
    then \<exists>fd i w. vfs_open (Some p) flags True v = ((MK_STATUS_OK, Some (int fd)), w)
           \<and> opened n flags (if flags AND VFS_O_TRUNC \<noteq> 0 then m(n \<mapsto> []) else m) fd i w
    else st = MK_STATUS_NO_MEMORY \<and> m = vfs_store v \<and> vfs_open (Some p) flags True v = ((st, None), v)"
proof -
  have v: "vfs_ok v" "unique_names (sb_inodes (v_sb v))" and fr: "free_desc (v_files v) \<noteq> None"
    using assms(1) by (simp_all add: store_ok_def)
  have n: "length n < 32" "NUL \<notin> set n" using assms(2) by (simp_all add: path_ok_def n_def)
  obtain fd where fd: "free_desc (v_files v) = Some fd" using fr by blast
  then have fd8: "fd < 8" using free_descD by blast
  note sp = assms(5)[folded n_def]
  show ?thesis
  proof (cases "find_inode n (sb_inodes (v_sb v))")
    case (Some i)
    have e: "entry (sb_inodes (v_sb v)) n i" using find_inode_entry(2)[OF v(1) n(2) Some] .
    then have "vfs_store v n \<noteq> None" using store_None[OF v] by blast
    then have "st = MK_STATUS_OK" "m = vfs_store v" using sp by (auto simp: spec_create_def domIff)
    moreover have "vfs_open (Some p) flags True v = ((MK_STATUS_OK, Some (int fd)), open_desc fd i flags v)"
      using Some fd vfs_okD(1)[OF v(1)] by (simp add: vfs_open_def Let_def n_def)
    ultimately show ?thesis using open_desc_opened[OF v fd8 e assms(4)] by auto
  next
    case None
    then have no: "vfs_store v n = None" by (simp add: vfs_store_def)
    show ?thesis
    proof (cases "free_inode (sb_inodes (v_sb v))")
      case None
      then have "card (dom (vfs_store v)) = VFS_MAX_FILES" using card_store[OF v] by simp
      then have "st = MK_STATUS_NO_MEMORY" "m = vfs_store v"
        using sp no by (auto simp: spec_create_def domIff split: if_splits)
      then show ?thesis using None \<open>find_inode n _ = None\<close> assms(3) vfs_okD(1)[OF v(1)]
        by (simp add: vfs_open_def Let_def n_def)
    next
      case (Some i)
      then have "card (dom (vfs_store v)) \<noteq> VFS_MAX_FILES" using card_store[OF v] by simp
      then have st: "st = MK_STATUS_OK" "m = (vfs_store v)(n \<mapsto> [])"
        using sp no by (auto simp: spec_create_def domIff)
      let ?c = "create_inode i n flags v"
      note fi = free_inodeD[OF Some]
      have c: "vfs_ok ?c" "unique_names (sb_inodes (v_sb ?c))" "vfs_store ?c = m" "entry (sb_inodes (v_sb ?c)) n i" "v_files ?c = v_files v"
        using created_entry[OF assms(1) _ _ n no, of i flags] fi st by auto
      have "vfs_open (Some p) flags True v = ((MK_STATUS_OK, Some (int fd)), open_desc fd i flags ?c)"
        using Some \<open>find_inode n _ = None\<close> fd assms(3) vfs_okD(1)[OF v(1)] c(5)
        by (simp add: vfs_open_def Let_def n_def)
      then show ?thesis using open_desc_opened[OF c(1,2) fd8 c(4) assms(4)] st(1) c(3) by auto
    qed
  qed
qed

lemma spec_create_cases:
  "spec_create n m = (MK_STATUS_OK, if n \<in> dom m then m else m(n \<mapsto> [])) \<or> spec_create n m = (MK_STATUS_NO_MEMORY, m)"
  by (simp add: spec_create_def)

lemmas open_flags = VFS_O_CREAT_def VFS_O_WRONLY_def VFS_O_APPEND_def VFS_O_TRUNC_def VFS_O_RDONLY_def

lemma log_init_spec:
  assumes "store_ok v" and "path_ok p" and "spec_create (strip_slash p) (vfs_store v) = (st, m)"
  shows "\<exists>w. vfs_log_init (Some p) v = (st, w) \<and> store_ok w \<and> vfs_store w = m"
proof -
  let ?fl = "VFS_O_CREAT OR VFS_O_WRONLY"
  have f: "?fl AND VFS_O_CREAT \<noteq> 0" "?fl AND VFS_O_TRUNC = 0" by (simp_all add: open_flags)
  note os = open_creat_spec[OF assms(1,2) f(1) disjI1[OF f(2)] assms(3)]
  show ?thesis
  proof (cases "st = MK_STATUS_OK")
    case True
    then obtain fd i w where o: "vfs_open (Some p) ?fl True v = ((MK_STATUS_OK, Some (int fd)), w)"
      and w: "opened (strip_slash p) ?fl m fd i w" using os f(2) by auto
    obtain w' where "vfs_close (int fd) w = (MK_STATUS_OK, w')" "store_ok w'" "vfs_store w' = vfs_store w"
      using close_spec[of w fd] w by (auto simp: opened_def)
    then show ?thesis using o w True by (auto simp: vfs_log_init_def opened_def)
  next
    case False
    then show ?thesis using os assms(1) by (simp add: vfs_log_init_def)
  qed
qed

lemma log_clear_spec:
  assumes "store_ok v" and "path_ok p" and "spec_clear (strip_slash p) (vfs_store v) = (st, m)"
  shows "\<exists>w. vfs_log_clear (Some p) v = (st, w) \<and> store_ok w \<and> vfs_store w = m"
proof -
  let ?fl = "VFS_O_CREAT OR VFS_O_WRONLY OR VFS_O_TRUNC"
  have f: "?fl AND VFS_O_CREAT \<noteq> 0" "?fl AND VFS_O_TRUNC \<noteq> 0" "?fl AND VFS_O_APPEND = 0" by (simp_all add: open_flags)
  obtain m1 where m1: "spec_create (strip_slash p) (vfs_store v) = (st, m1)"
    and m: "m = (if st = MK_STATUS_OK then m1(strip_slash p \<mapsto> []) else m1)"
    using assms(3) by (auto simp: spec_clear_def split: prod.splits if_splits)
  note os = open_creat_spec[OF assms(1,2) f(1) disjI2[OF f(3)] m1]
  show ?thesis
  proof (cases "st = MK_STATUS_OK")
    case True
    then obtain fd i w where o: "vfs_open (Some p) ?fl True v = ((MK_STATUS_OK, Some (int fd)), w)"
      and w: "opened (strip_slash p) ?fl m fd i w" using os f(2) m by auto
    obtain w' where "vfs_close (int fd) w = (MK_STATUS_OK, w')" "store_ok w'" "vfs_store w' = vfs_store w"
      using close_spec[of w fd] w by (auto simp: opened_def)
    then show ?thesis using o w True by (auto simp: vfs_log_clear_def opened_def)
  next
    case False
    then show ?thesis using os assms(1) m by (simp add: vfs_log_clear_def)
  qed
qed

lemma delete_store_spec:
  assumes "store_ok v" and "path_ok p" and "spec_delete (strip_slash p) (vfs_store v) = (st, m)"
  shows "\<exists>w. vfs_delete (Some p) v = (st, w) \<and> store_ok w \<and> vfs_store w = m"
proof -
  let ?n = "strip_slash p"
  have v: "vfs_ok v" "unique_names (sb_inodes (v_sb v))" and fr: "free_desc (v_files v) \<noteq> None"
    using assms(1) by (simp_all add: store_ok_def)
  have n: "NUL \<notin> set ?n" using assms(2) by (simp add: path_ok_def)
  show ?thesis
  proof (cases "find_inode ?n (sb_inodes (v_sb v))")
    case None
    then have "vfs_store v ?n = None" by (simp add: vfs_store_def)
    then have "st = MK_STATUS_NOT_FOUND" "m = vfs_store v" using assms(3) by (auto simp: spec_delete_def domIff)
    then show ?thesis using None vfs_okD(1)[OF v(1)] assms(1) by (simp add: vfs_delete_def)
  next
    case (Some i)
    have e: "entry (sb_inodes (v_sb v)) ?n i" using find_inode_entry(2)[OF v(1) n Some] .
    then have "vfs_store v ?n \<noteq> None" using store_None[OF v] by blast
    then have m: "st = MK_STATUS_OK" "m = (vfs_store v)(?n := None)" using assms(3) by (auto simp: spec_delete_def domIff)
    obtain w where w: "vfs_delete (Some p) v = (MK_STATUS_OK, w)"
      "sb_inodes (v_sb w) = (sb_inodes (v_sb v))[i := (sb_inodes (v_sb v) ! i)\<lparr>in_in_use := 0\<rparr>]" "v_files w = v_files v"
      and sec: "\<forall>t. t \<noteq> 0 \<longrightarrow> t < 64 \<longrightarrow> sector w t
        = (if t = in_start_sector (sb_inodes (v_sb v) ! i) then replicate 4096 0xFF else sector v t)"
      using delete_spec[OF v(1) Some] by blast
    have ok: "vfs_ok w" using vfs_ok_delete[OF v(1), of "Some p"] w(1) by simp
    have "unique_names (sb_inodes (v_sb w)) \<and> vfs_store w = (vfs_store v)(?n := None)"
      by (rule store_remove[OF v ok w(2) _ e]) (use sec in simp_all)
    then show ?thesis using w ok m fr by (simp add: store_ok_def)
  qed
qed

lemma log_append_spec:
  assumes "store_ok v" and "path_ok p" and "length (cstr e) + 4096 < 2 ^ 32"
    and "spec_append (strip_slash p) (bytes_of (cstr e)) (vfs_store v) = (st, m)"
  shows "\<exists>w. vfs_log_append (Some p) (Some e) v = Some (st, w) \<and> store_ok w \<and> vfs_store w = m"
proof -
  let ?fl = "VFS_O_CREAT OR VFS_O_WRONLY OR VFS_O_APPEND" and ?n = "strip_slash p" and ?e = "bytes_of (cstr e)"
  have f: "?fl AND VFS_O_CREAT \<noteq> 0" "?fl AND VFS_O_TRUNC = 0" "?fl AND VFS_O_APPEND \<noteq> 0" "?fl AND VFS_O_RDONLY = 0"
    by (simp_all add: open_flags)
  obtain st1 m1 where m1: "spec_create ?n (vfs_store v) = (st1, m1)" by (cases "spec_create ?n (vfs_store v)") auto
  note os = open_creat_spec[OF assms(1,2) f(1) disjI1[OF f(2)] m1]
  show ?thesis
  proof (cases "st1 = MK_STATUS_OK")
    case False
    then show ?thesis using os assms(1,4) m1 by (auto simp: vfs_log_append_def spec_append_def)
  next
    case True
    then obtain fd i w where o: "vfs_open (Some p) ?fl True v = ((MK_STATUS_OK, Some (int fd)), w)"
      and w: "opened ?n ?fl m1 fd i w" using os f(2) by auto
    let ?c = "file_bytes w i" and ?d = "v_files w ! fd" and ?nd = "sb_inodes (v_sb w) ! i"
    have w1: "vfs_ok w" "unique_names (sb_inodes (v_sb w))" "fd < 8" "fd_is_open ?d" "fd_flags ?d = ?fl" "fd_inode_idx ?d = i"
      "entry (sb_inodes (v_sb w)) ?n i" "vfs_store w = m1" "m1 ?n = Some ?c" "fd_cursor ?d = in_size_bytes ?nd"
      using w f(3) by (simp_all add: opened_def)
    have i: "i < 16" using w1(7) by (simp add: entry_def)
    have len: "length ?c = unat (fd_cursor ?d)" using file_bytes_length[OF w1(1) i] w1(10) by simp
    have op: "fd_valid (int fd)" "fd_is_open (v_files w ! nat (int fd))" "fd_flags (v_files w ! nat (int fd)) AND VFS_O_RDONLY = 0"
      using w1(3-5) f(4) by (simp_all add: fd_valid_def VFS_MAX_OPEN_FILES_def)
    show ?thesis
    proof (cases "4096 < length ?c + length ?e")
      case True
      then have m: "st = MK_STATUS_NO_MEMORY" "m = m1"
        using assms(4) m1 w1(9) \<open>st1 = MK_STATUS_OK\<close> by (simp_all add: spec_append_def Let_def)
      have "vfs_write (int fd) (Some ?e) True w = Some ((MK_STATUS_NO_MEMORY, None), w)"
        using True len assms(3) by (intro vfs_write_full[OF w1(1) op]) simp_all
      moreover obtain w' where "vfs_close (int fd) w = (MK_STATUS_OK, w')" "store_ok w'" "vfs_store w' = vfs_store w"
        using close_spec[OF w1(1-4)] by blast
      ultimately show ?thesis using o m w1(8) by (auto simp: vfs_log_append_def)
    next
      case False
      then have m: "st = MK_STATUS_OK" "m = m1(?n \<mapsto> ?c @ ?e)"
        using assms(4) m1 w1(9) \<open>st1 = MK_STATUS_OK\<close> by (simp_all add: spec_append_def Let_def)
      have fits: "unat (fd_cursor (v_files w ! nat (int fd))) + length ?e \<le> 4096" using False len by simp
      let ?cur = "fd_cursor ?d + of_nat (length ?e)"
      have "unat ?cur = unat (fd_cursor ?d) + length ?e" using fits by (simp add: unat_simps)
      then have cur: "unat ?cur = length ?c + length ?e" "max (in_size_bytes ?nd) ?cur = ?cur"
        using len w1(10) by (simp_all add: max_def word_le_nat_alt)
      obtain x where x: "vfs_write (int fd) (Some ?e) True w = Some ((MK_STATUS_OK, Some (of_nat (length ?e))), x)" "vfs_ok x"
        "sb_inodes (v_sb x) = (sb_inodes (v_sb w))[i := ?nd\<lparr>in_size_bytes := ?cur\<rparr>]"
        "v_files x = (v_files w)[fd := ?d\<lparr>fd_cursor := ?cur\<rparr>]"
        and sec: "\<forall>t. t \<noteq> 0 \<longrightarrow> t < 64 \<longrightarrow> sector x t = (if t = in_start_sector ?nd
          then take (unat (fd_cursor ?d)) (sector w t) @ ?e @ replicate (4096 - (unat (fd_cursor ?d) + length ?e)) 0xFF
          else sector w t)"
        using vfs_write_spec[OF w1(1) op fits] w1(6) cur(2) by auto
      have st: "start_ok i (in_start_sector ?nd)"
        using vfs_okD(3)[OF w1(1)] w1(7) by (simp add: dir_ok_def inode_ok_def entry_def)
      have "file_bytes x i = take (unat ?cur) (sector x (in_start_sector ?nd))"
        using x(3) i vfs_okD(6)[OF w1(1)] by (simp add: file_bytes_def Let_def)
      also have "\<dots> = ?c @ ?e"
        using sec start_ok_bounds[OF st i] cur(1) len w1(10) by (simp add: file_bytes_def Let_def)
      finally have fb: "file_bytes x i = ?c @ ?e" .
      have "unique_names (sb_inodes (v_sb x)) \<and> vfs_store x = (vfs_store w)(?n \<mapsto> file_bytes x i)"
        by (rule store_put[OF w1(1,2) x(2,3) i]) (use w1(7) sec in \<open>simp_all add: entry_def\<close>)
      then have u: "unique_names (sb_inodes (v_sb x))" "vfs_store x = m" using fb m w1(8) by simp_all
      have "fd_is_open (v_files x ! fd)" using x(4) w1(3,4) vfs_okD(7)[OF w1(1)] by simp
      then obtain w' where "vfs_close (int fd) x = (MK_STATUS_OK, w')" "store_ok w'" "vfs_store w' = vfs_store x"
        using close_spec[OF x(2) u(1) w1(3)] by blast
      then show ?thesis using o x(1) m(1) u(2) by (auto simp: vfs_log_append_def)
    qed
  qed
qed

section \<open>Sessions\<close>

text \<open>The store after \<open>vfs_init\<close>\<close>

definition initial_store :: store where
  "initial_store = [''macro.txt'' \<mapsto> bytes_of default_macro, ''wifi_audit.log'' \<mapsto> []]"

lemma default_entry:
  "entry default_inodes n i \<longleftrightarrow> i = 0 \<and> n = ''macro.txt'' \<or> i = 1 \<and> n = ''wifi_audit.log''"
proof -
  have z: "length (in_name inode_zero) = 32" "in_name inode_zero ! 31 = NUL" "in_in_use inode_zero = 0"
    by (simp_all add: inode_zero_def VFS_MAX_FILENAME_LEN_def)
  have "cstr (strncpy (in_name inode_zero) ''macro.txt'' 31) = ''macro.txt''"
    "cstr (strncpy (in_name inode_zero) ''wifi_audit.log'' 31) = ''wifi_audit.log''"
    using z by (simp_all add: cstr_strncpy cstr_Cons NUL_def)
  then have e: "entry default_inodes n 0 \<longleftrightarrow> n = ''macro.txt''" "entry default_inodes n (Suc 0) \<longleftrightarrow> n = ''wifi_audit.log''"
    by (auto simp: entry_def default_inodes_def)
  have "\<not> entry default_inodes n (Suc (Suc j))" for j
    using z(3) by (simp add: entry_def default_inodes_def)
  then show ?thesis using e by (cases i) (simp, metis One_nat_def not0_implies_Suc nat.distinct(1))
qed

lemma vfs_init_store:
  assumes "crc_table_ok (v_blk v)"
  shows "\<exists>v'. vfs_init now (v, fm) = (MK_STATUS_OK, v', fm) \<and> store_ok v' \<and> vfs_store v' = initial_store"
proof -
  obtain v' where i: "vfs_init now (v, fm) = (MK_STATUS_OK, v', fm)" and ok: "vfs_ok v'"
    and f: "v_files v' = replicate 8 file_desc_zero" and ns: "sb_inodes (v_sb v') = default_inodes"
    and m: "take (length default_macro) (sector v' 1) = bytes_of default_macro"
    using vfs_init_ok[OF assms] by blast
  have u: "unique_names (sb_inodes (v_sb v'))" by (auto simp: unique_names_def ns default_entry)
  have fr: "free_desc (v_files v') \<noteq> None" by (rule free_desc_closed[of 0]) (simp_all add: f file_desc_zero_def)
  have "length default_macro = 41" by (simp add: default_macro_def)
  then have b: "file_bytes v' 0 = bytes_of default_macro" "file_bytes v' (Suc 0) = []"
    using m by (simp_all add: file_bytes_def ns default_inodes_def Let_def inode_zero_def)
  have "vfs_store v' n = initial_store n" for n
    by (rule option_eqI) (auto simp: store_entry[OF ok u] ns default_entry b initial_store_def)
  then show ?thesis using i ok u fr by (auto simp: store_ok_def fun_eq_iff)
qed

datatype store_op = Create_File string | Append_Entry string string | Clear_File string | Delete_File string

definition store_step :: "store_op \<Rightarrow> vfs \<Rightarrow> (mk_status \<times> vfs) option" where
  "store_step op v =
     (case op of
        Create_File p \<Rightarrow> Some (vfs_log_init (Some p) v)
      | Append_Entry p e \<Rightarrow> vfs_log_append (Some p) (Some e) v
      | Clear_File p \<Rightarrow> Some (vfs_log_clear (Some p) v)
      | Delete_File p \<Rightarrow> Some (vfs_delete (Some p) v))"

definition spec_step :: "store_op \<Rightarrow> store \<Rightarrow> mk_status \<times> store" where
  "spec_step op m =
     (case op of
        Create_File p \<Rightarrow> spec_create (strip_slash p) m
      | Append_Entry p e \<Rightarrow> spec_append (strip_slash p) (bytes_of (cstr e)) m
      | Clear_File p \<Rightarrow> spec_clear (strip_slash p) m
      | Delete_File p \<Rightarrow> spec_delete (strip_slash p) m)"

fun store_run :: "store_op list \<Rightarrow> vfs \<Rightarrow> (mk_status list \<times> vfs) option" where
  "store_run [] v = Some ([], v)"
| "store_run (op # ops) v = (case store_step op v of None \<Rightarrow> None | Some (st, w) \<Rightarrow>
     map_option (\<lambda>(sts, x). (st # sts, x)) (store_run ops w))"

fun spec_run :: "store_op list \<Rightarrow> store \<Rightarrow> mk_status list \<times> store" where
  "spec_run [] m = ([], m)"
| "spec_run (op # ops) m = (case spec_step op m of (st, m1) \<Rightarrow> case spec_run ops m1 of (sts, m2) \<Rightarrow> (st # sts, m2))"

fun op_ok :: "store_op \<Rightarrow> bool" where
  "op_ok (Append_Entry p e) \<longleftrightarrow> path_ok p \<and> length (cstr e) + 4096 < 2 ^ 32"
| "op_ok (Create_File p) \<longleftrightarrow> path_ok p"
| "op_ok (Clear_File p) \<longleftrightarrow> path_ok p"
| "op_ok (Delete_File p) \<longleftrightarrow> path_ok p"

lemma store_step_refines:
  assumes "store_ok v" and "op_ok op" and "spec_step op (vfs_store v) = (st, m)"
  shows "\<exists>w. store_step op v = Some (st, w) \<and> store_ok w \<and> vfs_store w = m"
  using assms log_init_spec[of v _ st m] log_append_spec[of v _ _ st m] log_clear_spec[of v _ st m] delete_store_spec[of v _ st m]
  by (cases op) (simp_all add: store_step_def spec_step_def)

lemma store_run_refines:
  "store_ok v \<Longrightarrow> list_all op_ok ops \<Longrightarrow> spec_run ops (vfs_store v) = (sts, m) \<Longrightarrow>
   \<exists>w. store_run ops v = Some (sts, w) \<and> store_ok w \<and> vfs_store w = m"
proof (induction ops arbitrary: v sts)
  case (Cons op ops)
  obtain st m1 where s: "spec_step op (vfs_store v) = (st, m1)" by (cases "spec_step op (vfs_store v)") auto
  obtain w where w: "store_step op v = Some (st, w)" "store_ok w" "vfs_store w = m1"
    using store_step_refines[OF Cons.prems(1) _ s] Cons.prems(2) by auto
  obtain sts1 where r: "spec_run ops m1 = (sts1, m)" "sts = st # sts1"
    using Cons.prems(3) s by (auto split: prod.splits)
  show ?case using Cons.IH[of w sts1] w r Cons.prems(2) by auto
qed simp


definition demo_ops :: "store_op list" where
  "demo_ops = [Append_Entry ''/notes'' ''ab'', Append_Entry ''notes'' ''c'', Delete_File ''macro.txt'', Clear_File ''gone'']"


section \<open>Reading and writing through a descriptor\<close>

lemma take_patched:
  "length xs = c \<Longrightarrow> c \<le> L \<Longrightarrow> L \<le> N \<Longrightarrow> c + length d \<le> N \<Longrightarrow>
   take (max L (c + length d)) (xs @ d @ replicate (N - (c + length d)) x) = xs @ d @ replicate (L - (c + length d)) x"
  by (cases "L \<le> c + length d") (simp_all add: max_def min_def)

text \<open>C18. A write at the cursor puts the data there and advances the cursor; a write that ends before
  the end of the file erases the rest of it, because the sector is erased and only the bytes up to the
  end of the data are written back. Reading from the start then returns exactly these contents.\<close>

theorem vfs_write_then_read:
  assumes "vfs_ok v" and "fd_valid fd" and "fd_is_open (v_files v ! nat fd)"
    and "fd_flags (v_files v ! nat fd) AND VFS_O_RDONLY = 0"
    and "fd_cursor (v_files v ! nat fd) \<le> in_size_bytes (sb_inodes (v_sb v) ! fd_inode_idx (v_files v ! nat fd))"
    and "unat (fd_cursor (v_files v ! nat fd)) + length data \<le> 4096"
    and "fd_valid rd" and "rd \<noteq> fd" and "fd_is_open (v_files v ! nat rd)" and "fd_cursor (v_files v ! nat rd) = 0"
    and "fd_inode_idx (v_files v ! nat rd) = fd_inode_idx (v_files v ! nat fd)"
  defines "old \<equiv> file_bytes v (fd_inode_idx (v_files v ! nat fd))" and "c \<equiv> unat (fd_cursor (v_files v ! nat fd))"
  shows "\<exists>w x. vfs_write fd (Some data) True v = Some ((MK_STATUS_OK, Some (of_nat (length data))), w)
    \<and> vfs_read rd True 4096 True w
      = Some ((MK_STATUS_OK, Some (take c old @ data @ replicate (length old - (c + length data)) 0xFF)), x)"
proof -
  let ?d = "v_files v ! nat fd" and ?r = "v_files v ! nat rd"
  let ?i = "fd_inode_idx ?d" and ?cur = "fd_cursor ?d + of_nat (length data)"
  let ?n = "sb_inodes (v_sb v) ! ?i"
  note ok = vfs_okD[OF assms(1)] and df = open_desc_facts[OF assms(1-3)]
  obtain w where w: "vfs_write fd (Some data) True v = Some ((MK_STATUS_OK, Some (of_nat (length data))), w)" "vfs_ok w"
    "sb_inodes (v_sb w) = (sb_inodes (v_sb v))[?i := ?n\<lparr>in_size_bytes := max (in_size_bytes ?n) ?cur\<rparr>]"
    "v_files w = (v_files v)[nat fd := ?d\<lparr>fd_cursor := ?cur\<rparr>]"
    and sec: "\<forall>t. t \<noteq> 0 \<longrightarrow> t < 64 \<longrightarrow> sector w t = (if t = in_start_sector ?n
      then take c (sector v t) @ data @ replicate (4096 - (c + length data)) 0xFF else sector v t)"
    using vfs_write_spec[OF assms(1-4,6)] unfolding c_def by blast
  have cur: "unat ?cur = c + length data" using assms(6) by (simp add: unat_simps c_def)
  have ln: "length old = unat (in_size_bytes ?n)" "unat (in_size_bytes ?n) \<le> 4096" "c \<le> length old"
    using file_bytes_length[OF assms(1) df(2)] df(7) assms(5) by (simp_all add: old_def c_def inode_ok_def word_le_nat_alt)
  have mx: "unat (max (in_size_bytes ?n) ?cur) = max (length old) (c + length data)"
    using ln cur by (auto simp: max_def word_le_nat_alt)
  have "file_bytes w ?i = take (unat (max (in_size_bytes ?n) ?cur)) (sector w (in_start_sector ?n))"
    using w(3) df(2) ok(6) by (simp add: file_bytes_def Let_def)
  also have "\<dots> = take (max (length old) (c + length data)) (take c (sector v (in_start_sector ?n)) @ data @ replicate (4096 - (c + length data)) 0xFF)"
    using sec df(5,6) unfolding mx by simp
  also have "take c (sector v (in_start_sector ?n)) = take c old"
    using ln by (simp add: old_def file_bytes_def Let_def min_def)
  also have "take (max (length old) (c + length data)) (take c old @ data @ replicate (4096 - (c + length data)) 0xFF)
    = take c old @ data @ replicate (length old - (c + length data)) 0xFF"
    using ln assms(6) by (intro take_patched) (simp_all add: c_def)
  finally have fb: "file_bytes w ?i = take c old @ data @ replicate (length old - (c + length data)) 0xFF" .
  have ne: "nat rd \<noteq> nat fd" using assms(2,7,8) by (simp add: fd_valid_def nat_eq_iff)
  then have r: "v_files w ! nat rd = ?r" by (simp add: w(4))
  have "length (file_bytes w ?i) \<le> 4096" by (simp add: file_bytes_def Let_def)
  then have "\<exists>x. vfs_read rd True 4096 True w = Some ((MK_STATUS_OK, Some (file_bytes w ?i)), x)"
    using vfs_read_spec[OF w(2) assms(7), of 4096] assms(9-11) r by simp
  then show ?thesis using w(1) unfolding fb by blast
qed

text \<open>Overwriting the first five of the 41 bytes of \<open>macro.txt\<close> erases the other 36.\<close>

theorem vfs_write_then_read_witness:
  "\<exists>v1 w x. vfs_init None (vfs_static, fault_manager_static) = (MK_STATUS_OK, v1, fault_manager_static)
     \<and> vfs_write 0 (Some [1, 2, 3, 4, 5]) True (open_desc 1 0 VFS_O_RDONLY (open_desc 0 0 VFS_O_WRONLY v1))
       = Some ((MK_STATUS_OK, Some 5), w)
     \<and> vfs_read 1 True 4096 True w = Some ((MK_STATUS_OK, Some ([1, 2, 3, 4, 5] @ replicate 36 0xFF)), x)"
proof -
  have "crc_table_ok (v_blk vfs_static)" by (simp add: crc_table_ok_def vfs_static_def vblock_static_def)
  then obtain v1 where i: "vfs_init None (vfs_static, fault_manager_static) = (MK_STATUS_OK, v1, fault_manager_static)"
    and v1: "vfs_ok v1" "v_files v1 = replicate 8 file_desc_zero" "sb_inodes (v_sb v1) = default_inodes"
    using vfs_init_ok by blast
  let ?v2 = "open_desc 0 0 VFS_O_WRONLY v1"
  let ?v3 = "open_desc (Suc 0) 0 VFS_O_RDONLY ?v2"
  have n: "in_in_use (default_inodes ! 0) \<noteq> 0" "in_size_bytes (default_inodes ! 0) = 41"
    by (simp_all add: default_inodes_def default_macro_def)
  have v2: "vfs_ok ?v2" using v1 n by (intro vfs_ok_open_desc) simp_all
  have e: "sb_inodes (v_sb ?v2) = default_inodes" "sb_inodes (v_sb ?v3) = default_inodes"
    using v1(3) by (simp_all add: open_desc_def open_flags Let_def)
  have v3: "vfs_ok ?v3" by (rule vfs_ok_open_desc[OF v2]) (simp_all add: e n)
  have f: "v_files ?v3 ! 0 = \<lparr>fd_inode_idx = 0, fd_cursor = 0, fd_flags = VFS_O_WRONLY, fd_is_open = True\<rparr>"
    "v_files ?v3 ! Suc 0 = \<lparr>fd_inode_idx = 0, fd_cursor = 0, fd_flags = VFS_O_RDONLY, fd_is_open = True\<rparr>"
    using v1(2) by (simp_all add: open_desc_def open_flags Let_def file_desc_zero_def)
  have l: "length (file_bytes ?v3 0) = 41" using file_bytes_length[OF v3, of 0] n by (simp add: e)
  show ?thesis
    using vfs_write_then_read[of ?v3 0 "[1, 2, 3, 4, 5]" 1] v3 f n l i
    by (simp add: fd_valid_def VFS_MAX_OPEN_FILES_def e open_flags)
qed

text \<open>A descriptor opened with \<open>VFS_O_RDWR\<close> cannot be written, because \<open>VFS_O_RDONLY\<close> is one of its bits.\<close>

lemma rdwr_write_refused:
  assumes "v_ready v" and "fd_valid fd" and "fd_flags (v_files v ! nat fd) = VFS_O_RDWR"
  shows "vfs_write fd (Some data) True v = Some ((MK_STATUS_INVALID_STATE, None), v)"
  using assms by (simp add: vfs_write_def VFS_O_RDWR_def VFS_O_RDONLY_def Let_def)

end
