(* ===== verification/Audit_Log.thy ===== *)
theory Audit_Log
  imports Vfs_Log C_Format
begin

text \<open>
  The contract under which the applications keep an audit file: an append adds a whole entry or, when
  the entry does not fit, nothing. The file system provides it for every file that exists.
\<close>

section \<open>The contract\<close>

definition append_entry :: "nat \<Rightarrow> u8 list \<Rightarrow> u8 list \<Rightarrow> u8 list" where
  "append_entry cap c e = (if length c + length e \<le> cap then c @ e else c)"

lemma append_entry_prefix: "take (length c) (append_entry cap c e) = c"
  by (simp add: append_entry_def)

lemma append_entry_cap: "length c \<le> cap \<Longrightarrow> length (append_entry cap c e) \<le> cap"
  by (simp add: append_entry_def)

lemma fold_append_prefix: "take (length c) (foldl (append_entry cap) c es) = c"
proof (induction es arbitrary: c)
  case (Cons e es)
  have "length c \<le> length (append_entry cap c e)" by (simp add: append_entry_def)
  then have "take (length c) (foldl (append_entry cap) c (e # es))
      = take (length c) (take (length (append_entry cap c e)) (foldl (append_entry cap) (append_entry cap c e) es))"
    by (simp add: min_def)
  then show ?case by (simp add: Cons.IH append_entry_prefix)
qed simp

lemma fold_append_cap: "length c \<le> cap \<Longrightarrow> length (foldl (append_entry cap) c es) \<le> cap"
  by (induction es arbitrary: c) (simp_all add: append_entry_cap)

locale audit_log =
  fixes cap :: nat
    and inv :: "'s \<Rightarrow> bool"
    and contents :: "'s \<Rightarrow> u8 list"
    and append :: "string \<Rightarrow> 's \<Rightarrow> (mk_status \<times> 's) option"
  assumes contents_cap: "inv s \<Longrightarrow> length (contents s) \<le> cap"
    and append_law: "inv s \<Longrightarrow> length (cstr e) < 2 ^ 31 \<Longrightarrow>
      \<exists>st s'. append e s = Some (st, s') \<and> inv s' \<and> contents s' = append_entry cap (contents s) (bytes_of (cstr e))
        \<and> (st = MK_STATUS_OK \<longleftrightarrow> length (contents s) + length (cstr e) \<le> cap)"
begin

text \<open>Entries appended one after the other, their statuses ignored\<close>

fun append_all :: "string list \<Rightarrow> 's \<Rightarrow> 's option" where
  "append_all [] s = Some s"
| "append_all (e # es) s = (case append e s of None \<Rightarrow> None | Some (st, s') \<Rightarrow> append_all es s')"

lemma append_all_contents:
  "inv s \<Longrightarrow> list_all (\<lambda>e. length (cstr e) < 2 ^ 31) es \<Longrightarrow>
   \<exists>s'. append_all es s = Some s' \<and> inv s' \<and> contents s' = foldl (append_entry cap) (contents s) (map (bytes_of \<circ> cstr) es)"
proof (induction es arbitrary: s)
  case (Cons e es)
  obtain st s1 where s1: "append e s = Some (st, s1)" "inv s1"
    "contents s1 = append_entry cap (contents s) (bytes_of (cstr e))"
    using append_law[OF Cons.prems(1), of e] Cons.prems(2) by auto
  then show ?case using Cons.IH[of s1] Cons.prems(2) by auto
qed simp

lemma append_all_keeps:
  assumes "inv s" and "list_all (\<lambda>e. length (cstr e) < 2 ^ 31) es" and "append_all es s = Some s'"
  shows "take (length (contents s)) (contents s') = contents s" and "length (contents s') \<le> cap"
proof -
  have c: "contents s' = foldl (append_entry cap) (contents s) (map (bytes_of \<circ> cstr) es)" "inv s'"
    using append_all_contents[OF assms(1,2)] assms(3) by auto
  show "take (length (contents s)) (contents s') = contents s" unfolding c(1) by (rule fold_append_prefix)
  show "length (contents s') \<le> cap" using contents_cap[OF c(2)] .
qed

end

section \<open>The file system keeps it\<close>

definition log_inv :: "string \<Rightarrow> vfs \<Rightarrow> bool" where
  "log_inv p v \<longleftrightarrow> path_ok p \<and> store_ok v \<and> vfs_store v (strip_slash p) \<noteq> None"

definition log_contents :: "string \<Rightarrow> vfs \<Rightarrow> u8 list" where
  "log_contents p v = the (vfs_store v (strip_slash p))"

lemma store_file_small:
  assumes "store_ok v" and "vfs_store v n = Some c"
  shows "length c \<le> 4096"
proof -
  obtain i where i: "entry (sb_inodes (v_sb v)) n i" "c = file_bytes v i"
    using assms by (auto simp: store_ok_def store_entry)
  then have "inode_ok i (sb_inodes (v_sb v) ! i)"
    using assms(1) by (simp add: store_ok_def vfs_ok_def dir_ok_def entry_def)
  then show ?thesis by (simp add: i(2) file_bytes_def Let_def inode_ok_def word_le_nat_alt)
qed

interpretation vfs_audit: audit_log 4096 "log_inv p" "log_contents p" "\<lambda>e. vfs_log_append (Some p) (Some e)" for p
proof unfold_locales
  fix v assume "log_inv p v"
  then show "length (log_contents p v) \<le> 4096" using store_file_small by (auto simp: log_inv_def log_contents_def)
next
  fix v and e :: string
  assume i: "log_inv p v" and e: "length (cstr e) < 2 ^ 31"
  let ?n = "strip_slash p" and ?e = "bytes_of (cstr e)"
  obtain c where c: "vfs_store v ?n = Some c" using i by (auto simp: log_inv_def)
  have ok: "store_ok v" "path_ok p" using i by (simp_all add: log_inv_def)
  have cr: "spec_create ?n (vfs_store v) = (MK_STATUS_OK, vfs_store v)" using c by (auto simp: spec_create_def)
  obtain st m where m: "spec_append ?n ?e (vfs_store v) = (st, m)" by (cases "spec_append ?n ?e (vfs_store v)") auto
  have el: "length (cstr e) + 4096 < 2 ^ 32" using e by simp
  obtain w where w: "vfs_log_append (Some p) (Some e) v = Some (st, w)" "store_ok w" "vfs_store w = m"
    using log_append_spec[OF ok el m] by blast
  have wn: "vfs_store w ?n = Some (append_entry 4096 c ?e)" and st: "st = MK_STATUS_OK \<longleftrightarrow> length c + length (cstr e) \<le> 4096"
    using m c unfolding w(3) by (auto simp: spec_append_def cr append_entry_def split: if_splits)
  then have "log_inv p w" "log_contents p w = append_entry 4096 (log_contents p v) ?e"
    "st = MK_STATUS_OK \<longleftrightarrow> length (log_contents p v) + length (cstr e) \<le> 4096"
    using w(2) ok(2) c by (simp_all add: log_inv_def log_contents_def)
  then show "\<exists>st s'. vfs_log_append (Some p) (Some e) v = Some (st, s') \<and> log_inv p s'
      \<and> log_contents p s' = append_entry 4096 (log_contents p v) ?e
      \<and> (st = MK_STATUS_OK \<longleftrightarrow> length (log_contents p v) + length (cstr e) \<le> 4096)"
    using w(1) by blast
qed

text \<open>The file both diagnoses write; \<open>vfs_init\<close> creates it.\<close>

abbreviation audit_file :: string where "audit_file \<equiv> ''wifi_audit.log''"

lemma vfs_init_log:
  assumes "crc_table_ok (v_blk v)"
  shows "\<exists>v1. vfs_init now (v, fm) = (MK_STATUS_OK, v1, fm) \<and> log_inv audit_file v1 \<and> log_contents audit_file v1 = []"
  using vfs_init_store[OF assms, of now fm]
  by (auto simp: log_inv_def log_contents_def initial_store_def path_ok_def strip_slash_def NUL_def)

end
