(* ===== verification/Wifi_Diagnostics.thy ===== *)
theory Wifi_Diagnostics
  imports Hal_Wifi Audit_Log "HOL-Library.Signed_Division"
begin

text \<open>
  \<^verbatim>\<open>os/apps/wifi_diagnostics/wifi_diagnostics.c\<close>: the passive Wi-Fi diagnosis. It drains the frame ring,
  counts the frames, hops over the channels and keeps an audit file.
\<close>

section \<open>State and operations\<close>

text \<open>\<open>int32_t avg_rssi\<close> is an integer; it stays between -128 and 127 (\<open>avg_bounds\<close>).\<close>

record wifi_diag_stats =
  total_frames_analyzed :: u32
  mgmt_frames :: u32
  ctrl_frames :: u32
  data_frames :: u32
  beacon_frames :: u32
  probe_frames :: u32
  avg_rssi :: int
  active_channel :: u8

definition wifi_diag_stats_zero :: wifi_diag_stats where
  "wifi_diag_stats_zero = \<lparr>total_frames_analyzed = 0, mgmt_frames = 0, ctrl_frames = 0, data_frames = 0,
     beacon_frames = 0, probe_frames = 0, avg_rssi = 0, active_channel = 0\<rparr>"

record wifi_diag =
  wd_stats :: wifi_diag_stats
  wd_last_hop_tick :: u32
  wd_last_log_tick :: u32
  wd_active :: bool

definition wifi_diag_static :: wifi_diag where
  "wifi_diag_static = \<lparr>wd_stats = wifi_diag_stats_zero, wd_last_hop_tick = 0, wd_last_log_tick = 0, wd_active = False\<rparr>"

definition wifi_diagnostics_init :: "wifi_diag \<Rightarrow> mk_status \<times> wifi_diag" where
  "wifi_diagnostics_init s =
     (MK_STATUS_OK, s\<lparr>wd_stats := wifi_diag_stats_zero\<lparr>active_channel := 1\<rparr>, wd_last_hop_tick := 0,
        wd_last_log_tick := 0, wd_active := False\<rparr>)"

definition wifi_diagnostics_start :: "bool \<Rightarrow> wifi_diag \<times> wifi \<Rightarrow> mk_status \<times> wifi_diag \<times> wifi" where
  "wifi_diagnostics_start driver_ok s =
     (case s of (d, w) \<Rightarrow>
      case hal_wifi_start_promiscuous driver_ok (active_channel (wd_stats d)) w of
        (st, w1) \<Rightarrow> (st, d\<lparr>wd_active := True\<rparr>, w1))"

definition wifi_diagnostics_stop :: "wifi_diag \<times> wifi \<Rightarrow> mk_status \<times> wifi_diag \<times> wifi" where
  "wifi_diagnostics_stop s =
     (case s of (d, w) \<Rightarrow> case hal_wifi_stop_promiscuous w of (st, w1) \<Rightarrow> (st, d\<lparr>wd_active := False\<rparr>, w1))"

text \<open>One frame\<close>

definition count_frame :: "hal_wifi_frame_meta \<Rightarrow> wifi_diag_stats \<Rightarrow> wifi_diag_stats" where
  "count_frame meta s0 =
     (let s = s0\<lparr>total_frames_analyzed := total_frames_analyzed s0 + 1\<rparr>
      in if wm_frame_type meta = WIFI_FRAME_TYPE_MGMT
         then let s1 = s\<lparr>mgmt_frames := mgmt_frames s + 1\<rparr>
              in if wm_frame_subtype meta = 8 then s1\<lparr>beacon_frames := beacon_frames s1 + 1\<rparr>
                 else if wm_frame_subtype meta = 4 \<or> wm_frame_subtype meta = 5
                 then s1\<lparr>probe_frames := probe_frames s1 + 1\<rparr> else s1
         else if wm_frame_type meta = WIFI_FRAME_TYPE_CTRL then s\<lparr>ctrl_frames := ctrl_frames s + 1\<rparr>
         else if wm_frame_type meta = WIFI_FRAME_TYPE_DATA then s\<lparr>data_frames := data_frames s + 1\<rparr>
         else s)"

text \<open>The loop \<open>while (processed < 8U && hal_wifi_queue_pop(&meta))\<close>; \<open>n\<close> counts down from 8 and \<open>ms\<close> is the
  clock. The result is \<open>rssi_sum\<close> and \<open>processed\<close>.\<close>

fun drain ::
  "bool \<Rightarrow> u32 \<Rightarrow> nat \<Rightarrow> int \<times> nat \<times> wifi_diag_stats \<times> wifi \<Rightarrow> int \<times> nat \<times> wifi_diag_stats \<times> wifi" where
  "drain esp ms 0 s = s"
| "drain esp ms (Suc n) (rssi_sum, processed, st, w) =
     (case hal_wifi_queue_pop esp ms True w of
        (None, w1) \<Rightarrow> (rssi_sum, processed, st, w1)
      | (Some meta, w1) \<Rightarrow>
          drain esp ms n (rssi_sum + sint (wm_rssi meta), processed + 1, count_frame meta st, w1))"

definition update_average :: "int \<Rightarrow> nat \<Rightarrow> wifi_diag_stats \<Rightarrow> wifi_diag_stats" where
  "update_average rssi_sum processed st =
     (if 0 < processed then st\<lparr>avg_rssi := (avg_rssi st + rssi_sum sdiv int processed) sdiv 2\<rparr> else st)"

text \<open>Hopping and logging\<close>

definition next_channel :: "u8 \<Rightarrow> u8" where
  "next_channel c = c mod 11 + 1"

definition hop :: "u32 \<Rightarrow> wifi_diag \<times> wifi \<Rightarrow> wifi_diag \<times> wifi" where
  "hop current_tick s =
     (case s of (d, w) \<Rightarrow>
      if 50 \<le> current_tick - wd_last_hop_tick d
      then let ch = next_channel (active_channel (wd_stats d))
           in (d\<lparr>wd_stats := (wd_stats d)\<lparr>active_channel := ch\<rparr>, wd_last_hop_tick := current_tick\<rparr>,
               snd (hal_wifi_set_channel ch w))
      else (d, w))"

definition audit_line :: "wifi_diag_stats \<Rightarrow> string" where
  "audit_line st =
     ''[WIFI_AUDIT] Ch:'' @ show_dec (unat (active_channel st)) @ '' Tot:'' @ show_dec (unat (total_frames_analyzed st))
     @ '' Mgmt:'' @ show_dec (unat (mgmt_frames st)) @ '' (Bcn:'' @ show_dec (unat (beacon_frames st))
     @ '',Prb:'' @ show_dec (unat (probe_frames st)) @ '') Ctrl:'' @ show_dec (unat (ctrl_frames st))
     @ '' Data:'' @ show_dec (unat (data_frames st)) @ '' RSSI:'' @ show_int (avg_rssi st) @ LF"

definition audit :: "u32 \<Rightarrow> wifi_diag \<Rightarrow> vfs \<Rightarrow> (wifi_diag \<times> vfs) option" where
  "audit current_tick d v =
     (if 100 \<le> current_tick - wd_last_log_tick d
      then case vfs_log_append (Some ''wifi_audit.log'') (Some (formatted 128 (audit_line (wd_stats d)))) v of
             None \<Rightarrow> None
           | Some (_, v1) \<Rightarrow> Some (d\<lparr>wd_last_log_tick := current_tick\<rparr>, v1)
      else Some (d, v))"

definition wifi_diagnostics_task ::
  "bool \<Rightarrow> u32 \<Rightarrow> u32 \<Rightarrow> wifi_diag \<times> wifi \<times> vfs \<Rightarrow> (wifi_diag \<times> wifi \<times> vfs) option" where
  "wifi_diagnostics_task esp ms current_tick s =
     (case s of (d, w, v) \<Rightarrow>
      if \<not> wd_active d then Some s
      else case drain esp ms 8 (0, 0, wd_stats d, w) of
             (rssi_sum, processed, st, w1) \<Rightarrow>
               (case hop current_tick (d\<lparr>wd_stats := update_average rssi_sum processed st\<rparr>, w1) of
                  (d2, w2) \<Rightarrow> map_option (\<lambda>(d3, v1). (d3, w2, v1)) (audit current_tick d2 v)))"

definition wifi_diagnostics_get_stats :: "wifi_diag \<Rightarrow> wifi_diag_stats" where
  "wifi_diagnostics_get_stats d = wd_stats d"

section \<open>Draining the ring\<close>

text \<open>What the counters say about the frames \<open>fs\<close>, modulo \<open>2 ^ 32\<close>\<close>

definition of_type :: "u8 \<Rightarrow> hal_wifi_frame_meta \<Rightarrow> bool" where
  "of_type t m \<longleftrightarrow> wm_frame_type m = t"

definition counted :: "hal_wifi_frame_meta list \<Rightarrow> wifi_diag_stats \<Rightarrow> bool" where
  "counted fs st \<longleftrightarrow>
     total_frames_analyzed st = of_nat (length fs)
     \<and> mgmt_frames st = of_nat (length (filter (of_type WIFI_FRAME_TYPE_MGMT) fs))
     \<and> ctrl_frames st = of_nat (length (filter (of_type WIFI_FRAME_TYPE_CTRL) fs))
     \<and> data_frames st = of_nat (length (filter (of_type WIFI_FRAME_TYPE_DATA) fs))
     \<and> beacon_frames st = of_nat (length (filter (\<lambda>m. of_type WIFI_FRAME_TYPE_MGMT m \<and> wm_frame_subtype m = 8) fs))
     \<and> probe_frames st = of_nat (length (filter (\<lambda>m. of_type WIFI_FRAME_TYPE_MGMT m \<and> wm_frame_subtype m \<in> {4, 5}) fs))"

lemmas frame_types = WIFI_FRAME_TYPE_MGMT_def WIFI_FRAME_TYPE_CTRL_def WIFI_FRAME_TYPE_DATA_def

lemma counted_snoc: "counted fs st \<Longrightarrow> counted (fs @ [m]) (count_frame m st)"
  by (auto simp: counted_def count_frame_def of_type_def frame_types Let_def)

lemma count_frame_keeps [simp]:
  "avg_rssi (count_frame m st) = avg_rssi st" "active_channel (count_frame m st) = active_channel st"
  by (simp_all add: count_frame_def Let_def)

lemma counted_fold: "counted fs st \<Longrightarrow> counted (fs @ ms) (fold count_frame ms st)"
  by (induction ms arbitrary: fs st) (use counted_snoc in fastforce)+

lemma fold_count_keeps [simp]:
  "avg_rssi (fold count_frame ms st) = avg_rssi st" "active_channel (fold count_frame ms st) = active_channel st"
  by (induction ms arbitrary: st) simp_all

abbreviation rssi :: "hal_wifi_frame_meta \<Rightarrow> int" where
  "rssi m \<equiv> sint (wm_rssi m)"

lemma drain_spec:
  "wifi_inv w \<Longrightarrow> \<exists>w'. drain True ms n (r, p, st, w)
     = (r + sum_list (map rssi (take n (wifi_frames w))), p + length (take n (wifi_frames w)),
        fold count_frame (take n (wifi_frames w)) st, w')
     \<and> wifi_inv w' \<and> wifi_frames w' = drop n (wifi_frames w)"
proof (induction n arbitrary: r p st w)
  case (Suc n)
  obtain x w1 where g: "hal_wifi_queue_pop True ms True w = (x, w1)" by (cases "hal_wifi_queue_pop True ms True w") auto
  have i: "wifi_inv w1" and l: "(x, wifi_frames w1) = list_get (wifi_frames w)"
    using wifi_pop_refines[OF Suc.prems, of ms] g by simp_all
  show ?case
  proof (cases "wifi_frames w")
    case Nil
    then show ?thesis using g i l by (simp add: list_get_def)
  next
    case (Cons m fs)
    then have "x = Some m" "wifi_frames w1 = fs" using l by (simp_all add: list_get_def)
    then show ?thesis
      using Suc.IH[OF i, of "r + rssi m" "p + 1" "count_frame m st"] g Cons by (simp add: add.assoc)
  qed
qed simp

section \<open>Bounds\<close>

lemma rssi_bounds: "- 128 \<le> rssi m \<and> rssi m \<le> 127"
  using sint_ge[of "wm_rssi m"] sint_lt[of "wm_rssi m"] by simp

lemma rssi_sum_bounds: "- 128 * int (length ms) \<le> sum_list (map rssi ms) \<and> sum_list (map rssi ms) \<le> 127 * int (length ms)"
proof (induction ms)
  case (Cons m ms)
  then show ?case using rssi_bounds[of m] by simp
qed simp

text \<open>Division that truncates towards zero stays between multiples of a positive divisor.\<close>

lemma sdiv_pos:
  assumes "0 < k" shows "(x :: int) sdiv k = (if 0 \<le> x then x div k else - ((- x) div k))"
  using assms by (auto simp: signed_divide_int_def sgn_if abs_if)

lemma sdiv_bounds:
  fixes k l u x :: int
  assumes "0 < k" and "l * k \<le> x" and "x \<le> u * k" and "l \<le> 0" and "0 \<le> u"
  shows "l \<le> x sdiv k \<and> x sdiv k \<le> u"
proof (cases "0 \<le> x")
  case True
  have "x div k \<le> u * k div k" using assms(1,3) by (intro zdiv_mono1)
  then show ?thesis using assms True by (simp add: sdiv_pos pos_imp_zdiv_nonneg_iff order.trans[of l 0])
next
  case False
  have "(- x) div k \<le> (- l) * k div k" using assms(1,2) by (intro zdiv_mono1) simp_all
  moreover have "0 \<le> (- x) div k" using assms(1) False by (simp add: pos_imp_zdiv_nonneg_iff)
  moreover have "(- l) * k div k = - l" using assms(1) by (intro nonzero_mult_div_cancel_right) simp
  ultimately have "(- x) div k \<le> - l" "0 \<le> (- x) div k" by linarith+
  then show ?thesis using assms(1,5) False by (simp add: sdiv_pos)
qed

definition stats_ok :: "wifi_diag_stats \<Rightarrow> bool" where
  "stats_ok st \<longleftrightarrow> - 128 \<le> avg_rssi st \<and> avg_rssi st \<le> 127 \<and> 1 \<le> active_channel st \<and> active_channel st \<le> 11"

lemma update_average_ok:
  assumes "stats_ok st" and "- 128 * int n \<le> r" and "r \<le> 127 * int n"
  shows "stats_ok (update_average r n st)"
proof (cases "n = 0")
  case False
  then have "- 128 \<le> r sdiv int n \<and> r sdiv int n \<le> 127" using assms by (intro sdiv_bounds) simp_all
  then have "- 128 \<le> (avg_rssi st + r sdiv int n) sdiv 2 \<and> (avg_rssi st + r sdiv int n) sdiv 2 \<le> 127"
    using assms(1) by (intro sdiv_bounds) (auto simp: stats_ok_def)
  then show ?thesis using assms(1) False by (simp add: update_average_def stats_ok_def)
qed (use assms in \<open>simp add: update_average_def\<close>)

lemma next_channel_bounds: "1 \<le> next_channel c \<and> next_channel c \<le> 11"
proof -
  have "unat (next_channel c) = unat c mod 11 + 1" by (simp add: next_channel_def unat_word_ariths unat_mod)
  then show ?thesis by (simp add: word_le_nat_alt)
qed

section \<open>The audit line is never cut\<close>

lemma show_u8: "length (show_dec (unat (c :: u8))) \<le> 3"
  using length_show_dec[of "unat c" 2] unsigned_less[of c, where 'a = nat] by simp

lemma show_rssi: "- 128 \<le> i \<Longrightarrow> i \<le> 127 \<Longrightarrow> length (show_int i) \<le> 4"
proof -
  assume "- 128 \<le> i" and "i \<le> 127"
  then have "nat i < 10 ^ Suc 2" "nat (- i) < 10 ^ Suc 2" by simp_all
  then show "length (show_int i) \<le> 4" using length_show_dec[of _ 2] by (fastforce simp: show_int_def)
qed

lemma audit_line_whole:
  assumes "stats_ok st" shows "formatted 128 (audit_line st) = audit_line st"
proof (rule formatted_fits)
  show "NUL \<notin> set (audit_line st)"
    using show_dec_no_NUL show_int_no_NUL by (auto simp: audit_line_def LF_def NUL_def)
  show "length (audit_line st) < 128"
    using assms show_u8[of "active_channel st"] show_rssi[of "avg_rssi st"] length_show_u32[of "total_frames_analyzed st"]
      length_show_u32[of "mgmt_frames st"] length_show_u32[of "ctrl_frames st"] length_show_u32[of "data_frames st"]
      length_show_u32[of "beacon_frames st"] length_show_u32[of "probe_frames st"]
    by (simp add: audit_line_def stats_ok_def LF_def)
qed

section \<open>Sessions\<close>

text \<open>Frames arrive while the task runs in slices at the given tick and clock reading. The result lists
  the frames the ring accepted.\<close>

datatype wifi_ev = Frame hal_wifi_frame_meta | Slice u32 u32

fun wifi_session ::
  "wifi_ev list \<Rightarrow> wifi_diag \<times> wifi \<times> vfs \<Rightarrow> (hal_wifi_frame_meta list \<times> wifi_diag \<times> wifi \<times> vfs) option" where
  "wifi_session [] s = Some ([], s)"
| "wifi_session (Frame m # evs) (d, w, v) =
     (let (ok, w1) = wifi_put m w
      in map_option (\<lambda>(ms, s). (if ok then m # ms else ms, s)) (wifi_session evs (d, w1, v)))"
| "wifi_session (Slice ms tick # evs) s =
     (case wifi_diagnostics_task True ms tick s of None \<Rightarrow> None | Some s1 \<Rightarrow> wifi_session evs s1)"

text \<open>The log of a session that started with the contents \<open>c0\<close>: whole audit lines, as long as they fit\<close>

definition audited :: "u8 list \<Rightarrow> u8 list \<Rightarrow> bool" where
  "audited c0 c \<longleftrightarrow> (\<exists>sts. list_all stats_ok sts \<and> c = foldl (append_entry 4096) c0 (map (bytes_of \<circ> audit_line) sts))"

lemma audited_refl: "audited c c"
  unfolding audited_def by (intro exI[of _ "[]"]) simp

lemma audited_trans:
  assumes "audited a b" and "audited b c" shows "audited a c"
proof -
  obtain xs ys where "list_all stats_ok xs" "b = foldl (append_entry 4096) a (map (bytes_of \<circ> audit_line) xs)"
    "list_all stats_ok ys" "c = foldl (append_entry 4096) b (map (bytes_of \<circ> audit_line) ys)"
    using assms by (auto simp: audited_def)
  then have "list_all stats_ok (xs @ ys) \<and> c = foldl (append_entry 4096) a (map (bytes_of \<circ> audit_line) (xs @ ys))" by simp
  then show ?thesis unfolding audited_def by blast
qed

lemma audit_line_cstr: "cstr (audit_line st) = audit_line st"
  using show_dec_no_NUL show_int_no_NUL by (intro cstr_id) (auto simp: audit_line_def LF_def NUL_def)

lemma audit_spec:
  assumes "log_inv audit_file v" and "stats_ok (wd_stats d)"
  shows "\<exists>d' v'. audit tick d v = Some (d', v') \<and> wd_stats d' = wd_stats d \<and> log_inv audit_file v'
    \<and> audited (log_contents audit_file v) (log_contents audit_file v')"
proof (cases "100 \<le> tick - wd_last_log_tick d")
  case True
  let ?l = "audit_line (wd_stats d)"
  have f: "formatted 128 ?l = ?l" using assms(2) by (rule audit_line_whole)
  have "length (cstr ?l) < 2 ^ 31" using length_formatted[of 128 ?l] unfolding f audit_line_cstr by simp
  then obtain st v' where v': "vfs_log_append (Some audit_file) (Some ?l) v = Some (st, v')" "log_inv audit_file v'"
    "log_contents audit_file v' = append_entry 4096 (log_contents audit_file v) (bytes_of ?l)"
    using vfs_audit.append_law[OF assms(1), of ?l] unfolding audit_line_cstr by blast
  have "audited (log_contents audit_file v) (log_contents audit_file v')"
    unfolding audited_def by (intro exI[of _ "[wd_stats d]"]) (simp add: assms(2) v'(3))
  then show ?thesis using True v' by (simp add: audit_def f)
qed (use assms audited_refl in \<open>simp add: audit_def\<close>)

lemma hop_spec:
  assumes "stats_ok (wd_stats d)" and "counted fs (wd_stats d)" and "hop tick (d, w) = (d', w')" and "wifi_inv w"
  shows "stats_ok (wd_stats d') \<and> counted fs (wd_stats d') \<and> wifi_frames w' = wifi_frames w \<and> wifi_inv w'"
  using assms next_channel_bounds[of "active_channel (wd_stats d)"]
  by (auto simp: hop_def stats_ok_def counted_def Let_def hal_wifi_set_channel_def wifi_frames_def wifi_inv_def
      split: if_splits)

text \<open>The invariant of a session: \<open>got\<close> are the frames accepted so far.\<close>

definition wifi_diag_ok :: "u8 list \<Rightarrow> hal_wifi_frame_meta list \<Rightarrow> wifi_diag \<times> wifi \<times> vfs \<Rightarrow> bool" where
  "wifi_diag_ok c0 got s \<longleftrightarrow> (case s of (d, w, v) \<Rightarrow>
     wifi_inv w \<and> stats_ok (wd_stats d) \<and> log_inv audit_file v \<and> audited c0 (log_contents audit_file v)
     \<and> (\<exists>fs. counted fs (wd_stats d) \<and> got = fs @ wifi_frames w))"

lemma counted_average: "counted fs st \<Longrightarrow> counted fs (update_average r n st)"
  by (simp add: counted_def update_average_def)

lemma task_ok:
  assumes "wifi_diag_ok c0 got s"
  shows "\<exists>s'. wifi_diagnostics_task True ms tick s = Some s' \<and> wifi_diag_ok c0 got s'"
proof -
  obtain d w v where s: "s = (d, w, v)" by (cases s)
  show ?thesis
  proof (cases "wd_active d")
    case False
    then show ?thesis using assms by (simp add: s wifi_diagnostics_task_def)
  next
    case True
    obtain fs where fs: "counted fs (wd_stats d)" "got = fs @ wifi_frames w"
      and i: "wifi_inv w" "stats_ok (wd_stats d)" "log_inv audit_file v" "audited c0 (log_contents audit_file v)"
      using assms by (auto simp: s wifi_diag_ok_def)
    let ?t = "take 8 (wifi_frames w)"
    let ?st = "fold count_frame ?t (wd_stats d)" and ?r = "sum_list (map rssi ?t)"
    obtain w1 where w1: "drain True ms 8 (0, 0, wd_stats d, w) = (?r, length ?t, ?st, w1)" "wifi_inv w1"
      "wifi_frames w1 = drop 8 (wifi_frames w)" using drain_spec[OF i(1), of ms 8 0 0 "wd_stats d"] by auto
    let ?u = "update_average ?r (length ?t) ?st"
    let ?d1 = "d\<lparr>wd_stats := ?u\<rparr>"
    have u: "stats_ok (wd_stats ?d1)"
      using i(2) rssi_sum_bounds[of ?t] by (simp, intro update_average_ok) (simp_all add: stats_ok_def)
    have c: "counted (fs @ ?t) (wd_stats ?d1)"
      using counted_average[OF counted_fold[OF fs(1), of ?t]] by simp
    obtain d2 w2 where h: "hop tick (?d1, w1) = (d2, w2)" by (cases "hop tick (?d1, w1)")
    have h2: "stats_ok (wd_stats d2)" "counted (fs @ ?t) (wd_stats d2)" "wifi_frames w2 = wifi_frames w1" "wifi_inv w2"
      using hop_spec[OF u c h w1(2)] by simp_all
    obtain d3 v1 where a: "audit tick d2 v = Some (d3, v1)" "wd_stats d3 = wd_stats d2" "log_inv audit_file v1"
      "audited (log_contents audit_file v) (log_contents audit_file v1)" using audit_spec[OF i(3) h2(1)] by blast
    have "wifi_diagnostics_task True ms tick s = Some (d3, w2, v1)"
      using True by (simp add: s wifi_diagnostics_task_def w1(1) h a(1) del: length_take)
    moreover have "got = (fs @ ?t) @ wifi_frames w2" using fs(2) by (simp add: h2(3) w1(3))
    then have "wifi_diag_ok c0 got (d3, w2, v1)"
      using a h2 audited_trans[OF i(4) a(4)] by (auto simp: wifi_diag_ok_def)
    ultimately show ?thesis by blast
  qed
qed

lemma wifi_session_ok:
  "wifi_diag_ok c0 got s \<Longrightarrow> \<exists>ms s'. wifi_session evs s = Some (ms, s') \<and> wifi_diag_ok c0 (got @ ms) s'"
proof (induction evs arbitrary: got s)
  case (Cons e evs)
  obtain d w v where s: "s = (d, w, v)" by (cases s)
  show ?case
  proof (cases e)
    case (Slice ms tick)
    then show ?thesis using task_ok[OF Cons.prems, of ms tick] Cons.IH by fastforce
  next
    case (Frame m)
    obtain ok w1 where p: "wifi_put m w = (ok, w1)" by (cases "wifi_put m w")
    have i: "wifi_inv w" using Cons.prems by (simp add: s wifi_diag_ok_def)
    have w1: "wifi_inv w1" "(ok, wifi_frames w1) = list_put 64 m (wifi_frames w)" using wifi_put_refines[OF i, of m] p by simp_all
    then have "wifi_frames w1 = wifi_frames w @ (if ok then [m] else [])" by (auto simp: list_put_def split: if_splits)
    then have "wifi_diag_ok c0 (got @ (if ok then [m] else [])) (d, w1, v)"
      using Cons.prems w1(1) by (auto simp: s wifi_diag_ok_def)
    from Cons.IH[OF this] obtain ms s' where
      r: "wifi_session evs (d, w1, v) = Some (ms, s')" "wifi_diag_ok c0 ((got @ (if ok then [m] else [])) @ ms) s'" by blast
    then have "wifi_session (e # evs) s = Some (if ok then m # ms else ms, s')" by (simp add: Frame s p)
    moreover have "(got @ (if ok then [m] else [])) @ ms = got @ (if ok then m # ms else ms)" by simp
    ultimately show ?thesis using r(2) by metis
  qed
qed simp

text \<open>C12. Whatever frames arrive and however the task is scheduled, every accepted frame is counted
  once, by its type, or still waits in the ring; the channel stays in 1 to 11, the average signal strength
  in the range of a signed byte, and the audit file grows by whole lines only.\<close>

theorem wifi_audit_exact:
  assumes "wifi_inv w" and "log_inv audit_file v"
    and "wifi_diagnostics_start True (snd (wifi_diagnostics_init d), snd (hal_wifi_init True w)) = (st, d1, w1)"
  shows "\<exists>ms d' w' v'. wifi_session evs (d1, w1, v) = Some (ms, d', w', v')
    \<and> (\<exists>fs. ms = fs @ wifi_frames w' \<and> counted fs (wifi_diagnostics_get_stats d'))
    \<and> stats_ok (wifi_diagnostics_get_stats d') \<and> audited (log_contents audit_file v) (log_contents audit_file v')"
proof -
  have "wifi_inv (snd (hal_wifi_init True w))" "wifi_frames (snd (hal_wifi_init True w)) = []"
    using wifi_inv_init[OF assms(1)] by blast+
  then have w1: "wifi_inv w1" "wifi_frames w1 = []"
    using assms(3) by (auto simp: wifi_diagnostics_start_def hal_wifi_start_promiscuous_def Let_def wifi_inv_def wifi_frames_def)
  have d1: "wd_stats d1 = wifi_diag_stats_zero\<lparr>active_channel := 1\<rparr>"
    using assms(3) by (auto simp: wifi_diagnostics_start_def wifi_diagnostics_init_def hal_wifi_start_promiscuous_def Let_def)
  have "wifi_diag_ok (log_contents audit_file v) [] (d1, w1, v)"
    using w1 assms(2) audited_refl by (simp add: wifi_diag_ok_def d1 stats_ok_def counted_def wifi_diag_stats_zero_def)
  from wifi_session_ok[OF this, of evs] show ?thesis
    by (auto simp: wifi_diag_ok_def wifi_diagnostics_get_stats_def)
qed

text \<open>A beacon and a data frame arrive, the task runs at tick 100: both are counted, a line is written.\<close>

theorem wifi_audit_exact_witness:
  "\<exists>v1 d1 w1 d' w' v'. vfs_init None (vfs_static, fault_manager_static) = (MK_STATUS_OK, v1, fault_manager_static)
     \<and> wifi_diagnostics_start True (snd (wifi_diagnostics_init wifi_diag_static), snd (hal_wifi_init True wifi_static)) = (MK_STATUS_OK, d1, w1)
     \<and> wifi_session [Frame (frame_meta_zero\<lparr>wm_frame_subtype := 8\<rparr>), Frame (frame_meta_zero\<lparr>wm_frame_type := 2\<rparr>), Slice 0 100] (d1, w1, v1)
       = Some ([frame_meta_zero\<lparr>wm_frame_subtype := 8\<rparr>, frame_meta_zero\<lparr>wm_frame_type := 2\<rparr>], d', w', v')
     \<and> (\<exists>fs. [frame_meta_zero\<lparr>wm_frame_subtype := 8\<rparr>, frame_meta_zero\<lparr>wm_frame_type := 2\<rparr>] = fs @ wifi_frames w' \<and> counted fs (wifi_diagnostics_get_stats d'))
     \<and> audited [] (log_contents audit_file v')"
proof -
  let ?b = "frame_meta_zero\<lparr>wm_frame_subtype := 8\<rparr>" and ?f = "frame_meta_zero\<lparr>wm_frame_type := 2\<rparr>"
  have "crc_table_ok (v_blk vfs_static)" by (simp add: crc_table_ok_def vfs_static_def vblock_static_def)
  then obtain v1 where v1: "vfs_init None (vfs_static, fault_manager_static) = (MK_STATUS_OK, v1, fault_manager_static)"
    "log_inv audit_file v1" "log_contents audit_file v1 = []" using vfs_init_log by blast
  obtain d1 w1 where s: "wifi_diagnostics_start True (snd (wifi_diagnostics_init wifi_diag_static), snd (hal_wifi_init True wifi_static))
      = (MK_STATUS_OK, d1, w1)" and c: "wf_count w1 = 0"
    by (simp add: wifi_diagnostics_start_def hal_wifi_start_promiscuous_def hal_wifi_init_def Let_def)
  obtain ms d' w' v' where r: "wifi_session [Frame ?b, Frame ?f, Slice 0 100] (d1, w1, v1) = Some (ms, d', w', v')"
    "\<exists>fs. ms = fs @ wifi_frames w' \<and> counted fs (wifi_diagnostics_get_stats d')" "audited [] (log_contents audit_file v')"
    using wifi_audit_exact[OF wifi_inv_static v1(2) s, of "[Frame ?b, Frame ?f, Slice 0 100]"] unfolding v1(3) by blast
  have "ms = [?b, ?f]"
    using r(1) c by (auto simp: wifi_put_def wifi_enqueue_def HAL_WIFI_QUEUE_CAPACITY_def split: option.splits)
  then show ?thesis using v1(1) s r by blast
qed

end
