(* ===== verification/Network_Diagnostics.thy ===== *)
theory Network_Diagnostics
  imports Audit_Log
begin

text \<open>
  \<^verbatim>\<open>os/apps/network_diagnostics/network_diagnostics.c\<close>: the cooperative audit of one host. Every slice
  makes one step; the answers of the TCP/IP stack are arguments.
\<close>

section \<open>State\<close>

datatype net_diag_state =
    NET_DIAG_IDLE | NET_DIAG_TARGET_CONFIGURED | NET_DIAG_ICMP_PENDING | NET_DIAG_ICMP_RESULT
  | NET_DIAG_TCP_22_PENDING | NET_DIAG_TCP_22_RESULT | NET_DIAG_TCP_80_PENDING | NET_DIAG_TCP_80_RESULT
  | NET_DIAG_TCP_443_PENDING | NET_DIAG_TCP_443_RESULT | NET_DIAG_COMPLETE

fun net_diag_state_ord :: "net_diag_state \<Rightarrow> nat" where
  "net_diag_state_ord NET_DIAG_IDLE = 0"
| "net_diag_state_ord NET_DIAG_TARGET_CONFIGURED = 1"
| "net_diag_state_ord NET_DIAG_ICMP_PENDING = 2"
| "net_diag_state_ord NET_DIAG_ICMP_RESULT = 3"
| "net_diag_state_ord NET_DIAG_TCP_22_PENDING = 4"
| "net_diag_state_ord NET_DIAG_TCP_22_RESULT = 5"
| "net_diag_state_ord NET_DIAG_TCP_80_PENDING = 6"
| "net_diag_state_ord NET_DIAG_TCP_80_RESULT = 7"
| "net_diag_state_ord NET_DIAG_TCP_443_PENDING = 8"
| "net_diag_state_ord NET_DIAG_TCP_443_RESULT = 9"
| "net_diag_state_ord NET_DIAG_COMPLETE = 10"

record net_diag_report =
  target_ip :: string
  target_configured :: bool
  icmp_reachable :: bool
  icmp_rtt_ms :: u32
  tcp_22_open :: bool
  tcp_80_open :: bool
  tcp_443_open :: bool
  current_state :: net_diag_state

definition net_diag_report_zero :: net_diag_report where
  "net_diag_report_zero = \<lparr>target_ip = replicate 48 NUL, target_configured = False, icmp_reachable = False,
     icmp_rtt_ms = 0, tcp_22_open = False, tcp_80_open = False, tcp_443_open = False, current_state = NET_DIAG_IDLE\<rparr>"

record net_diag =
  nd_report :: net_diag_report
  nd_step_timer :: u32
  nd_active_sock :: int
  nd_last_audit_tick :: u32

definition net_diag_static :: net_diag where
  "net_diag_static = \<lparr>nd_report = net_diag_report_zero, nd_step_timer = 0, nd_active_sock = - 1, nd_last_audit_tick = 0\<rparr>"

section \<open>Operations\<close>

definition network_diagnostics_set_target :: "string option \<Rightarrow> net_diag \<Rightarrow> mk_status \<times> net_diag" where
  "network_diagnostics_set_target target s =
     (case target of
        None \<Rightarrow> (MK_STATUS_INVALID_ARG, s)
      | Some t \<Rightarrow>
          if length (cstr t) = 0 then (MK_STATUS_INVALID_ARG, s)
          else (MK_STATUS_OK,
            s\<lparr>nd_report := (nd_report s)\<lparr>target_ip := strncpy (target_ip (nd_report s)) t 47, target_configured := True,
                icmp_reachable := False, icmp_rtt_ms := 0, tcp_22_open := False, tcp_80_open := False,
                tcp_443_open := False, current_state := NET_DIAG_TARGET_CONFIGURED\<rparr>,
              nd_step_timer := 0\<rparr>))"

definition network_diagnostics_init :: "net_diag \<Rightarrow> mk_status \<times> net_diag" where
  "network_diagnostics_init s =
     (MK_STATUS_OK, snd (network_diagnostics_set_target (Some ''127.0.0.1'')
        (s\<lparr>nd_report := net_diag_report_zero, nd_step_timer := 0, nd_active_sock := - 1\<rparr>)))"

text \<open>What the socket calls of one connection attempt return\<close>

record tcp_answers =
  ta_socket :: int
  ta_connect :: int
  ta_select :: int
  ta_so_error :: int

definition check_tcp_nonblocking :: "bool \<Rightarrow> (string \<Rightarrow> u16 \<Rightarrow> tcp_answers) \<Rightarrow> string \<Rightarrow> u16 \<Rightarrow> bool" where
  "check_tcp_nonblocking esp net host port =
     (if esp
      then let a = net host port
           in if ta_socket a < 0 then False
              else if ta_connect a = 0 then True
              else if ta_select a = 1 then ta_so_error a = 0
              else False
      else port = 80 \<or> port = 443)"

definition bool_digit :: "bool \<Rightarrow> string" where
  "bool_digit b = show_dec (if b then 1 else 0)"

definition net_audit_line :: "net_diag_report \<Rightarrow> string" where
  "net_audit_line r =
     ''[NET_DIAG] IP:'' @ cstr (target_ip r) @ '' ICMP:'' @ bool_digit (icmp_reachable r)
     @ '' ('' @ show_dec (unat (icmp_rtt_ms r)) @ ''ms) 22:'' @ bool_digit (tcp_22_open r)
     @ '' 80:'' @ bool_digit (tcp_80_open r) @ '' 443:'' @ bool_digit (tcp_443_open r) @ LF"

definition net_audit :: "u32 \<Rightarrow> net_diag \<times> vfs \<Rightarrow> (net_diag \<times> vfs) option" where
  "net_audit tick s =
     (case s of (d, v) \<Rightarrow>
      if 200 \<le> tick - nd_last_audit_tick d
      then case vfs_log_append (Some ''wifi_audit.log'') (Some (formatted 128 (net_audit_line (nd_report d)))) v of
             None \<Rightarrow> None
           | Some (_, v1) \<Rightarrow> Some (d\<lparr>nd_last_audit_tick := tick\<rparr>, v1)
      else Some (d, v))"

abbreviation set_report :: "(net_diag_report \<Rightarrow> net_diag_report) \<Rightarrow> net_diag \<Rightarrow> net_diag" where
  "set_report f s \<equiv> s\<lparr>nd_report := f (nd_report s)\<rparr>"

definition network_diagnostics_task ::
  "bool \<Rightarrow> (string \<Rightarrow> u16 \<Rightarrow> tcp_answers) \<Rightarrow> u32 \<Rightarrow> net_diag \<times> vfs \<Rightarrow> (net_diag \<times> vfs) option" where
  "network_diagnostics_task esp net tick s =
     (case s of (d, v) \<Rightarrow>
      let check = check_tcp_nonblocking esp net (cstr (target_ip (nd_report d)))
      in case current_state (nd_report d) of
        NET_DIAG_IDLE \<Rightarrow> Some (d, v)
      | NET_DIAG_TARGET_CONFIGURED \<Rightarrow>
          Some (set_report (\<lambda>r. r\<lparr>current_state := NET_DIAG_ICMP_PENDING\<rparr>) (d\<lparr>nd_step_timer := 0\<rparr>), v)
      | NET_DIAG_ICMP_PENDING \<Rightarrow>
          Some (set_report (\<lambda>r. r\<lparr>icmp_reachable := False, icmp_rtt_ms := 0, current_state := NET_DIAG_ICMP_RESULT\<rparr>) d, v)
      | NET_DIAG_ICMP_RESULT \<Rightarrow> Some (set_report (\<lambda>r. r\<lparr>current_state := NET_DIAG_TCP_22_PENDING\<rparr>) d, v)
      | NET_DIAG_TCP_22_PENDING \<Rightarrow>
          Some (set_report (\<lambda>r. r\<lparr>tcp_22_open := check 22, current_state := NET_DIAG_TCP_22_RESULT\<rparr>) d, v)
      | NET_DIAG_TCP_22_RESULT \<Rightarrow> Some (set_report (\<lambda>r. r\<lparr>current_state := NET_DIAG_TCP_80_PENDING\<rparr>) d, v)
      | NET_DIAG_TCP_80_PENDING \<Rightarrow>
          Some (set_report (\<lambda>r. r\<lparr>tcp_80_open := check 80, current_state := NET_DIAG_TCP_80_RESULT\<rparr>) d, v)
      | NET_DIAG_TCP_80_RESULT \<Rightarrow> Some (set_report (\<lambda>r. r\<lparr>current_state := NET_DIAG_TCP_443_PENDING\<rparr>) d, v)
      | NET_DIAG_TCP_443_PENDING \<Rightarrow>
          Some (set_report (\<lambda>r. r\<lparr>tcp_443_open := check 443, current_state := NET_DIAG_TCP_443_RESULT\<rparr>) d, v)
      | NET_DIAG_TCP_443_RESULT \<Rightarrow> Some (set_report (\<lambda>r. r\<lparr>current_state := NET_DIAG_COMPLETE\<rparr>) d, v)
      | NET_DIAG_COMPLETE \<Rightarrow> net_audit tick (d, v))"

definition network_diagnostics_get_report :: "net_diag \<Rightarrow> net_diag_report" where
  "network_diagnostics_get_report s = nd_report s"

definition network_diagnostics_start :: "net_diag \<Rightarrow> mk_status \<times> net_diag" where
  "network_diagnostics_start s =
     (MK_STATUS_OK, set_report (\<lambda>r. r\<lparr>current_state :=
        (if target_configured r then NET_DIAG_ICMP_PENDING else NET_DIAG_IDLE)\<rparr>) s)"

definition network_diagnostics_stop :: "net_diag \<Rightarrow> mk_status \<times> net_diag" where
  "network_diagnostics_stop s = (MK_STATUS_OK, set_report (\<lambda>r. r\<lparr>current_state := NET_DIAG_IDLE\<rparr>) s)"

definition network_diagnostics_reset :: "net_diag \<Rightarrow> mk_status \<times> net_diag" where
  "network_diagnostics_reset s = network_diagnostics_init s"

section \<open>The audit line is never cut\<close>

text \<open>The target always is a terminated string.\<close>

definition report_ok :: "net_diag_report \<Rightarrow> bool" where
  "report_ok r \<longleftrightarrow> length (target_ip r) = 48 \<and> target_ip r ! 47 = NUL"

lemma report_ok_zero: "report_ok net_diag_report_zero"
  by (simp add: report_ok_def net_diag_report_zero_def)

lemma set_target_ok: "report_ok (nd_report s) \<Longrightarrow> report_ok (nd_report (snd (network_diagnostics_set_target t s)))"
  by (auto simp: network_diagnostics_set_target_def report_ok_def length_strncpy strncpy_last split: option.splits)

lemma net_audit_line_cstr: "cstr (net_audit_line r) = net_audit_line r"
  using show_dec_no_NUL cstr_no_NUL[of "target_ip r"]
  by (intro cstr_id) (auto simp: net_audit_line_def bool_digit_def LF_def NUL_def)

lemma net_audit_line_whole:
  assumes "report_ok r" shows "formatted 128 (net_audit_line r) = net_audit_line r"
proof (rule formatted_fits)
  show "NUL \<notin> set (net_audit_line r)" using net_audit_line_cstr cstr_no_NUL by metis
  have "length (cstr (target_ip r)) \<le> 48" using length_cstr[of "target_ip r"] assms by (simp add: report_ok_def)
  moreover have "length (bool_digit b) = 1" for b by (simp add: bool_digit_def show_dec.simps)
  ultimately show "length (net_audit_line r) < 128"
    using length_show_u32[of "icmp_rtt_ms r"] by (simp add: net_audit_line_def LF_def)
qed

section \<open>An audit\<close>

text \<open>The task in slices, each with the answers of the network and the tick\<close>

fun net_session ::
  "bool \<Rightarrow> ((string \<Rightarrow> u16 \<Rightarrow> tcp_answers) \<times> u32) list \<Rightarrow> net_diag \<times> vfs \<Rightarrow> (net_diag \<times> vfs) option" where
  "net_session esp [] s = Some s"
| "net_session esp ((net, tick) # sl) s =
     (case network_diagnostics_task esp net tick s of None \<Rightarrow> None | Some s1 \<Rightarrow> net_session esp sl s1)"

lemma net_session_append:
  "net_session esp (xs @ ys) s = (case net_session esp xs s of None \<Rightarrow> None | Some s1 \<Rightarrow> net_session esp ys s1)"
  by (induction xs arbitrary: s) (auto split: option.splits)

text \<open>Nine slices take a configured target to its result.\<close>

lemma nine_slices:
  assumes "current_state (nd_report d) = NET_DIAG_TARGET_CONFIGURED" and "length sl = 9"
  defines "ip \<equiv> cstr (target_ip (nd_report d))"
  shows "net_session esp sl (d, v) = Some (d\<lparr>nd_step_timer := 0, nd_report := (nd_report d)
     \<lparr>icmp_reachable := False, icmp_rtt_ms := 0, tcp_22_open := check_tcp_nonblocking esp (fst (sl ! 3)) ip 22,
      tcp_80_open := check_tcp_nonblocking esp (fst (sl ! 5)) ip 80,
      tcp_443_open := check_tcp_nonblocking esp (fst (sl ! 7)) ip 443, current_state := NET_DIAG_COMPLETE\<rparr>\<rparr>, v)"
proof -
  obtain n1 t1 n2 t2 n3 t3 n4 t4 n5 t5 n6 t6 n7 t7 n8 t8 n9 t9 where
    sl: "sl = [(n1, t1), (n2, t2), (n3, t3), (n4, t4), (n5, t5), (n6, t6), (n7, t7), (n8, t8), (n9, t9)]"
    using assms(2) by (auto simp: numeral_eq_Suc length_Suc_conv)
  show ?thesis using assms(1) by (simp add: sl network_diagnostics_task_def ip_def)
qed

definition net_audited :: "net_diag_report \<Rightarrow> u8 list \<Rightarrow> u8 list \<Rightarrow> bool" where
  "net_audited r c0 c \<longleftrightarrow> (\<exists>n. c = foldl (append_entry 4096) c0 (replicate n (bytes_of (net_audit_line r))))"

lemma net_audited_step: "net_audited r (append_entry 4096 c0 (bytes_of (net_audit_line r))) c \<Longrightarrow> net_audited r c0 c"
  unfolding net_audited_def by (elim exE, rule_tac x = "Suc n" in exI) simp

lemma complete_stays:
  "current_state (nd_report d) = NET_DIAG_COMPLETE \<Longrightarrow> report_ok (nd_report d) \<Longrightarrow> log_inv audit_file v \<Longrightarrow>
   \<exists>d' v'. net_session esp sl (d, v) = Some (d', v') \<and> nd_report d' = nd_report d
     \<and> log_inv audit_file v' \<and> net_audited (nd_report d) (log_contents audit_file v) (log_contents audit_file v')"
proof (induction sl arbitrary: d v)
  case Nil
  show ?case using Nil.prems by (auto simp: net_audited_def intro: exI[of _ 0])
next
  case (Cons x sl)
  obtain net tick where x: "x = (net, tick)" by (cases x)
  let ?f = audit_file and ?l = "net_audit_line (nd_report d)"
  show ?case
  proof (cases "200 \<le> tick - nd_last_audit_tick d")
    case False
    then have "network_diagnostics_task esp net tick (d, v) = Some (d, v)"
      using Cons.prems(1) by (simp add: network_diagnostics_task_def net_audit_def)
    then show ?thesis using Cons.IH[OF Cons.prems] by (simp add: x)
  next
    case True
    have f: "formatted 128 ?l = ?l" using Cons.prems(2) by (rule net_audit_line_whole)
    have "length (cstr ?l) < 2 ^ 31" using length_formatted[of 128 ?l] unfolding f net_audit_line_cstr by simp
    then obtain st v1 where v1: "vfs_log_append (Some ?f) (Some ?l) v = Some (st, v1)" "log_inv ?f v1"
      "log_contents ?f v1 = append_entry 4096 (log_contents ?f v) (bytes_of ?l)"
      using vfs_audit.append_law[OF Cons.prems(3), of ?l] unfolding net_audit_line_cstr by blast
    have t: "network_diagnostics_task esp net tick (d, v) = Some (d\<lparr>nd_last_audit_tick := tick\<rparr>, v1)"
      using True Cons.prems(1) v1(1) by (simp add: network_diagnostics_task_def net_audit_def f)
    have p: "current_state (nd_report (d\<lparr>nd_last_audit_tick := tick\<rparr>)) = NET_DIAG_COMPLETE"
      "report_ok (nd_report (d\<lparr>nd_last_audit_tick := tick\<rparr>))" using Cons.prems by simp_all
    then show ?thesis using Cons.IH[OF p v1(2)] t net_audited_step unfolding v1(3) by (fastforce simp: x)
  qed
qed



end
