(* ===== verification/Macro_Parser.thy ===== *)
theory Macro_Parser
  imports Vfs_Log Hal C_Format "HOL-Library.Monad_Syntax"
begin

text \<open>
  \<^verbatim>\<open>os/apps/ble_hid/macro_parser.c\<close>: the macro parser, which reads a file through a buffer of 64 bytes. The
  part of \<open>macro_parser_t\<close> that belongs to the stream (\<open>fd\<close>, \<open>buffer\<close>, \<open>buf_len\<close>, \<open>buf_pos\<close>, \<open>eof_reached\<close>)
  together with the file system is the source of the parser's characters. The parser is written over any
  source, so that parsing the file can be compared with parsing its contents.
\<close>

section \<open>Data\<close>

definition MACRO_BUFFER_SIZE :: nat where "MACRO_BUFFER_SIZE = 64"

datatype macro_cmd_type =
    MACRO_CMD_NONE | MACRO_CMD_KEY | MACRO_CMD_STRING_CHAR | MACRO_CMD_DELAY | MACRO_CMD_ENTER
  | MACRO_CMD_EOF | MACRO_CMD_ERROR

record macro_event =
  me_type :: macro_cmd_type
  me_modifier :: u8
  me_keycode :: u8
  me_delay_ms :: u32
  me_ch :: char

definition macro_event_zero :: macro_event where
  "macro_event_zero = \<lparr>me_type = MACRO_CMD_NONE, me_modifier = 0, me_keycode = 0, me_delay_ms = 0, me_ch = NUL\<rparr>"

record char_stream =
  cs_fd :: int
  cs_buffer :: string
  cs_buf_len :: nat
  cs_buf_pos :: nat
  cs_eof_reached :: bool

record 's macro_parser =
  mp_src :: 's
  mp_line_number :: u32
  mp_current_str :: string
  mp_str_pos :: nat
  mp_str_len :: nat

text \<open>\<open>vfs\<close> is the file system when the parser is set up.\<close>

definition macro_parser_init :: "bool \<Rightarrow> int \<Rightarrow> vfs \<Rightarrow> mk_status \<times> (char_stream \<times> vfs) macro_parser option" where
  "macro_parser_init parser_ok fd v =
     (if \<not> parser_ok \<or> fd < 0 then (MK_STATUS_INVALID_ARG, None)
      else (MK_STATUS_OK, Some \<lparr>mp_src = (\<lparr>cs_fd = fd, cs_buffer = replicate MACRO_BUFFER_SIZE NUL, cs_buf_len = 0,
              cs_buf_pos = 0, cs_eof_reached = False\<rparr>, v),
              mp_line_number = 1, mp_current_str = replicate 32 NUL, mp_str_pos = 0, mp_str_len = 0\<rparr>))"

section \<open>The stream\<close>

text \<open>\<open>None\<close> is an access outside the sector buffer, see \<open>vfs_read\<close>.\<close>

definition refill_buffer :: "char_stream \<times> vfs \<Rightarrow> (bool \<times> char_stream \<times> vfs) option" where
  "refill_buffer s =
     (case s of (p, v) \<Rightarrow>
      if cs_eof_reached p then Some (False, p, v)
      else case vfs_read (cs_fd p) True (of_nat MACRO_BUFFER_SIZE) True v of
             None \<Rightarrow> None
           | Some ((st, out), v1) \<Rightarrow>
               let bs = (case out of None \<Rightarrow> [] | Some bs \<Rightarrow> bs); bytes_read = length bs
               in if st \<noteq> MK_STATUS_OK \<or> bytes_read = 0
                  then Some (False, p\<lparr>cs_eof_reached := True, cs_buf_len := 0, cs_buf_pos := 0\<rparr>, v1)
                  else Some (True, p\<lparr>cs_buffer := chars_of bs @ drop bytes_read (cs_buffer p),
                                     cs_buf_len := bytes_read, cs_buf_pos := 0\<rparr>, v1))"

text \<open>The character read, or \<open>None\<close> for the result -1\<close>

definition get_next_char :: "char_stream \<times> vfs \<Rightarrow> (char option \<times> char_stream \<times> vfs) option" where
  "get_next_char s =
     do { (ok, p, v) \<leftarrow> (if cs_buf_len (fst s) \<le> cs_buf_pos (fst s) then refill_buffer s else Some (True, s));
          if \<not> ok then Some (None, p, v)
          else Some (Some (cs_buffer p ! cs_buf_pos p), p\<lparr>cs_buf_pos := cs_buf_pos p + 1\<rparr>, v) }"

section \<open>The parser\<close>

type_synonym 's source = "'s \<Rightarrow> (char option \<times> 's) option"

definition getc :: "'s source \<Rightarrow> 's macro_parser \<Rightarrow> (char option \<times> 's macro_parser) option" where
  "getc next p = do { (c, s) \<leftarrow> next (mp_src p); Some (c, p\<lparr>mp_src := s\<rparr>) }"

definition line_up :: "'s macro_parser \<Rightarrow> 's macro_parser" where
  "line_up p = p\<lparr>mp_line_number := mp_line_number p + 1\<rparr>"

definition push_str :: "char \<Rightarrow> 's macro_parser \<Rightarrow> 's macro_parser" where
  "push_str c p = p\<lparr>mp_current_str := (mp_current_str p)[mp_str_len p := c], mp_str_len := mp_str_len p + 1\<rparr>"

abbreviation nl :: char where "nl \<equiv> CHR 0x0A"
abbreviation cr :: char where "cr \<equiv> CHR 0x0D"

text \<open>The code and the modifier of the key that types a character\<close>

definition char_to_hid :: "char \<Rightarrow> u8 \<times> u8" where
  "char_to_hid c =
     (let n = of_char c :: int
      in if 97 \<le> n \<and> n \<le> 122 then (HAL_BLE_KEY_A + word_of_int (n - 97), HAL_BLE_MOD_NONE)
         else if 65 \<le> n \<and> n \<le> 90 then (HAL_BLE_KEY_A + word_of_int (n - 65), HAL_BLE_MOD_LSHIFT)
         else if c = CHR '' '' then (HAL_BLE_KEY_SPACE, HAL_BLE_MOD_NONE)
         else if c = nl \<or> c = cr then (HAL_BLE_KEY_ENTER, HAL_BLE_MOD_NONE)
         else (HAL_BLE_KEY_NONE, HAL_BLE_MOD_NONE))"

definition string_char :: "char \<Rightarrow> macro_event" where
  "string_char c = (case char_to_hid c of (key, modifier) \<Rightarrow>
     \<lparr>me_type = MACRO_CMD_STRING_CHAR, me_modifier = modifier, me_keycode = key, me_delay_ms = 20, me_ch = c\<rparr>)"

definition delay_event :: "u32 \<Rightarrow> macro_event" where
  "delay_event ms = macro_event_zero\<lparr>me_type := MACRO_CMD_DELAY, me_delay_ms := ms\<rparr>"

definition enter_event :: macro_event where
  "enter_event = macro_event_zero\<lparr>me_type := MACRO_CMD_ENTER, me_modifier := HAL_BLE_MOD_NONE,
     me_keycode := HAL_BLE_KEY_ENTER, me_delay_ms := 50\<rparr>"

text \<open>The loops. White space before a command or a number:\<close>

partial_function (option) skip_space :: "'s source \<Rightarrow> 's macro_parser \<Rightarrow> (char option \<times> 's macro_parser) option" where
  "skip_space next p =
     do { (c, p1) \<leftarrow> getc next p;
          case c of
            None \<Rightarrow> Some (None, p1)
          | Some ch \<Rightarrow> if ch = nl then skip_space next (line_up p1)
                       else if isspace ch then skip_space next p1
                       else Some (Some ch, p1) }"

text \<open>The command, at most 15 characters:\<close>

partial_function (option) read_word :: "'s source \<Rightarrow> string \<Rightarrow> 's macro_parser \<Rightarrow> (string \<times> 's macro_parser) option" where
  "read_word next word p =
     do { (c, p1) \<leftarrow> getc next p;
          case c of
            None \<Rightarrow> Some (word, p1)
          | Some ch \<Rightarrow> if \<not> length word < 15 then Some (word, p1)
                       else if isspace ch then Some (word, if ch = nl then line_up p1 else p1)
                       else read_word next (word @ [ch]) p1 }"

text \<open>The blanks before a string and the string:\<close>

partial_function (option) skip_blank :: "'s source \<Rightarrow> 's macro_parser \<Rightarrow> (char option \<times> 's macro_parser) option" where
  "skip_blank next p =
     do { (c, p1) \<leftarrow> getc next p;
          if c = Some (CHR '' '') \<or> c = Some (CHR 0x09) then skip_blank next p1 else Some (c, p1) }"

partial_function (option) read_rest :: "'s source \<Rightarrow> 's macro_parser \<Rightarrow> (char option \<times> 's macro_parser) option" where
  "read_rest next p =
     do { (c, p1) \<leftarrow> getc next p;
          case c of
            None \<Rightarrow> Some (None, p1)
          | Some ch \<Rightarrow> if ch = nl \<or> ch = cr then Some (c, p1)
                       else read_rest next (if mp_str_len p1 < 31 then push_str ch p1 else p1) }"

text \<open>The digits of a number, at most nine characters:\<close>

partial_function (option) read_digits :: "'s source \<Rightarrow> string \<Rightarrow> 's macro_parser \<Rightarrow> (string \<times> 's macro_parser) option" where
  "read_digits next num p =
     do { (c, p1) \<leftarrow> getc next p;
          case c of
            None \<Rightarrow> Some (num, p1)
          | Some ch \<Rightarrow> if isdigit ch \<and> length num < 9 then read_digits next (num @ [ch]) p1 else Some (num, p1) }"

text \<open>The pending character of a string\<close>

definition next_string_char :: "'s macro_parser \<Rightarrow> (mk_status \<times> macro_event) \<times> 's macro_parser" where
  "next_string_char p =
     ((MK_STATUS_OK, string_char (mp_current_str p ! mp_str_pos p)), p\<lparr>mp_str_pos := mp_str_pos p + 1\<rparr>)"

definition string_command :: "'s source \<Rightarrow> 's macro_parser \<Rightarrow> ((mk_status \<times> macro_event) \<times> 's macro_parser) option" where
  "string_command next p =
     do { (c, p1) \<leftarrow> skip_blank next (p\<lparr>mp_str_len := 0, mp_str_pos := 0\<rparr>);
          (c2, p2) \<leftarrow> (case c of
             None \<Rightarrow> Some (c, p1)
           | Some ch \<Rightarrow> if ch = nl \<or> ch = cr then Some (c, p1) else read_rest next (push_str ch p1));
          let p3 = (if c2 = Some nl then line_up p2 else p2)
          in Some (if 0 < mp_str_len p3 then next_string_char p3 else ((MK_STATUS_OK, macro_event_zero), p3)) }"

definition delay_command :: "'s source \<Rightarrow> 's macro_parser \<Rightarrow> ((mk_status \<times> macro_event) \<times> 's macro_parser) option" where
  "delay_command next p =
     do { (c, p1) \<leftarrow> skip_space next p;
          (num, p2) \<leftarrow> (case c of None \<Rightarrow> Some ([], p1) | Some ch \<Rightarrow> read_digits next [ch] p1);
          Some ((MK_STATUS_OK, delay_event (word_of_int (atoi (cstr num)))), p2) }"

text \<open>\<open>args_ok\<close> says that no pointer is NULL.\<close>

definition macro_parser_next_event ::
  "'s source \<Rightarrow> bool \<Rightarrow> 's macro_parser \<Rightarrow> ((mk_status \<times> macro_event) \<times> 's macro_parser) option" where
  "macro_parser_next_event next args_ok p =
     (if \<not> args_ok then Some ((MK_STATUS_INVALID_ARG, macro_event_zero), p)
      else if mp_str_pos p < mp_str_len p then Some (next_string_char p)
      else do { (c, p1) \<leftarrow> skip_space next p;
                case c of
                  None \<Rightarrow> Some ((MK_STATUS_OK, macro_event_zero\<lparr>me_type := MACRO_CMD_EOF\<rparr>), p1)
                | Some ch \<Rightarrow>
                    do { (word, p2) \<leftarrow> read_word next [ch] p1;
                         if strcmp_eq word ''STRING'' then string_command next p2
                         else if strcmp_eq word ''DELAY'' then delay_command next p2
                         else if strcmp_eq word ''ENTER'' then Some ((MK_STATUS_OK, enter_event), p2)
                         else Some ((MK_STATUS_OK, macro_event_zero), p2) } })"

section \<open>Any source of characters\<close>

text \<open>The contents still to come, taken as a source\<close>

definition list_next :: "string source" where
  "list_next s = Some (case s of [] \<Rightarrow> (None, []) | c # r \<Rightarrow> (Some c, r))"

lemma list_next_simps [simp]: "list_next [] = Some (None, [])" "list_next (c # s) = Some (Some c, s)"
  by (simp_all add: list_next_def)

definition at_src :: "('s \<Rightarrow> 't) \<Rightarrow> 's macro_parser \<Rightarrow> 't macro_parser" where
  "at_src f p = \<lparr>mp_src = f (mp_src p), mp_line_number = mp_line_number p, mp_current_str = mp_current_str p,
     mp_str_pos = mp_str_pos p, mp_str_len = mp_str_len p\<rparr>"

lemma at_src_simps [simp]:
  "mp_src (at_src f p) = f (mp_src p)" "mp_line_number (at_src f p) = mp_line_number p"
  "mp_current_str (at_src f p) = mp_current_str p" "mp_str_pos (at_src f p) = mp_str_pos p"
  "mp_str_len (at_src f p) = mp_str_len p"
  "(at_src f p)\<lparr>mp_src := f x\<rparr> = at_src f (p\<lparr>mp_src := x\<rparr>)"
  "(at_src f p)\<lparr>mp_str_len := n, mp_str_pos := m\<rparr> = at_src f (p\<lparr>mp_str_len := n, mp_str_pos := m\<rparr>)"
  "line_up (at_src f p) = at_src f (line_up p)" "push_str c (at_src f p) = at_src f (push_str c p)"
  by (simp_all add: at_src_def line_up_def push_str_def)

lemma next_string_char_at [simp]: "next_string_char (at_src f p) = (fst (next_string_char p), at_src f (snd (next_string_char p)))"
  by (simp add: next_string_char_def at_src_def)

lemma parser_src_simps [simp]:
  "mp_src (line_up p) = mp_src p" "mp_src (push_str c p) = mp_src p" "mp_src (snd (next_string_char p)) = mp_src p"
  by (simp_all add: line_up_def push_str_def next_string_char_def)

locale char_source =
  fixes inv :: "'s \<Rightarrow> bool"
    and remaining :: "'s \<Rightarrow> string"
    and nxt :: "'s source"
  assumes next_law: "inv s \<Longrightarrow> \<exists>c s'. nxt s = Some (c, s') \<and> inv s' \<and> list_next (remaining s) = Some (c, remaining s')"
begin

text \<open>The two runs, over the source and over its contents, go on in step.\<close>

definition in_step :: "('a \<times> 's macro_parser) option \<Rightarrow> ('a \<times> string macro_parser) option \<Rightarrow> bool" where
  "in_step r t \<longleftrightarrow> (\<exists>a p. r = Some (a, p) \<and> inv (mp_src p) \<and> t = Some (a, at_src remaining p))"

lemma in_step_return [simp]: "in_step (Some (a, p)) (Some (a, at_src remaining p)) \<longleftrightarrow> inv (mp_src p)"
  by (auto simp: in_step_def)

lemma in_step_bind:
  assumes "in_step r t" and "\<And>a p. r = Some (a, p) \<Longrightarrow> inv (mp_src p) \<Longrightarrow> in_step (f (a, p)) (g (a, at_src remaining p))"
  shows "in_step (r \<bind> f) (t \<bind> g)"
  using assms by (auto simp: in_step_def)

lemma getc_cases:
  assumes "inv (mp_src p)"
  obtains (eof) p1 where "getc nxt p = Some (None, p1)" "inv (mp_src p1)"
      "getc list_next (at_src remaining p) = Some (None, at_src remaining p1)"
  | (char) c p1 where "getc nxt p = Some (Some c, p1)" "inv (mp_src p1)"
      "getc list_next (at_src remaining p) = Some (Some c, at_src remaining p1)"
      "length (remaining (mp_src p1)) < length (remaining (mp_src p))"
proof -
  obtain c s' where n: "nxt (mp_src p) = Some (c, s')" "inv s'" "list_next (remaining (mp_src p)) = Some (c, remaining s')"
    using next_law[OF assms] by blast
  have g: "getc nxt p = Some (c, p\<lparr>mp_src := s'\<rparr>)"
    "getc list_next (at_src remaining p) = Some (c, at_src remaining (p\<lparr>mp_src := s'\<rparr>))"
    using n by (simp_all add: getc_def)
  show thesis
  proof (cases c)
    case None
    then show thesis using eof[of "p\<lparr>mp_src := s'\<rparr>"] g n(2) by simp
  next
    case (Some d)
    then have "length (remaining s') < length (remaining (mp_src p))" using n(3) by (auto simp: list_next_def split: list.splits)
    then show thesis using char[of d "p\<lparr>mp_src := s'\<rparr>"] g n(2) Some by simp
  qed
qed

lemma skip_space_step: "inv (mp_src p) \<Longrightarrow> in_step (skip_space nxt p) (skip_space list_next (at_src remaining p))"
proof (induction "length (remaining (mp_src p))" arbitrary: p rule: less_induct)
  case less
  show ?case
    by (cases rule: getc_cases[OF less.prems]; subst (1 2) skip_space.simps) (use less.hyps in \<open>simp_all add: in_step_def\<close>)
qed

lemma read_word_step: "inv (mp_src p) \<Longrightarrow> in_step (read_word nxt w p) (read_word list_next w (at_src remaining p))"
proof (induction "length (remaining (mp_src p))" arbitrary: p w rule: less_induct)
  case less
  show ?case
    by (cases rule: getc_cases[OF less.prems]; subst (1 2) read_word.simps) (use less.hyps in \<open>simp_all add: in_step_def\<close>)
qed

lemma skip_blank_step: "inv (mp_src p) \<Longrightarrow> in_step (skip_blank nxt p) (skip_blank list_next (at_src remaining p))"
proof (induction "length (remaining (mp_src p))" arbitrary: p rule: less_induct)
  case less
  show ?case
    by (cases rule: getc_cases[OF less.prems]; subst (1 2) skip_blank.simps) (use less.hyps in \<open>simp_all add: in_step_def\<close>)
qed

lemma read_rest_step: "inv (mp_src p) \<Longrightarrow> in_step (read_rest nxt p) (read_rest list_next (at_src remaining p))"
proof (induction "length (remaining (mp_src p))" arbitrary: p rule: less_induct)
  case less
  show ?case
    by (cases rule: getc_cases[OF less.prems]; subst (1 2) read_rest.simps) (use less.hyps in \<open>simp_all add: in_step_def\<close>)
qed

lemma read_digits_step: "inv (mp_src p) \<Longrightarrow> in_step (read_digits nxt w p) (read_digits list_next w (at_src remaining p))"
proof (induction "length (remaining (mp_src p))" arbitrary: p w rule: less_induct)
  case less
  show ?case
    by (cases rule: getc_cases[OF less.prems]; subst (1 2) read_digits.simps) (use less.hyps in \<open>simp_all add: in_step_def\<close>)
qed

lemmas loop_steps = skip_space_step read_word_step skip_blank_step read_rest_step read_digits_step

lemma next_char_step:
  "inv (mp_src p) \<Longrightarrow> in_step (Some (next_string_char p)) (Some (fst (next_string_char p), at_src remaining (snd (next_string_char p))))"
  by (cases "next_string_char p") (use parser_src_simps(3)[of p] in simp)

lemma string_step: "inv (mp_src p) \<Longrightarrow> in_step (string_command nxt p) (string_command list_next (at_src remaining p))"
  unfolding string_command_def
  by (auto intro!: in_step_bind loop_steps next_char_step split: option.split simp: Let_def)

lemma delay_step: "inv (mp_src p) \<Longrightarrow> in_step (delay_command nxt p) (delay_command list_next (at_src remaining p))"
  unfolding delay_command_def by (auto intro!: in_step_bind loop_steps split: option.split)

text \<open>Every call returns, and it returns what parsing the contents returns.\<close>

lemma next_event_step:
  "inv (mp_src p) \<Longrightarrow> in_step (macro_parser_next_event nxt ok p) (macro_parser_next_event list_next ok (at_src remaining p))"
  unfolding macro_parser_next_event_def
  by (auto intro!: in_step_bind loop_steps string_step delay_step next_char_step split: option.split)

end

section \<open>Sequences of events\<close>

text \<open>The events of at most \<open>n\<close> calls; the last one is the end of the file, if it is reached.\<close>

fun macro_events :: "'s source \<Rightarrow> nat \<Rightarrow> 's macro_parser \<Rightarrow> (macro_event list \<times> 's macro_parser) option" where
  "macro_events next 0 p = Some ([], p)"
| "macro_events next (Suc n) p =
     do { ((st, e), p1) \<leftarrow> macro_parser_next_event next True p;
          if st \<noteq> MK_STATUS_OK \<or> me_type e = MACRO_CMD_EOF then Some ([e], p1)
          else do { (es, p2) \<leftarrow> macro_events next n p1; Some (e # es, p2) } }"

context char_source begin

lemma events_step:
  "inv (mp_src p) \<Longrightarrow> in_step (macro_events nxt n p) (macro_events list_next n (at_src remaining p))"
  by (induction n arbitrary: p) (auto intro!: in_step_bind next_event_step)

end

section \<open>The file is such a source\<close>

definition stream_inv :: "char_stream \<times> vfs \<Rightarrow> bool" where
  "stream_inv s \<longleftrightarrow> (case s of (p, v) \<Rightarrow>
     vfs_ok v \<and> fd_valid (cs_fd p) \<and> fd_is_open (v_files v ! nat (cs_fd p)) \<and> cs_buf_pos p \<le> cs_buf_len p
     \<and> cs_buf_len p \<le> 64 \<and> length (cs_buffer p) = 64)"

text \<open>What is left in the buffer, then what is left in the file\<close>

definition stream_rest :: "char_stream \<times> vfs \<Rightarrow> string" where
  "stream_rest s = (case s of (p, v) \<Rightarrow> let d = v_files v ! nat (cs_fd p) in
     drop (cs_buf_pos p) (take (cs_buf_len p) (cs_buffer p))
     @ (if cs_eof_reached p then [] else chars_of (drop (unat (fd_cursor d)) (file_bytes v (fd_inode_idx d)))))"

lemma chars_of_take: "chars_of (take n xs) = take n (chars_of xs)"
  by (simp add: chars_of_def take_map)

lemma chars_of_Nil [simp]: "chars_of [] = []" "chars_of xs = [] \<longleftrightarrow> xs = []"
  by (simp_all add: chars_of_def)

lemma chars_of_drop: "chars_of (drop n xs) = drop n (chars_of xs)"
  by (simp add: chars_of_def drop_map)

lemma file_bytes_desc [simp]: "file_bytes (set_desc i f v) j = file_bytes v j"
  by (simp add: file_bytes_def sector_def set_desc_def)

lemma rest_after_read:
  assumes "\<not> cs_eof_reached p" and "v_files w ! nat (cs_fd p) = d\<lparr>fd_cursor := x\<rparr>" and "unat x = unat (fd_cursor d) + n"
    and "file_bytes w (fd_inode_idx d) = bs" and "n = length (take 64 (drop (unat (fd_cursor d)) bs))"
  shows "stream_rest (p\<lparr>cs_buffer := chars_of (take 64 (drop (unat (fd_cursor d)) bs)) @ t, cs_buf_len := n, cs_buf_pos := 0\<rparr>, w)
    = chars_of (drop (unat (fd_cursor d)) bs)"
proof -
  let ?f = "drop (unat (fd_cursor d)) bs"
  have "take n ?f = take 64 ?f" unfolding assms(5) by (simp add: min_def)
  then have "take n (chars_of ?f) = take 64 (chars_of ?f)" by (simp only: flip: chars_of_take)
  then have "take 64 (chars_of ?f) @ chars_of (drop n ?f) = chars_of ?f"
    unfolding chars_of_drop by (metis append_take_drop_id)
  moreover have "drop (unat x) bs = drop n ?f" unfolding assms(3) by (simp add: add.commute)
  moreover have "take n (chars_of (take 64 ?f) @ t) = chars_of (take 64 ?f)" unfolding assms(5) by (simp del: length_take)
  ultimately show ?thesis using assms(1,2,4) by (simp add: stream_rest_def Let_def chars_of_take)
qed

lemma refill_spec:
  assumes "stream_inv (p, v)" and "cs_buf_len p \<le> cs_buf_pos p"
  shows "\<exists>ok p' v'. refill_buffer (p, v) = Some (ok, p', v') \<and> stream_inv (p', v') \<and> stream_rest (p', v') = stream_rest (p, v)
    \<and> (ok \<longleftrightarrow> stream_rest (p, v) \<noteq> []) \<and> (ok \<longrightarrow> cs_buf_pos p' < cs_buf_len p')"
proof (cases "cs_eof_reached p")
  case True
  then show ?thesis using assms by (intro exI[of _ False]) (simp add: refill_buffer_def stream_rest_def)
next
  case False
  let ?d = "v_files v ! nat (cs_fd p)" and ?fd = "nat (cs_fd p)"
  let ?f = "drop (unat (fd_cursor ?d)) (file_bytes v (fd_inode_idx ?d))"
  let ?v = "set_desc ?fd (\<lambda>d. d\<lparr>fd_cursor := fd_cursor d + of_nat (length (take 64 ?f))\<rparr>) v"
  have i: "vfs_ok v" "fd_valid (cs_fd p)" "fd_is_open ?d" "length (cs_buffer p) = 64" using assms(1) by (simp_all add: stream_inv_def)
  note ok = vfs_okD[OF i(1)] and df = open_desc_facts[OF i(1-3)]
  have r: "vfs_read (cs_fd p) True (of_nat MACRO_BUFFER_SIZE) True v = Some ((MK_STATUS_OK, Some (take 64 ?f)), ?v)"
    using vfs_read_spec[OF i(1-3), of 64] by (simp add: MACRO_BUFFER_SIZE_def)
  have rest: "stream_rest (p, v) = chars_of ?f" using assms(2) False by (simp add: stream_rest_def Let_def)
  have "length (file_bytes v (fd_inode_idx ?d)) \<le> 4096" by (simp add: file_bytes_def Let_def)
  moreover have "unat (fd_cursor ?d) \<le> 4096" using df(4) by (simp add: word_le_nat_alt)
  ultimately have l: "unat (fd_cursor ?d) + length (take 64 ?f) \<le> 4096" by simp
  then have c: "unat (fd_cursor ?d + of_nat (length (take 64 ?f))) = unat (fd_cursor ?d) + length (take 64 ?f)"
    by (simp add: unat_simps del: length_take)
  have d: "v_files ?v ! ?fd = ?d\<lparr>fd_cursor := fd_cursor ?d + of_nat (length (take 64 ?f))\<rparr>"
    using df(1) ok(7) by (simp add: set_desc_def)
  have v: "vfs_ok ?v" using df l c by (intro vfs_ok_set_desc[OF i(1)]) (simp add: word_le_nat_alt del: length_take)
  show ?thesis
  proof (cases "?f = []")
    case True
    then show ?thesis using False assms r i v d by (intro exI[of _ False]) (simp add: refill_buffer_def rest stream_inv_def stream_rest_def Let_def)
  next
    case nonempty: False
    let ?n = "length (take 64 ?f)"
    let ?p = "p\<lparr>cs_buffer := chars_of (take 64 ?f) @ drop ?n (cs_buffer p), cs_buf_len := ?n, cs_buf_pos := 0\<rparr>"
    have e: "refill_buffer (p, v) = Some (True, ?p, ?v)"
      using False r nonempty by (simp add: refill_buffer_def Let_def del: length_take)
    have iv: "stream_inv (?p, ?v)" using i v d by (simp add: stream_inv_def)
    have "stream_rest (?p, ?v) = chars_of ?f"
      by (rule rest_after_read[OF False d c file_bytes_desc refl])
    then have "stream_rest (?p, ?v) = stream_rest (p, v)" unfolding rest .
    moreover have "stream_rest (p, v) \<noteq> []" "cs_buf_pos ?p < cs_buf_len ?p" using nonempty by (simp_all add: rest)
    ultimately show ?thesis using e iv by blast
  qed
qed

lemma stream_next:
  assumes "stream_inv s"
  shows "\<exists>c s'. get_next_char s = Some (c, s') \<and> stream_inv s' \<and> list_next (stream_rest s) = Some (c, stream_rest s')"
proof -
  have take_one: "\<exists>s'. Some (Some (cs_buffer q ! cs_buf_pos q), q\<lparr>cs_buf_pos := cs_buf_pos q + 1\<rparr>, w) = Some (Some (cs_buffer q ! cs_buf_pos q), s')
      \<and> stream_inv s' \<and> stream_rest (q, w) = cs_buffer q ! cs_buf_pos q # stream_rest s'"
    if q: "stream_inv (q, w)" "cs_buf_pos q < cs_buf_len q" for q w
  proof -
    let ?b = "take (cs_buf_len q) (cs_buffer q)"
    have "cs_buf_pos q < length ?b" using q by (simp add: stream_inv_def)
    then have "drop (cs_buf_pos q) ?b = cs_buffer q ! cs_buf_pos q # drop (Suc (cs_buf_pos q)) ?b"
      using q(2) by (simp add: Cons_nth_drop_Suc[symmetric])
    then show ?thesis using q by (simp add: stream_inv_def stream_rest_def Let_def)
  qed
  obtain p v where s: "s = (p, v)" by (cases s)
  show ?thesis
  proof (cases "cs_buf_len p \<le> cs_buf_pos p")
    case False
    then show ?thesis using take_one[of p v] assms by (auto simp: s get_next_char_def)
  next
    case True
    obtain ok p' v' where r: "refill_buffer (p, v) = Some (ok, p', v')" "stream_inv (p', v')"
      "stream_rest (p', v') = stream_rest (p, v)" "ok \<longleftrightarrow> stream_rest (p, v) \<noteq> []" "ok \<longrightarrow> cs_buf_pos p' < cs_buf_len p'"
      using refill_spec assms True unfolding s by blast
    show ?thesis
    proof (cases ok)
      case False
      then show ?thesis using r True by (simp add: s get_next_char_def)
    next
      case ok: True
      then show ?thesis using take_one[of p' v'] r True by (auto simp: s get_next_char_def)
    qed
  qed
qed

interpretation macro_file: char_source stream_inv stream_rest get_next_char
  by unfold_locales (rule stream_next)

section \<open>What a macro text means\<close>

datatype macro_cmd = Type string | Pause nat | Press_Enter

fun render :: "macro_cmd \<Rightarrow> string" where
  "render (Type s) = ''STRING '' @ s @ LF"
| "render (Pause n) = ''DELAY '' @ show_dec n @ LF"
| "render Press_Enter = ''ENTER'' @ LF"

fun cmd_events :: "macro_cmd \<Rightarrow> macro_event list" where
  "cmd_events (Type s) = map string_char s"
| "cmd_events (Pause n) = [delay_event (of_nat n)]"
| "cmd_events Press_Enter = [enter_event]"

text \<open>A string of 1 to 31 characters on one line that does not begin with a blank, a delay of at most nine digits\<close>

fun cmd_ok :: "macro_cmd \<Rightarrow> bool" where
  "cmd_ok (Type s) \<longleftrightarrow> s \<noteq> [] \<and> length s \<le> 31 \<and> hd s \<notin> {CHR '' '', CHR 0x09} \<and> list_all (\<lambda>c. c \<noteq> nl \<and> c \<noteq> cr) s"
| "cmd_ok (Pause n) \<longleftrightarrow> n < 10 ^ 9"
| "cmd_ok Press_Enter \<longleftrightarrow> True"

definition eof_event :: macro_event where
  "eof_event = macro_event_zero\<lparr>me_type := MACRO_CMD_EOF\<rparr>"

lemma getc_Cons: "mp_src p = c # s \<Longrightarrow> getc list_next p = Some (Some c, p\<lparr>mp_src := s\<rparr>)"
  by (simp add: getc_def)

lemma skip_space_char:
  "mp_src p = c # s \<Longrightarrow> \<not> isspace c \<Longrightarrow> skip_space list_next p = Some (Some c, p\<lparr>mp_src := s\<rparr>)"
  by (subst skip_space.simps) (auto simp: getc_Cons isspace_def)

lemma skip_blank_char:
  "mp_src p = c # s \<Longrightarrow> c \<notin> {CHR '' '', CHR 0x09} \<Longrightarrow> skip_blank list_next p = Some (Some c, p\<lparr>mp_src := s\<rparr>)"
  by (subst skip_blank.simps) (auto simp: getc_Cons)

lemma read_word_to_space:
  "mp_src p = u @ d # r \<Longrightarrow> list_all (\<lambda>c. \<not> isspace c) u \<Longrightarrow> isspace d \<Longrightarrow> length w + length u < 15 \<Longrightarrow>
   \<exists>p'. read_word list_next w p = Some (w @ u, p') \<and> mp_src p' = r \<and> mp_current_str p' = mp_current_str p
     \<and> mp_str_pos p' = mp_str_pos p \<and> mp_str_len p' = mp_str_len p"
proof (induction u arbitrary: p w)
  case Nil
  then show ?case by (subst read_word.simps) (simp add: getc_Cons line_up_def)
next
  case (Cons c u)
  have "read_word list_next w p = read_word list_next (w @ [c]) (p\<lparr>mp_src := u @ d # r\<rparr>)"
    using Cons.prems by (subst read_word.simps) (simp add: getc_Cons)
  then show ?case using Cons.IH[of "p\<lparr>mp_src := u @ d # r\<rparr>" "w @ [c]"] Cons.prems by simp
qed

lemma read_digits_to_end:
  "mp_src p = u @ d # r \<Longrightarrow> list_all isdigit u \<Longrightarrow> \<not> isdigit d \<Longrightarrow> length w + length u \<le> 9 \<Longrightarrow>
   read_digits list_next w p = Some (w @ u, p\<lparr>mp_src := r\<rparr>)"
proof (induction u arbitrary: p w)
  case Nil
  then show ?case by (subst read_digits.simps) (simp add: getc_Cons)
next
  case (Cons c u)
  have "read_digits list_next w p = read_digits list_next (w @ [c]) (p\<lparr>mp_src := u @ d # r\<rparr>)"
    using Cons.prems by (subst read_digits.simps) (simp add: getc_Cons)
  then show ?case using Cons.IH[of "p\<lparr>mp_src := u @ d # r\<rparr>" "w @ [c]"] Cons.prems by simp
qed

text \<open>The characters stored in \<open>current_str\<close>\<close>

definition stored :: "'s macro_parser \<Rightarrow> string \<Rightarrow> bool" where
  "stored p s \<longleftrightarrow> length (mp_current_str p) = 32 \<and> mp_str_len p = length s \<and> take (length s) (mp_current_str p) = s"

lemma stored_push: "stored p s \<Longrightarrow> length s < 32 \<Longrightarrow> stored (push_str c p) (s @ [c])"
  by (simp add: stored_def push_str_def take_Suc_conv_app_nth)

lemma stored_src [simp]: "stored (p\<lparr>mp_src := x\<rparr>) s \<longleftrightarrow> stored p s"
  by (simp add: stored_def)

lemma read_rest_line:
  "mp_src p = u @ nl # r \<Longrightarrow> list_all (\<lambda>c. c \<noteq> nl \<and> c \<noteq> cr) u \<Longrightarrow> stored p s \<Longrightarrow> length s + length u \<le> 31 \<Longrightarrow>
   \<exists>p'. read_rest list_next p = Some (Some nl, p') \<and> mp_src p' = r \<and> stored p' (s @ u) \<and> mp_str_pos p' = mp_str_pos p"
proof (induction u arbitrary: p s)
  case Nil
  then show ?case by (subst read_rest.simps) (simp add: getc_Cons)
next
  case (Cons c u)
  let ?p = "push_str c (p\<lparr>mp_src := u @ nl # r\<rparr>)"
  have "mp_str_len p < 31" using Cons.prems by (simp add: stored_def)
  then have "read_rest list_next p = read_rest list_next ?p"
    using Cons.prems by (subst read_rest.simps) (simp add: getc_Cons)
  moreover have "stored ?p (s @ [c])" using Cons.prems by (intro stored_push) simp_all
  ultimately show ?case using Cons.IH[of ?p "s @ [c]"] Cons.prems by (simp add: push_str_def)
qed

text \<open>No character of a string is pending.\<close>

definition between :: "'s macro_parser \<Rightarrow> bool" where
  "between p \<longleftrightarrow> length (mp_current_str p) = 32 \<and> mp_str_len p \<le> mp_str_pos p"

lemma read_command:
  assumes "between p" and "mp_src p = c # u @ d # r" and "list_all (\<lambda>x. \<not> isspace x) (c # u)" and "isspace d" and "length u < 14"
  obtains p2 where "do { (x, p1) \<leftarrow> skip_space list_next p; read_word list_next [the x] p1 } = Some (c # u, p2)"
    and "skip_space list_next p = Some (Some c, p\<lparr>mp_src := u @ d # r\<rparr>)"
    and "read_word list_next [c] (p\<lparr>mp_src := u @ d # r\<rparr>) = Some (c # u, p2)" and "mp_src p2 = r" and "between p2"
proof -
  have s: "skip_space list_next p = Some (Some c, p\<lparr>mp_src := u @ d # r\<rparr>)"
    using assms(2,3) by (intro skip_space_char) simp_all
  obtain p2 where "read_word list_next [c] (p\<lparr>mp_src := u @ d # r\<rparr>) = Some ([c] @ u, p2)" "mp_src p2 = r"
    "mp_current_str p2 = mp_current_str p" "mp_str_pos p2 = mp_str_pos p" "mp_str_len p2 = mp_str_len p"
    using read_word_to_space[of "p\<lparr>mp_src := u @ d # r\<rparr>" u d r "[c]"] assms(3-5) by auto
  then show thesis using that[of p2] s assms(1) by (simp add: between_def)
qed

lemma next_event_word:
  assumes "between p" and "mp_src p = c # u @ d # r" and "list_all (\<lambda>x. \<not> isspace x) (c # u)" and "isspace d" and "length u < 14"
  shows "\<exists>p2. mp_src p2 = r \<and> between p2 \<and> macro_parser_next_event list_next True p =
     (if strcmp_eq (c # u) ''STRING'' then string_command list_next p2
      else if strcmp_eq (c # u) ''DELAY'' then delay_command list_next p2
      else if strcmp_eq (c # u) ''ENTER'' then Some ((MK_STATUS_OK, enter_event), p2)
      else Some ((MK_STATUS_OK, macro_event_zero), p2))"
proof -
  obtain p2 where p2: "skip_space list_next p = Some (Some c, p\<lparr>mp_src := u @ d # r\<rparr>)"
    "read_word list_next [c] (p\<lparr>mp_src := u @ d # r\<rparr>) = Some (c # u, p2)" "mp_src p2 = r" "between p2"
    using read_command[OF assms] by metis
  then show ?thesis using assms(1) by (intro exI[of _ p2]) (simp add: macro_parser_next_event_def between_def not_less)
qed

lemma word_facts:
  "list_all (\<lambda>x. \<not> isspace x) ''STRING''" "list_all (\<lambda>x. \<not> isspace x) ''DELAY''" "list_all (\<lambda>x. \<not> isspace x) ''ENTER''"
  "isspace (CHR '' '')" "isspace nl" "\<not> isdigit nl"
  "strcmp_eq ''STRING'' ''STRING''" "\<not> strcmp_eq ''DELAY'' ''STRING''" "strcmp_eq ''DELAY'' ''DELAY''"
  "\<not> strcmp_eq ''ENTER'' ''STRING''" "\<not> strcmp_eq ''ENTER'' ''DELAY''" "strcmp_eq ''ENTER'' ''ENTER''"
  by code_simp+

lemmas letters = word_facts(1-3)[simplified]

lemma next_enter:
  assumes "between p" and "mp_src p = render Press_Enter @ r"
  shows "\<exists>p'. macro_parser_next_event list_next True p = Some ((MK_STATUS_OK, enter_event), p') \<and> mp_src p' = r \<and> between p'"
  using next_event_word[of p "CHR ''E''" "''NTER''" nl r] assms by (auto simp: LF_def word_facts letters)

lemma next_delay:
  assumes "between p" and "mp_src p = render (Pause n) @ r" and "cmd_ok (Pause n)"
  shows "\<exists>p'. macro_parser_next_event list_next True p = Some ((MK_STATUS_OK, delay_event (of_nat n)), p') \<and> mp_src p' = r \<and> between p'"
proof -
  obtain c u where cu: "show_dec n = c # u" using show_dec_nonempty[of n] by (cases "show_dec n") auto
  then have d: "isdigit c" "list_all isdigit u" using show_dec_digits[of n] by simp_all
  have l: "length u < 9" using length_show_dec[of n 8] assms(3) by (simp add: cu)
  obtain p2 where p2: "mp_src p2 = c # u @ nl # r" "between p2" "macro_parser_next_event list_next True p = delay_command list_next p2"
    using next_event_word[of p "CHR ''D''" "''ELAY''" "CHR '' ''" "c # u @ nl # r"] assms(1,2) by (auto simp: LF_def word_facts letters cu)
  have s: "skip_space list_next p2 = Some (Some c, p2\<lparr>mp_src := u @ nl # r\<rparr>)"
    using p2(1) isdigit_not[OF d(1)] by (intro skip_space_char) simp_all
  have g: "read_digits list_next [c] (p2\<lparr>mp_src := u @ nl # r\<rparr>) = Some (show_dec n, p2\<lparr>mp_src := r\<rparr>)"
    using read_digits_to_end[of "p2\<lparr>mp_src := u @ nl # r\<rparr>" u nl r "[c]"] d(2) l by (simp add: word_facts cu)
  have "cstr (show_dec n) = show_dec n" using show_dec_no_NUL by (rule cstr_id)
  then have "delay_command list_next p2 = Some ((MK_STATUS_OK, delay_event (of_nat n)), p2\<lparr>mp_src := r\<rparr>)"
    by (simp add: delay_command_def s g)
  then show ?thesis using p2(2,3) by (simp add: between_def)
qed

lemma next_type:
  assumes "between p" and "mp_src p = render (Type s) @ r" and "cmd_ok (Type s)"
  shows "\<exists>p'. macro_parser_next_event list_next True p = Some ((MK_STATUS_OK, string_char (hd s)), p') \<and> mp_src p' = r
    \<and> stored p' s \<and> mp_str_pos p' = 1"
proof -
  obtain c u where cu: "s = c # u" using assms(3) by (cases s) auto
  obtain p2 where p2: "mp_src p2 = c # u @ nl # r" "between p2" "macro_parser_next_event list_next True p = string_command list_next p2"
    using next_event_word[of p "CHR ''S''" "''TRING''" "CHR '' ''" "c # u @ nl # r"] assms(1,2) by (auto simp: LF_def word_facts letters cu)
  let ?p = "p2\<lparr>mp_str_len := 0, mp_str_pos := 0\<rparr>"
  let ?q = "push_str c (?p\<lparr>mp_src := u @ nl # r\<rparr>)"
  have b: "skip_blank list_next ?p = Some (Some c, ?p\<lparr>mp_src := u @ nl # r\<rparr>)"
    using p2(1) assms(3) by (intro skip_blank_char) (simp_all add: cu)
  have "stored (?p\<lparr>mp_src := u @ nl # r\<rparr>) []" using p2(2) by (simp add: stored_def between_def)
  then have "stored ?q ([] @ [c])" by (rule stored_push) simp
  then obtain p3 where p3: "read_rest list_next ?q = Some (Some nl, p3)" "mp_src p3 = r" "stored p3 s" "mp_str_pos p3 = 0"
    using read_rest_line[of ?q u r "[c]"] assms(3) by (auto simp: cu push_str_def)
  have n: "c \<noteq> nl" "c \<noteq> cr" using assms(3) by (simp_all add: cu)
  have c0: "mp_current_str p3 ! 0 = c"
  proof -
    have "take (length s) (mp_current_str p3) ! 0 = s ! 0" using p3(3) by (simp add: stored_def)
    then show ?thesis by (simp add: cu)
  qed
  have "string_command list_next p2 = Some ((MK_STATUS_OK, string_char c), (line_up p3)\<lparr>mp_str_pos := 1\<rparr>)"
    using p3 n c0 by (simp add: string_command_def b next_string_char_def line_up_def stored_def cu)
  then show ?thesis using p2(3) p3(2,3) by (simp add: cu stored_def line_up_def)
qed

lemma string_char_type [simp]: "me_type (string_char c) = MACRO_CMD_STRING_CHAR"
  by (simp add: string_char_def split: prod.splits)

lemma event_types [simp]:
  "me_type (delay_event d) = MACRO_CMD_DELAY" "me_type enter_event = MACRO_CMD_ENTER" "me_type eof_event = MACRO_CMD_EOF"
  by (simp_all add: delay_event_def enter_event_def eof_event_def)

lemma pending_events:
  "stored p s \<Longrightarrow> mp_str_pos p + m = length s \<Longrightarrow>
   macro_events next (m + n) p = do { (es, q) \<leftarrow> macro_events next n (p\<lparr>mp_str_pos := length s\<rparr>);
     Some (map string_char (drop (mp_str_pos p) s) @ es, q) }"
proof (induction m arbitrary: p)
  case 0
  then have e: "p\<lparr>mp_str_pos := length s\<rparr> = p" by simp
  show ?case using 0 unfolding e by (cases "macro_events next n p") auto
next
  case (Suc m)
  let ?k = "mp_str_pos p"
  have k: "?k < length s" using Suc.prems(2) by simp
  then have c: "mp_current_str p ! ?k = s ! ?k" using Suc.prems(1) by (metis nth_take stored_def)
  have e: "macro_parser_next_event next True p = Some ((MK_STATUS_OK, string_char (s ! ?k)), p\<lparr>mp_str_pos := ?k + 1\<rparr>)"
    using k Suc.prems(1) by (simp add: macro_parser_next_event_def next_string_char_def c stored_def)
  have "stored (p\<lparr>mp_str_pos := ?k + 1\<rparr>) s" using Suc.prems(1) by (simp add: stored_def)
  from Suc.IH[OF this] show ?case
    using Suc.prems(2) k by (cases "macro_events next n (p\<lparr>mp_str_pos := length s\<rparr>)") (auto simp: e Cons_nth_drop_Suc[symmetric])
qed

lemma next_eof: "between p \<Longrightarrow> mp_src p = [] \<Longrightarrow> \<exists>p'. macro_parser_next_event list_next True p = Some ((MK_STATUS_OK, eof_event), p')"
  by (subst macro_parser_next_event_def, subst skip_space.simps) (simp add: between_def not_less getc_def eof_event_def)

lemma events_of_text:
  "list_all cmd_ok cs \<Longrightarrow> between p \<Longrightarrow> mp_src p = concat (map render cs) \<Longrightarrow> length (concat (map cmd_events cs)) < n \<Longrightarrow>
   \<exists>p'. macro_events list_next n p = Some (concat (map cmd_events cs) @ [eof_event], p')"
proof (induction cs arbitrary: p n)
  case Nil
  obtain m where "n = Suc m" using Nil.prems(4) by (cases n) auto
  then show ?case using next_eof[of p] Nil.prems(2,3) by auto
next
  case (Cons c cs)
  let ?r = "concat (map render cs)"
  obtain m where n: "n = Suc m" using Cons.prems(4) by (cases n) auto
  show ?case
  proof (cases c)
    case (Type s)
    obtain p1 where p1: "macro_parser_next_event list_next True p = Some ((MK_STATUS_OK, string_char (hd s)), p1)" "mp_src p1 = ?r"
      "stored p1 s" "mp_str_pos p1 = 1" using next_type[of p s ?r] Cons.prems by (auto simp: Type)
    have s: "s \<noteq> []" using Cons.prems(1) by (simp add: Type)
    then obtain l where l: "mp_str_pos p1 + l = length s" using p1(4) by (cases s) auto
    have lm: "length (concat (map cmd_events cs)) < m - l" "l \<le> m" using Cons.prems(4) l p1(4) by (simp_all add: Type n)
    let ?q = "p1\<lparr>mp_str_pos := length s\<rparr>"
    have "between ?q" using p1(3) by (simp add: between_def stored_def)
    then obtain p' where "macro_events list_next (m - l) ?q = Some (concat (map cmd_events cs) @ [eof_event], p')"
      using Cons.IH[of ?q "m - l"] lm Cons.prems(1) p1(2) by auto
    then have "macro_events list_next m p1 = Some (map string_char (drop 1 s) @ concat (map cmd_events cs) @ [eof_event], p')"
      using pending_events[OF p1(3) l, of list_next "m - l"] lm(2) p1(4) by simp
    moreover have "string_char (hd s) # map string_char (drop 1 s) = map string_char s" using s by (cases s) simp_all
    ultimately show ?thesis by (simp add: Type n p1(1))
  next
    case (Pause d)
    obtain p1 where p1: "macro_parser_next_event list_next True p = Some ((MK_STATUS_OK, delay_event (of_nat d)), p1)" "mp_src p1 = ?r" "between p1"
      using next_delay[of p d ?r] Cons.prems by (auto simp: Pause)
    then show ?thesis using Cons.IH[of p1 m] Cons.prems by (auto simp: Pause n)
  next
    case Press_Enter
    obtain p1 where p1: "macro_parser_next_event list_next True p = Some ((MK_STATUS_OK, enter_event), p1)" "mp_src p1 = ?r" "between p1"
      using next_enter[of p ?r] Cons.prems by (auto simp: Press_Enter)
    then show ?thesis using Cons.IH[of p1 m] Cons.prems by (auto simp: Press_Enter n)
  qed
qed

section \<open>Playing a macro file\<close>

lemma open_existing:
  assumes "store_ok v" and "path_ok p" and "vfs_store v (strip_slash p) = Some c"
  shows "\<exists>fd w. vfs_open (Some p) VFS_O_RDONLY True v = ((MK_STATUS_OK, Some (int fd)), w) \<and> fd < 8 \<and> vfs_ok w
    \<and> fd_is_open (v_files w ! fd) \<and> fd_cursor (v_files w ! fd) = 0 \<and> file_bytes w (fd_inode_idx (v_files w ! fd)) = c"
proof -
  let ?n = "strip_slash p"
  have v: "vfs_ok v" "unique_names (sb_inodes (v_sb v))" and fr: "free_desc (v_files v) \<noteq> None"
    using assms(1) by (simp_all add: store_ok_def)
  obtain i where e: "entry (sb_inodes (v_sb v)) ?n i" "c = file_bytes v i" using assms(3) store_entry[OF v] by blast
  obtain fd where fd: "free_desc (v_files v) = Some fd" using fr by blast
  let ?w = "open_desc fd i VFS_O_RDONLY v"
  have fl: "VFS_O_RDONLY AND VFS_O_TRUNC = 0 \<or> VFS_O_RDONLY AND VFS_O_APPEND = 0"
    "VFS_O_RDONLY AND VFS_O_TRUNC = 0" "VFS_O_RDONLY AND VFS_O_APPEND = 0"
    by (simp_all add: VFS_O_RDONLY_def VFS_O_TRUNC_def VFS_O_APPEND_def)
  have o: "vfs_open (Some p) VFS_O_RDONLY True v = ((MK_STATUS_OK, Some (int fd)), ?w)"
    using find_inode_unique[OF v e(1)] fd vfs_okD(1)[OF v(1)] by (simp add: vfs_open_def Let_def)
  have op: "opened ?n VFS_O_RDONLY (vfs_store v) fd i ?w"
    using open_desc_opened[OF v _ e(1) fl(1), of fd] free_descD[OF fd] fl(2) by simp
  have "v_files ?w ! fd = \<lparr>fd_inode_idx = i, fd_cursor = 0, fd_flags = VFS_O_RDONLY, fd_is_open = True\<rparr>"
    using free_descD[OF fd] vfs_okD(7)[OF v(1)] by (simp add: open_desc_def Let_def fl set_desc_def)
  moreover have "file_bytes ?w i = c" by (simp add: open_desc_def Let_def fl e(2))
  ultimately show ?thesis using o op free_descD[OF fd] by (auto simp: opened_def)
qed

lemma macro_file_events:
  assumes "store_ok v" and "path_ok p" and "vfs_store v (strip_slash p) = Some (bytes_of (concat (map render cs)))"
    and "list_all cmd_ok cs" and "length (concat (map cmd_events cs)) < n"
  shows "\<exists>fd w mp mp'. vfs_open (Some p) VFS_O_RDONLY True v = ((MK_STATUS_OK, Some fd), w)
    \<and> macro_parser_init True fd w = (MK_STATUS_OK, Some mp)
    \<and> macro_events get_next_char n mp = Some (concat (map cmd_events cs) @ [eof_event], mp')"
proof -
  obtain fd w where w: "vfs_open (Some p) VFS_O_RDONLY True v = ((MK_STATUS_OK, Some (int fd)), w)" "fd < 8" "vfs_ok w"
    "fd_is_open (v_files w ! fd)" "fd_cursor (v_files w ! fd) = 0"
    "file_bytes w (fd_inode_idx (v_files w ! fd)) = bytes_of (concat (map render cs))" using open_existing[OF assms(1-3)] by blast
  obtain mp where mp: "macro_parser_init True (int fd) w = (MK_STATUS_OK, Some mp)" by (simp add: macro_parser_init_def)
  have i: "stream_inv (mp_src mp)" and r: "stream_rest (mp_src mp) = concat (map render cs)" and l: "between mp"
    using mp w by (auto simp: macro_parser_init_def stream_inv_def stream_rest_def Let_def fd_valid_def VFS_MAX_OPEN_FILES_def
        MACRO_BUFFER_SIZE_def between_def)
  have "between (at_src stream_rest mp)" using l by (simp add: between_def)
  then obtain q where "macro_events list_next n (at_src stream_rest mp) = Some (concat (map cmd_events cs) @ [eof_event], q)"
    using events_of_text[OF assms(4), of "at_src stream_rest mp" n] assms(5) r by auto
  then show ?thesis using macro_file.events_step[OF i, of n] w(1) mp unfolding macro_file.in_step_def by force
qed

text \<open>A macro file is played exactly: the commands written in the file, in order, are the events the
  parser delivers, wherever the 64-byte buffer cuts them, and after them it reports the end of the file.\<close>

theorem macro_file_played:
  assumes "store_ok v" and "path_ok p" and "vfs_store v (strip_slash p) = Some (bytes_of (concat (map render cs)))"
    and "list_all cmd_ok cs" and "length (concat (map cmd_events cs)) < n"
  shows "\<exists>fd w mp mp'. vfs_open (Some p) VFS_O_RDONLY True v = ((MK_STATUS_OK, Some fd), w)
    \<and> macro_parser_init True fd w = (MK_STATUS_OK, Some mp)
    \<and> macro_events get_next_char n mp = Some (concat (map cmd_events cs) @ [eof_event], mp')"
  using macro_file_events[OF assms] .

text \<open>The default macro file\<close>

theorem macro_file_played_witness:
  "\<exists>v fd w mp mp'. vfs_init None (vfs_static, fault_manager_static) = (MK_STATUS_OK, v, fault_manager_static)
     \<and> vfs_open (Some ''macro.txt'') VFS_O_RDONLY True v = ((MK_STATUS_OK, Some fd), w)
     \<and> macro_parser_init True fd w = (MK_STATUS_OK, Some mp)
     \<and> macro_events get_next_char 20 mp = Some (map string_char ''Hello MicroKernel'' @ [delay_event 200, enter_event, eof_event], mp')"
proof -
  let ?cs = "[Type ''Hello MicroKernel'', Pause 200, Press_Enter]"
  have "crc_table_ok (v_blk vfs_static)" by (simp add: crc_table_ok_def vfs_static_def vblock_static_def)
  then obtain v where v: "vfs_init None (vfs_static, fault_manager_static) = (MK_STATUS_OK, v, fault_manager_static)" "store_ok v"
    "vfs_store v = initial_store" using vfs_init_store by blast
  have "show_dec 200 = ''200''" by code_simp
  then have "concat (map render ?cs) = default_macro" by (simp add: default_macro_def LF_def)
  then have c: "vfs_store v (strip_slash ''macro.txt'') = Some (bytes_of (concat (map render ?cs)))"
    unfolding v(3) by (simp add: initial_store_def strip_slash_def)
  have "path_ok ''macro.txt''" by (simp add: path_ok_def strip_slash_def NUL_def)
  then show ?thesis using macro_file_played[OF v(2) _ c, of 20] v(1) by simp
qed

end
