(* ===== verification/Ble_Hid.thy ===== *)
theory Ble_Hid
  imports Macro_Parser
begin

text \<open>
  \<^verbatim>\<open>os/apps/ble_hid/ble_hid.c\<close>: the keyboard application. When a host is connected it opens
  \<^verbatim>\<open>macro.txt\<close> and types it, one report per slice.
\<close>

section \<open>State and operations\<close>

datatype ble_app_internal_state =
    BLE_APP_STATE_UNINIT | BLE_APP_STATE_WAIT_CONNECTION | BLE_APP_STATE_OPEN_FILE | BLE_APP_STATE_PARSE
  | BLE_APP_STATE_RELEASE | BLE_APP_STATE_DELAY | BLE_APP_STATE_COOLDOWN

text \<open>The parser keeps its stream; the file system it reads from is that of the system.\<close>

record ble_app =
  ba_state :: ble_app_internal_state
  ba_parser :: "char_stream macro_parser"
  ba_macro_fd :: int
  ba_delay_remaining_ticks :: u32

definition ble_app_static :: ble_app where
  "ble_app_static = \<lparr>ba_state = BLE_APP_STATE_UNINIT,
     ba_parser = \<lparr>mp_src = \<lparr>cs_fd = 0, cs_buffer = replicate MACRO_BUFFER_SIZE NUL, cs_buf_len = 0, cs_buf_pos = 0,
         cs_eof_reached = False\<rparr>, mp_line_number = 0, mp_current_str = replicate 32 NUL, mp_str_pos = 0, mp_str_len = 0\<rparr>,
     ba_macro_fd = - 1, ba_delay_remaining_ticks = 0\<rparr>"

definition on_vfs :: "vfs \<Rightarrow> char_stream macro_parser \<Rightarrow> (char_stream \<times> vfs) macro_parser" where
  "on_vfs v p = at_src (\<lambda>s. (s, v)) p"

definition off_vfs :: "(char_stream \<times> vfs) macro_parser \<Rightarrow> char_stream macro_parser" where
  "off_vfs p = at_src fst p"

definition ble_hid_init :: "ble_app \<Rightarrow> mk_status \<times> ble_app" where
  "ble_hid_init a =
     (MK_STATUS_OK, a\<lparr>ba_state := BLE_APP_STATE_WAIT_CONNECTION, ba_macro_fd := - 1, ba_delay_remaining_ticks := 0\<rparr>)"

definition ble_hid_start :: "ble_app \<times> ble \<Rightarrow> mk_status \<times> ble_app \<times> ble" where
  "ble_hid_start s =
     (case s of (a, b) \<Rightarrow> case hal_ble_start_advertising b of (st, b1) \<Rightarrow>
        (st, if st = MK_STATUS_OK then a\<lparr>ba_state := BLE_APP_STATE_WAIT_CONNECTION\<rparr> else a, b1))"

definition close_macro :: "ble_app \<times> vfs \<Rightarrow> ble_app \<times> vfs" where
  "close_macro s =
     (case s of (a, v) \<Rightarrow>
      if 0 \<le> ba_macro_fd a then (a\<lparr>ba_macro_fd := - 1\<rparr>, snd (vfs_close (ba_macro_fd a) v)) else (a, v))"

definition ble_hid_stop :: "ble_app \<times> ble \<times> vfs \<Rightarrow> mk_status \<times> ble_app \<times> ble \<times> vfs" where
  "ble_hid_stop s =
     (case s of (a, b, v) \<Rightarrow> case close_macro (a, v) of (a1, v1) \<Rightarrow>
        (MK_STATUS_OK, a1\<lparr>ba_state := BLE_APP_STATE_WAIT_CONNECTION\<rparr>, snd (hal_ble_stop_advertising b), v1))"

text \<open>The state \<open>BLE_APP_STATE_PARSE\<close>; \<open>None\<close> is an access outside the sector buffer.\<close>

definition parse_slice :: "bool \<Rightarrow> ble_app \<times> ble \<times> vfs \<Rightarrow> (ble_app \<times> ble \<times> vfs) option" where
  "parse_slice esp s =
     (case s of (a0, b, v0) \<Rightarrow>
      do { ((st, evt), p) \<leftarrow> macro_parser_next_event get_next_char True (on_vfs v0 (ba_parser a0));
           let a = a0\<lparr>ba_parser := off_vfs p\<rparr>;
           let v = snd (mp_src p);
           if st \<noteq> MK_STATUS_OK \<or> me_type evt = MACRO_CMD_EOF \<or> me_type evt = MACRO_CMD_ERROR
           then case close_macro (a, v) of (a1, v1) \<Rightarrow>
                  Some (a1\<lparr>ba_delay_remaining_ticks := 100, ba_state := BLE_APP_STATE_COOLDOWN\<rparr>, b, v1)
           else if me_type evt = MACRO_CMD_STRING_CHAR \<or> me_type evt = MACRO_CMD_ENTER \<or> me_type evt = MACRO_CMD_KEY
           then (if me_keycode evt \<noteq> HAL_BLE_KEY_NONE
                 then Some (a\<lparr>ba_state := BLE_APP_STATE_RELEASE\<rparr>, snd (hal_ble_send_key esp (me_modifier evt) (me_keycode evt) b), v)
                 else Some (a, b, v))
           else if me_type evt = MACRO_CMD_DELAY
           then Some (a\<lparr>ba_delay_remaining_ticks := me_delay_ms evt div 10 + 1, ba_state := BLE_APP_STATE_DELAY\<rparr>, b, v)
           else Some (a, b, v) })"

definition ble_hid_task :: "bool \<Rightarrow> ble_app \<times> ble \<times> vfs \<Rightarrow> (ble_app \<times> ble \<times> vfs) option" where
  "ble_hid_task esp s =
     (case s of (a, b, v) \<Rightarrow>
      case ba_state a of
        BLE_APP_STATE_WAIT_CONNECTION \<Rightarrow>
          Some (if hal_ble_is_connected esp b then a\<lparr>ba_state := BLE_APP_STATE_OPEN_FILE\<rparr> else a, b, v)
      | BLE_APP_STATE_OPEN_FILE \<Rightarrow>
          (case vfs_open (Some ''macro.txt'') VFS_O_RDONLY True v of
             ((st, fd), v1) \<Rightarrow>
               if st = MK_STATUS_OK
               then Some (a\<lparr>ba_macro_fd := the fd,
                            ba_parser := (case macro_parser_init True (the fd) v1 of
                                            (_, Some p) \<Rightarrow> off_vfs p | (_, None) \<Rightarrow> ba_parser a),
                            ba_state := BLE_APP_STATE_PARSE\<rparr>, b, v1)
               else Some (a\<lparr>ba_delay_remaining_ticks := 50, ba_state := BLE_APP_STATE_COOLDOWN\<rparr>, b, v1))
      | BLE_APP_STATE_PARSE \<Rightarrow> parse_slice esp s
      | BLE_APP_STATE_RELEASE \<Rightarrow>
          Some (a\<lparr>ba_state := BLE_APP_STATE_PARSE\<rparr>, snd (hal_ble_send_release esp b), v)
      | BLE_APP_STATE_DELAY \<Rightarrow>
          Some (if 0 < ba_delay_remaining_ticks a
                then a\<lparr>ba_delay_remaining_ticks := ba_delay_remaining_ticks a - 1\<rparr>
                else a\<lparr>ba_state := BLE_APP_STATE_PARSE\<rparr>, b, v)
      | BLE_APP_STATE_COOLDOWN \<Rightarrow>
          Some (if 0 < ba_delay_remaining_ticks a
                then a\<lparr>ba_delay_remaining_ticks := ba_delay_remaining_ticks a - 1\<rparr>
                else a\<lparr>ba_state := BLE_APP_STATE_WAIT_CONNECTION\<rparr>, b, v)
      | BLE_APP_STATE_UNINIT \<Rightarrow> Some (a\<lparr>ba_state := BLE_APP_STATE_WAIT_CONNECTION\<rparr>, b, v))"

definition ble_hid_handle_event :: "mk_event option \<Rightarrow> ble_app \<Rightarrow> ble_app" where
  "ble_hid_handle_event event a =
     (case event of
        None \<Rightarrow> a
      | Some e \<Rightarrow> if ev_type e = MK_EVENT_BLE_CONNECTED then a\<lparr>ba_state := BLE_APP_STATE_OPEN_FILE\<rparr>
                  else if ev_type e = MK_EVENT_BLE_DISCONNECTED then a\<lparr>ba_state := BLE_APP_STATE_WAIT_CONNECTION\<rparr>
                  else a)"

section \<open>Typing\<close>

fun slices :: "bool \<Rightarrow> nat \<Rightarrow> ble_app \<times> ble \<times> vfs \<Rightarrow> (ble_app \<times> ble \<times> vfs) option" where
  "slices esp 0 s = Some s"
| "slices esp (Suc n) s = do { s1 \<leftarrow> ble_hid_task esp s; slices esp n s1 }"

lemma slices_add: "slices esp (m + n) s = do { s1 \<leftarrow> slices esp m s; slices esp n s1 }"
  by (induction m arbitrary: s) (simp_all add: bind_assoc split: Option.bind_split)

text \<open>A key that has a code is pressed and released.\<close>

definition reports_of :: "macro_event \<Rightarrow> hal_ble_hid_report list" where
  "reports_of e =
     (if me_type e \<in> {MACRO_CMD_STRING_CHAR, MACRO_CMD_ENTER, MACRO_CMD_KEY} \<and> me_keycode e \<noteq> HAL_BLE_KEY_NONE
      then [key_report (me_modifier e) (me_keycode e), key_report 0 0] else [])"

lemma send_connected:
  assumes "hal_ble_is_connected esp b"
  shows "snd (hal_ble_send_key esp m k b) = b\<lparr>bl_reports := bl_reports b @ [key_report m k]\<rparr>"
    and "snd (hal_ble_send_release esp b) = b\<lparr>bl_reports := bl_reports b @ [key_report 0 0]\<rparr>"
  using assms by (simp_all add: hal_ble_send_key_def hal_ble_send_release_def hal_ble_send_report_def)

lemma connected_reports [simp]: "hal_ble_is_connected esp (b\<lparr>bl_reports := r\<rparr>) = hal_ble_is_connected esp b"
  by (simp add: hal_ble_is_connected_def)

lemma delay_slices:
  "ba_state a = BLE_APP_STATE_DELAY \<Longrightarrow> unat (ba_delay_remaining_ticks a) = n \<Longrightarrow>
   slices esp (Suc n) (a, b, v) = Some (a\<lparr>ba_delay_remaining_ticks := 0, ba_state := BLE_APP_STATE_PARSE\<rparr>, b, v)"
proof (induction n arbitrary: a)
  case 0
  then have "ba_delay_remaining_ticks a = 0" by (simp add: unat_eq_0)
  then show ?case using 0(1) by (simp add: ble_hid_task_def)
next
  case (Suc n)
  then have d: "ba_delay_remaining_ticks a \<noteq> 0" by auto
  then have "unat (ba_delay_remaining_ticks a - 1) = n" using Suc.prems(2) unat_pred_pos by fastforce
  then have "slices esp (Suc n) (a\<lparr>ba_delay_remaining_ticks := ba_delay_remaining_ticks a - 1\<rparr>, b, v)
      = Some (a\<lparr>ba_delay_remaining_ticks := 0, ba_state := BLE_APP_STATE_PARSE\<rparr>, b, v)"
    using Suc.IH[of "a\<lparr>ba_delay_remaining_ticks := ba_delay_remaining_ticks a - 1\<rparr>"] Suc.prems(1) by simp
  then show ?case using Suc.prems(1) d by (simp only: slices.simps) (simp add: ble_hid_task_def word_gt_0)
qed

lemma on_off_vfs [simp]: "on_vfs (snd (mp_src p)) (off_vfs p) = p"
  by (simp add: on_vfs_def off_vfs_def at_src_def)

text \<open>One event is typed in the state PARSE and the slices after it.\<close>

lemma type_event:
  assumes "ba_state a = BLE_APP_STATE_PARSE" and "hal_ble_is_connected esp b"
    and "macro_parser_next_event get_next_char True (on_vfs v (ba_parser a)) = Some ((MK_STATUS_OK, e), p)"
    and "me_type e \<noteq> MACRO_CMD_EOF" and "me_type e \<noteq> MACRO_CMD_ERROR"
  shows "\<exists>k d. slices esp k (a, b, v) = Some (a\<lparr>ba_parser := off_vfs p, ba_delay_remaining_ticks := d\<rparr>,
    b\<lparr>bl_reports := bl_reports b @ reports_of e\<rparr>, snd (mp_src p))"
proof -
  let ?a = "a\<lparr>ba_parser := off_vfs p\<rparr>" and ?v = "snd (mp_src p)"
  have t: "ble_hid_task esp (a, b, v) = parse_slice esp (a, b, v)" using assms(1) by (simp add: ble_hid_task_def)
  consider (key) "me_type e \<in> {MACRO_CMD_STRING_CHAR, MACRO_CMD_ENTER, MACRO_CMD_KEY}" "me_keycode e \<noteq> HAL_BLE_KEY_NONE"
    | (delay) "me_type e = MACRO_CMD_DELAY"
    | (other) "me_type e \<noteq> MACRO_CMD_DELAY" "me_type e \<in> {MACRO_CMD_STRING_CHAR, MACRO_CMD_ENTER, MACRO_CMD_KEY} \<longrightarrow> me_keycode e = HAL_BLE_KEY_NONE"
    by blast
  then show ?thesis
  proof cases
    case key
    then have "parse_slice esp (a, b, v) = Some (?a\<lparr>ba_state := BLE_APP_STATE_RELEASE\<rparr>,
        b\<lparr>bl_reports := bl_reports b @ [key_report (me_modifier e) (me_keycode e)]\<rparr>, ?v)"
      using assms(3-5) send_connected[OF assms(2)] by (auto simp: parse_slice_def Let_def)
    then have "slices esp 2 (a, b, v) = Some (a\<lparr>ba_parser := off_vfs p\<rparr>, b\<lparr>bl_reports := bl_reports b @ reports_of e\<rparr>, ?v)"
      using key t assms(1,2) by (simp add: numeral_2_eq_2) (simp add: ble_hid_task_def send_connected reports_of_def)
    then show ?thesis by (intro exI[of _ 2] exI[of _ "ba_delay_remaining_ticks a"]) simp
  next
    case delay
    let ?d = "me_delay_ms e div 10 + 1"
    have p: "parse_slice esp (a, b, v) = Some (?a\<lparr>ba_delay_remaining_ticks := ?d, ba_state := BLE_APP_STATE_DELAY\<rparr>, b, ?v)"
      using delay assms(3) by (simp add: parse_slice_def Let_def)
    have "slices esp (Suc (unat ?d)) (?a\<lparr>ba_delay_remaining_ticks := ?d, ba_state := BLE_APP_STATE_DELAY\<rparr>, b, ?v)
        = Some (?a\<lparr>ba_delay_remaining_ticks := 0\<rparr>, b, ?v)"
      using delay_slices[of "?a\<lparr>ba_delay_remaining_ticks := ?d, ba_state := BLE_APP_STATE_DELAY\<rparr>" "unat ?d" esp b ?v] assms(1) by simp
    then have "slices esp (Suc (Suc (unat ?d))) (a, b, v) = Some (?a\<lparr>ba_delay_remaining_ticks := 0\<rparr>, b, ?v)"
      using p t by (simp only: slices.simps(2)) simp
    then show ?thesis using delay by (intro exI[of _ "Suc (Suc (unat ?d))"] exI[of _ 0]) (simp add: reports_of_def)
  next
    case other
    then have "parse_slice esp (a, b, v) = Some (?a, b, ?v)" using assms(3-5) by (auto simp: parse_slice_def Let_def)
    moreover have "reports_of e = []" using other by (auto simp: reports_of_def)
    ultimately show ?thesis using t by (intro exI[of _ 1] exI[of _ "ba_delay_remaining_ticks a"]) simp
  qed
qed

definition playable :: "macro_event \<Rightarrow> bool" where
  "playable e \<longleftrightarrow> me_type e \<noteq> MACRO_CMD_EOF \<and> me_type e \<noteq> MACRO_CMD_ERROR"

lemma next_event_ok: "macro_parser_next_event next True p = Some ((st, e), p1) \<Longrightarrow> st = MK_STATUS_OK"
  by (auto simp: macro_parser_next_event_def next_string_char_def string_command_def delay_command_def Let_def
      split: if_splits option.splits Option.bind_splits prod.splits)

text \<open>The events of a whole file are typed, then the file is closed.\<close>

lemma type_events:
  "ba_state a = BLE_APP_STATE_PARSE \<Longrightarrow> hal_ble_is_connected esp b \<Longrightarrow> list_all playable es \<Longrightarrow> me_type z = MACRO_CMD_EOF \<Longrightarrow>
   macro_events get_next_char n (on_vfs v (ba_parser a)) = Some (es @ [z], q) \<Longrightarrow>
   \<exists>k a' v'. slices esp k (a, b, v) = Some (a', b\<lparr>bl_reports := bl_reports b @ concat (map reports_of es)\<rparr>, v')
     \<and> ba_state a' = BLE_APP_STATE_COOLDOWN \<and> ba_macro_fd a' < 0"
proof (induction es arbitrary: a b v n)
  case Nil
  obtain m where n: "n = Suc m" using Nil.prems(5) by (cases n) auto
  obtain p1 where e: "macro_parser_next_event get_next_char True (on_vfs v (ba_parser a)) = Some ((MK_STATUS_OK, z), p1)"
    using Nil.prems(5) next_event_ok by (fastforce simp: n split: Option.bind_splits if_splits)
  obtain a1 v1 where c: "close_macro (a\<lparr>ba_parser := off_vfs p1\<rparr>, snd (mp_src p1)) = (a1, v1)" by (metis surj_pair)
  have "ble_hid_task esp (a, b, v) = Some (a1\<lparr>ba_delay_remaining_ticks := 100, ba_state := BLE_APP_STATE_COOLDOWN\<rparr>, b, v1)"
    using Nil.prems(1,4) e c by (simp add: ble_hid_task_def parse_slice_def Let_def)
  moreover have "ba_macro_fd a1 < 0" using c by (auto simp: close_macro_def split: if_splits)
  ultimately show ?case
    by (intro exI[of _ 1] exI[of _ "a1\<lparr>ba_delay_remaining_ticks := 100, ba_state := BLE_APP_STATE_COOLDOWN\<rparr>"] exI[of _ v1]) simp
next
  case (Cons e es)
  obtain m where n: "n = Suc m" using Cons.prems(5) by (cases n) auto
  obtain p1 where e: "macro_parser_next_event get_next_char True (on_vfs v (ba_parser a)) = Some ((MK_STATUS_OK, e), p1)"
    and r: "macro_events get_next_char m p1 = Some (es @ [z], q)"
    using Cons.prems(5) next_event_ok by (fastforce simp: n split: Option.bind_splits if_splits)
  obtain k d where k: "slices esp k (a, b, v) = Some (a\<lparr>ba_parser := off_vfs p1, ba_delay_remaining_ticks := d\<rparr>,
      b\<lparr>bl_reports := bl_reports b @ reports_of e\<rparr>, snd (mp_src p1))"
    using type_event[OF Cons.prems(1,2) e] Cons.prems(3) by (auto simp: playable_def)
  let ?a = "a\<lparr>ba_parser := off_vfs p1, ba_delay_remaining_ticks := d\<rparr>" and ?b = "b\<lparr>bl_reports := bl_reports b @ reports_of e\<rparr>"
  obtain l a' v' where l: "slices esp l (?a, ?b, snd (mp_src p1)) = Some (a', ?b\<lparr>bl_reports := bl_reports ?b @ concat (map reports_of es)\<rparr>, v')"
    "ba_state a' = BLE_APP_STATE_COOLDOWN" "ba_macro_fd a' < 0"
    using Cons.IH[of ?a ?b m "snd (mp_src p1)"] Cons.prems r by auto
  have "slices esp (k + l) (a, b, v) = Some (a', b\<lparr>bl_reports := bl_reports b @ concat (map reports_of (e # es))\<rparr>, v')"
    using k l(1) by (simp add: slices_add)
  then show ?case using l(2,3) by blast
qed

text \<open>The keys of a macro\<close>

definition macro_reports :: "macro_cmd list \<Rightarrow> hal_ble_hid_report list" where
  "macro_reports cs = concat (map reports_of (concat (map cmd_events cs)))"

lemma cmd_events_playable: "list_all playable (cmd_events c)"
  by (cases c) (simp_all add: playable_def list_all_iff)



text \<open>When the link drops between a press and its release, the release is lost: its status is ignored.\<close>

lemma release_lost:
  assumes "ba_state a = BLE_APP_STATE_RELEASE" and "\<not> hal_ble_is_connected esp b"
  shows "ble_hid_task esp (a, b, v) = Some (a\<lparr>ba_state := BLE_APP_STATE_PARSE\<rparr>, b, v)"
  using assms by (simp add: ble_hid_task_def hal_ble_send_release_def hal_ble_send_report_def)

end
