(* ===== verification/Protocol_Service.thy ===== *)
theory Protocol_Service
  imports Kernel_Exec Memory_Manager Host_Protocol Bounded_Fifo Retro_Games Wifi_Diagnostics Network_Diagnostics Ble_Hid
begin

text \<open>
  \<^verbatim>\<open>os/protocol/protocol_service.c\<close>: the service that talks to the host. It decodes command frames, carries
  them out and answers with message frames. The transport is that of the host build, two rings of bytes
  that stand for the serial port.
\<close>

section \<open>State\<close>

definition MOCK_BUFFER_SIZE :: nat where "MOCK_BUFFER_SIZE = 2048"

record mock_ring =
  mr_buf :: "u8 list"
  mr_head :: nat
  mr_tail :: nat

record proto =
  pr_parser :: slvr_parser
  pr_connected :: bool
  pr_tx_seq :: u8
  pr_rx_frames :: u32
  pr_tx_frames :: u32
  pr_last_status_tick :: u32
  pr_last_game_tick :: u32
  pr_game_frame_seq :: u32
  pr_mock_rx :: mock_ring
  pr_mock_tx :: mock_ring

text \<open>The whole firmware: the kernel and the statics of the other components. The GPIO table is in the
  state of the game input.\<close>

record sliver = kern +
  sl_mem :: memory
  sl_wifi :: wifi
  sl_ble :: ble
  sl_vfs :: vfs
  sl_ble_app :: ble_app
  sl_wifi_diag :: wifi_diag
  sl_net_diag :: net_diag
  sl_games :: games
  sl_proto :: proto

definition mock_ring_static :: mock_ring where
  "mock_ring_static = \<lparr>mr_buf = replicate MOCK_BUFFER_SIZE 0, mr_head = 0, mr_tail = 0\<rparr>"

text \<open>The values before \<open>main\<close>; the argument is the address the linker gave to the arena.\<close>

definition proto_static :: proto where
  "proto_static = \<lparr>pr_parser = \<lparr>sp_state = SLVR_PARSE_STATE_MAGIC_0, sp_frame = slvr_frame_zero, sp_payload_idx = 0,
       sp_dropped_bytes = 0, sp_frames_received = 0, sp_crc_errors = 0\<rparr>, pr_connected = False, pr_tx_seq = 0,
     pr_rx_frames = 0, pr_tx_frames = 0, pr_last_status_tick = 0, pr_last_game_tick = 0, pr_game_frame_seq = 0,
     pr_mock_rx = mock_ring_static, pr_mock_tx = mock_ring_static\<rparr>"

definition sliver_static :: "u32 \<Rightarrow> sliver" where
  "sliver_static arena = \<lparr>sc_kernel = mk_kernel_zero, sc_cursor = 0, sc_fm = fault_manager_static, kn_booted = False,
     sl_mem = \<lparr>mm_arena = arena, mm_mem = (\<lambda>_. 0), mm_head = 0, mm_initialized = False, mm_stats = mem_stats_zero\<rparr>,
     sl_wifi = wifi_static, sl_ble = ble_static, sl_vfs = vfs_static, sl_ble_app = ble_app_static,
     sl_wifi_diag = wifi_diag_static, sl_net_diag = net_diag_static, sl_games = games_static, sl_proto = proto_static\<rparr>"

definition set_proto :: "(proto \<Rightarrow> proto) \<Rightarrow> 'a sliver_scheme \<Rightarrow> 'a sliver_scheme" where
  "set_proto f s = s\<lparr>sl_proto := f (sl_proto s)\<rparr>"

section \<open>The transport\<close>

text \<open>One byte into a ring, or dropped when the ring is full; one byte out of it\<close>

definition mock_put :: "u8 \<Rightarrow> mock_ring \<Rightarrow> bool \<times> mock_ring" where
  "mock_put b r =
     (let next = (mr_head r + 1) mod MOCK_BUFFER_SIZE
      in if next \<noteq> mr_tail r then (True, r\<lparr>mr_buf := (mr_buf r)[mr_head r := b], mr_head := next\<rparr>) else (False, r))"

definition mock_get :: "mock_ring \<Rightarrow> u8 option \<times> mock_ring" where
  "mock_get r =
     (if mr_tail r \<noteq> mr_head r
      then (Some (mr_buf r ! mr_tail r), r\<lparr>mr_tail := (mr_tail r + 1) mod MOCK_BUFFER_SIZE\<rparr>) else (None, r))"

definition mock_write :: "u8 list \<Rightarrow> mock_ring \<Rightarrow> mock_ring" where
  "mock_write bs r = fold (\<lambda>b r. snd (mock_put b r)) bs r"

definition write_raw_bytes :: "u8 list option \<Rightarrow> 'a sliver_scheme \<Rightarrow> 'a sliver_scheme" where
  "write_raw_bytes data s =
     (case data of
        None \<Rightarrow> s
      | Some bs \<Rightarrow> if length bs = 0 then s else set_proto (\<lambda>p. p\<lparr>pr_mock_tx := mock_write bs (pr_mock_tx p)\<rparr>) s)"

text \<open>\<open>raw\<close> is an array of \<open>SLVR_MAX_FRAME_LEN\<close> bytes of which only those written are read.\<close>

definition SLVR_MAX_FRAME_LEN :: nat where "SLVR_MAX_FRAME_LEN = 524"

definition protocol_service_send_frame :: "slvr_frame option \<Rightarrow> 'a sliver_scheme \<Rightarrow> mk_status \<times> 'a sliver_scheme" where
  "protocol_service_send_frame frame s =
     (case frame of
        None \<Rightarrow> (MK_STATUS_INVALID_ARG, s)
      | Some f \<Rightarrow>
          (case slvr_encode_frame True f (replicate SLVR_MAX_FRAME_LEN 0) SLVR_MAX_FRAME_LEN of
             (status, raw, out_len) \<Rightarrow>
               if status \<noteq> MK_STATUS_OK then (status, s)
               else (MK_STATUS_OK, set_proto (\<lambda>p. p\<lparr>pr_tx_frames := pr_tx_frames p + 1\<rparr>)
                       (write_raw_bytes (Some (take (the out_len) raw)) s))))"

definition SLVR_FLAG_NONE :: u8 where "SLVR_FLAG_NONE = 0x00"

text \<open>The payload is \<open>None\<close> when the pointer is NULL, otherwise the bytes it points to, at least \<open>len\<close> of them.
  Frame bytes behind the payload are not initialised in the code and are never sent.\<close>

definition send_typed_message :: "u8 \<Rightarrow> u8 list option \<Rightarrow> u16 \<Rightarrow> 'a sliver_scheme \<Rightarrow> mk_status \<times> 'a sliver_scheme" where
  "send_typed_message type payload len s =
     (let n = (if SLVR_MAX_PAYLOAD_LEN < len then SLVR_MAX_PAYLOAD_LEN else len);
          data = (case payload of None \<Rightarrow> [] | Some bs \<Rightarrow> take (unat n) bs)
      in protocol_service_send_frame
           (Some \<lparr>sf_version = SLVR_VERSION_1, sf_type = type, sf_flags = SLVR_FLAG_NONE,
              sf_sequence = pr_tx_seq (sl_proto s), sf_length = n,
              sf_payload = data @ replicate (512 - length data) 0, sf_crc16 = 0\<rparr>)
           (set_proto (\<lambda>p. p\<lparr>pr_tx_seq := pr_tx_seq p + 1\<rparr>) s))"

section \<open>Message types\<close>

definition SLVR_MSG_HELLO :: u8 where "SLVR_MSG_HELLO = 0x01"
definition SLVR_MSG_DEVICE_INFO :: u8 where "SLVR_MSG_DEVICE_INFO = 0x02"
definition SLVR_MSG_APP_STATE :: u8 where "SLVR_MSG_APP_STATE = 0x05"
definition SLVR_MSG_DEVICE_STATUS :: u8 where "SLVR_MSG_DEVICE_STATUS = 0x06"
definition SLVR_MSG_MEMORY_STATUS :: u8 where "SLVR_MSG_MEMORY_STATUS = 0x07"
definition SLVR_MSG_STORAGE_STATUS :: u8 where "SLVR_MSG_STORAGE_STATUS = 0x08"
definition SLVR_MSG_LOG :: u8 where "SLVR_MSG_LOG = 0x09"
definition SLVR_MSG_PONG :: u8 where "SLVR_MSG_PONG = 0x0C"
definition SLVR_MSG_GAME_STATE :: u8 where "SLVR_MSG_GAME_STATE = 0x0D"
definition SLVR_MSG_TERMINAL_OUTPUT :: u8 where "SLVR_MSG_TERMINAL_OUTPUT = 0x0E"

definition SLVR_CMD_CONNECT :: u8 where "SLVR_CMD_CONNECT = 0x81"
definition SLVR_CMD_GET_INFO :: u8 where "SLVR_CMD_GET_INFO = 0x82"
definition SLVR_CMD_GET_STATUS :: u8 where "SLVR_CMD_GET_STATUS = 0x83"
definition SLVR_CMD_LAUNCH_APP :: u8 where "SLVR_CMD_LAUNCH_APP = 0x84"
definition SLVR_CMD_EXIT_APP :: u8 where "SLVR_CMD_EXIT_APP = 0x85"
definition SLVR_CMD_APP_INPUT :: u8 where "SLVR_CMD_APP_INPUT = 0x86"
definition SLVR_CMD_TERMINAL_INPUT :: u8 where "SLVR_CMD_TERMINAL_INPUT = 0x8A"
definition SLVR_CMD_RESET :: u8 where "SLVR_CMD_RESET = 0x8C"
definition SLVR_CMD_PING :: u8 where "SLVR_CMD_PING = 0x8D"

section \<open>Payloads\<close>

text \<open>The packed structures of \<^verbatim>\<open>host_protocol.h\<close>. Character arrays are the list of their cells, the arrays of
  bytes are lists; \<open>X_bytes\<close> are the bytes of a structure and \<open>X_of\<close> are the assignments that fill it.\<close>

record slvr_payload_device_info =
  pi_product :: string
  pi_version :: string
  pi_build_id :: string
  pi_git_revision :: string
  pi_chip_family :: string
  pi_chip_revision :: u32
  pi_flash_size_bytes :: u32
  pi_psram_size_bytes :: u32
  pi_internal_sram_total :: u32
  pi_internal_sram_free :: u32
  pi_psram_total :: u32
  pi_psram_free :: u32

record slvr_task_telemetry =
  tt_id :: u8
  tt_state :: u8
  tt_priority :: u8
  tt_padding :: u8
  tt_period_ticks :: u32
  tt_execution_count :: u32
  tt_last_execution_us :: u32
  tt_worst_execution_us :: u32
  tt_overrun_count :: u32
  tt_name :: string

record slvr_payload_device_status =
  pd_tick :: u32
  pd_uptime_seconds :: u32
  pd_scheduler_iterations :: u32
  pd_active_app :: u8
  pd_kernel_state :: u8
  pd_task_count :: u8
  pd_fault_count :: u8
  pd_tasks :: "slvr_task_telemetry list"

record slvr_payload_memory_status =
  pm_arena_capacity :: u32
  pm_arena_used :: u32
  pm_arena_free :: u32
  pm_arena_peak :: u32
  pm_allocation_count :: u32
  pm_free_count :: u32
  pm_failed_allocations :: u32
  pm_psram_total :: u32
  pm_psram_free :: u32

record slvr_payload_storage_status =
  ss_total_sectors :: u32
  ss_free_sectors :: u32
  ss_active_sectors :: u32
  ss_obsolete_sectors :: u32
  ss_record_commit_count :: u32

record slvr_payload_game_state =
  pg_lander_x :: u16
  pg_lander_y :: u16
  pg_lander_vx :: u16
  pg_lander_vy :: u16
  pg_fuel :: u16
  pg_score :: u16
  pg_status :: u8
  pg_pad_x :: u8
  pg_pad_y :: u8
  pg_pad_w :: u8
  pg_frame_seq :: u32

record slvr_payload_app_state =
  pa_app_id :: u8
  pa_app_state :: u8
  pa_runs_completed :: u16
  pa_error_count :: u16
  pa_data_len :: u16
  pa_data :: "u8 list"

record slvr_payload_log =
  pl_level :: u8
  pl_timestamp_ms :: u32
  pl_text :: string

record slvr_payload_terminal =
  pt_text_len :: u16
  pt_text :: string

definition device_info_bytes :: "slvr_payload_device_info \<Rightarrow> u8 list" where
  "device_info_bytes i =
     bytes_of (pi_product i) @ bytes_of (pi_version i) @ bytes_of (pi_build_id i) @ bytes_of (pi_git_revision i)
     @ bytes_of (pi_chip_family i) @ le32 (pi_chip_revision i) @ le32 (pi_flash_size_bytes i) @ le32 (pi_psram_size_bytes i)
     @ le32 (pi_internal_sram_total i) @ le32 (pi_internal_sram_free i) @ le32 (pi_psram_total i) @ le32 (pi_psram_free i)"

definition task_telemetry_bytes :: "slvr_task_telemetry \<Rightarrow> u8 list" where
  "task_telemetry_bytes t =
     [tt_id t, tt_state t, tt_priority t, tt_padding t] @ le32 (tt_period_ticks t) @ le32 (tt_execution_count t)
     @ le32 (tt_last_execution_us t) @ le32 (tt_worst_execution_us t) @ le32 (tt_overrun_count t) @ bytes_of (tt_name t)"

definition device_status_bytes :: "slvr_payload_device_status \<Rightarrow> u8 list" where
  "device_status_bytes st =
     le32 (pd_tick st) @ le32 (pd_uptime_seconds st) @ le32 (pd_scheduler_iterations st)
     @ [pd_active_app st, pd_kernel_state st, pd_task_count st, pd_fault_count st]
     @ concat (map task_telemetry_bytes (pd_tasks st))"

definition memory_status_bytes :: "slvr_payload_memory_status \<Rightarrow> u8 list" where
  "memory_status_bytes st =
     le32 (pm_arena_capacity st) @ le32 (pm_arena_used st) @ le32 (pm_arena_free st) @ le32 (pm_arena_peak st)
     @ le32 (pm_allocation_count st) @ le32 (pm_free_count st) @ le32 (pm_failed_allocations st)
     @ le32 (pm_psram_total st) @ le32 (pm_psram_free st)"

definition storage_status_bytes :: "slvr_payload_storage_status \<Rightarrow> u8 list" where
  "storage_status_bytes st =
     le32 (ss_total_sectors st) @ le32 (ss_free_sectors st) @ le32 (ss_active_sectors st) @ le32 (ss_obsolete_sectors st)
     @ le32 (ss_record_commit_count st)"

definition game_state_bytes :: "slvr_payload_game_state \<Rightarrow> u8 list" where
  "game_state_bytes g =
     le16 (pg_lander_x g) @ le16 (pg_lander_y g) @ le16 (pg_lander_vx g) @ le16 (pg_lander_vy g) @ le16 (pg_fuel g)
     @ le16 (pg_score g) @ [pg_status g, pg_pad_x g, pg_pad_y g, pg_pad_w g] @ le32 (pg_frame_seq g)"

definition app_state_bytes :: "slvr_payload_app_state \<Rightarrow> u8 list" where
  "app_state_bytes st =
     [pa_app_id st, pa_app_state st] @ le16 (pa_runs_completed st) @ le16 (pa_error_count st) @ le16 (pa_data_len st)
     @ pa_data st"

definition log_bytes :: "slvr_payload_log \<Rightarrow> u8 list" where
  "log_bytes l = [pl_level l] @ le32 (pl_timestamp_ms l) @ bytes_of (pl_text l)"

definition terminal_bytes :: "slvr_payload_terminal \<Rightarrow> u8 list" where
  "terminal_bytes t = le16 (pt_text_len t) @ bytes_of (pt_text t)"

text \<open>An array of \<open>n\<close> zeroed characters after \<open>strncpy(_, str, n - 1)\<close>\<close>

definition text_field :: "nat \<Rightarrow> string \<Rightarrow> string" where
  "text_field n str = strncpy (replicate n NUL) str (n - 1)"

definition device_info_of :: "mk_diag_identity \<Rightarrow> slvr_payload_device_info" where
  "device_info_of diag = \<lparr>pi_product = text_field 24 ''SliverOS'', pi_version = text_field 12 ''1.0.0'',
     pi_build_id = text_field 24 ''MK-ESP32-20260904'', pi_git_revision = text_field 24 (git_revision diag),
     pi_chip_family = text_field 16 (chip_family diag), pi_chip_revision = chip_revision diag,
     pi_flash_size_bytes = flash_size_bytes diag, pi_psram_size_bytes = psram_size_bytes diag,
     pi_internal_sram_total = internal_sram_total diag, pi_internal_sram_free = internal_sram_free diag,
     pi_psram_total = psram_total diag, pi_psram_free = psram_free diag\<rparr>"

definition task_telemetry_of :: "mk_tcb \<Rightarrow> slvr_task_telemetry" where
  "task_telemetry_of tcb = \<lparr>tt_id = tcb_id tcb, tt_state = of_nat (task_state_ord (tcb_state tcb)),
     tt_priority = tcb_priority tcb, tt_padding = 0, tt_period_ticks = period_ticks tcb,
     tt_execution_count = execution_count tcb, tt_last_execution_us = last_execution_us tcb,
     tt_worst_execution_us = worst_execution_us tcb, tt_overrun_count = overrun_count tcb,
     tt_name = text_field 12 (tcb_name tcb)\<rparr>"

definition device_status_of :: "mk_kernel \<Rightarrow> u8 \<Rightarrow> slvr_payload_device_status" where
  "device_status_of k faults = \<lparr>pd_tick = k_tick k, pd_uptime_seconds = k_tick k div 1000,
     pd_scheduler_iterations = k_scheduler_iterations k, pd_active_app = k_active_app k,
     pd_kernel_state = of_nat (kernel_state_ord (k_state k)), pd_task_count = of_nat MK_MAX_TASKS,
     pd_fault_count = faults, pd_tasks = map (\<lambda>i. task_telemetry_of (k_tasks k ! i)) [0..<MK_MAX_TASKS]\<rparr>"

definition memory_status_of :: "mk_mem_stats \<Rightarrow> mk_diag_identity \<Rightarrow> slvr_payload_memory_status" where
  "memory_status_of mem diag = \<lparr>pm_arena_capacity = total_capacity mem, pm_arena_used = used_bytes mem,
     pm_arena_free = free_bytes mem, pm_arena_peak = peak_used_bytes mem, pm_allocation_count = allocation_count mem,
     pm_free_count = free_count mem, pm_failed_allocations = failed_allocations mem, pm_psram_total = psram_total diag,
     pm_psram_free = psram_free diag\<rparr>"

definition storage_status_of :: "u32 \<Rightarrow> slvr_payload_storage_status" where
  "storage_status_of sectors = \<lparr>ss_total_sectors = sectors, ss_free_sectors = (if 2 < sectors then sectors - 2 else 0),
     ss_active_sectors = 1, ss_obsolete_sectors = 1, ss_record_commit_count = 16\<rparr>"

definition game_state_of :: "game_lander \<Rightarrow> u32 \<Rightarrow> slvr_payload_game_state" where
  "game_state_of lander seq = \<lparr>pg_lander_x = gl_x lander, pg_lander_y = gl_y lander, pg_lander_vx = gl_vx lander,
     pg_lander_vy = gl_vy lander, pg_fuel = gl_fuel lander, pg_score = gl_score lander,
     pg_status = of_nat (game_status_ord (gl_status lander)), pg_pad_x = 50, pg_pad_y = 60, pg_pad_w = 28,
     pg_frame_seq = seq\<rparr>"

text \<open>The statistics of two applications go into the payload as they lie in memory. The padding bytes, whose
  values the C standard leaves open, are zero as \<open>memset\<close> left them.\<close>

definition wifi_stats_bytes :: "wifi_diag_stats \<Rightarrow> u8 list" where
  "wifi_stats_bytes st =
     le32 (total_frames_analyzed st) @ le32 (mgmt_frames st) @ le32 (ctrl_frames st) @ le32 (data_frames st)
     @ le32 (beacon_frames st) @ le32 (probe_frames st) @ le32 (word_of_int (avg_rssi st)) @ [active_channel st, 0, 0, 0]"

definition bool_byte :: "bool \<Rightarrow> u8" where
  "bool_byte b = (if b then 1 else 0)"

definition net_report_bytes :: "net_diag_report \<Rightarrow> u8 list" where
  "net_report_bytes r =
     bytes_of (target_ip r) @ [bool_byte (target_configured r), bool_byte (icmp_reachable r), 0, 0] @ le32 (icmp_rtt_ms r)
     @ [bool_byte (tcp_22_open r), bool_byte (tcp_80_open r), bool_byte (tcp_443_open r), 0]
     @ le32 (of_nat (net_diag_state_ord (current_state r)))"

definition app_state_of :: "u8 \<Rightarrow> mk_app_control \<Rightarrow> u8 list \<Rightarrow> slvr_payload_app_state" where
  "app_state_of aid app data = \<lparr>pa_app_id = aid, pa_app_state = of_nat (app_state_ord (app_state app)),
     pa_runs_completed = ucast (runs_completed app), pa_error_count = ucast (error_count app),
     pa_data_len = of_nat (length data), pa_data = data @ replicate (128 - length data) 0\<rparr>"

definition log_of :: "u8 \<Rightarrow> u32 \<Rightarrow> string \<Rightarrow> slvr_payload_log" where
  "log_of level timestamp_ms msg =
     \<lparr>pl_level = level, pl_timestamp_ms = timestamp_ms, pl_text = text_field 120 msg\<rparr>"

definition terminal_of :: "string \<Rightarrow> slvr_payload_terminal" where
  "terminal_of text =
     (let len = length (cstr text); n = (if 255 < len then 255 else len)
      in \<lparr>pt_text_len = of_nat n, pt_text = text_field 256 text\<rparr>)"

section \<open>Messages\<close>

definition diag_identity :: mk_diag_identity where
  "diag_identity = the (mk_kernel_get_diag_identity (Some mk_diag_identity_zero))"

definition send :: "u8 \<Rightarrow> u8 list \<Rightarrow> 'a sliver_scheme \<Rightarrow> 'a sliver_scheme" where
  "send type payload s = snd (send_typed_message type (Some payload) (of_nat (length payload)) s)"

definition send_device_info :: "'a sliver_scheme \<Rightarrow> 'a sliver_scheme" where
  "send_device_info s = send SLVR_MSG_DEVICE_INFO (device_info_bytes (device_info_of diag_identity)) s"

definition fault_count_byte :: "fault_manager \<Rightarrow> u8" where
  "fault_count_byte fm = (case mk_fault_get_latest True fm of
     (st, r) \<Rightarrow> if st = MK_STATUS_OK then ucast (fr_fault_id (the r)) else 0)"

definition send_device_status :: "'a sliver_scheme \<Rightarrow> 'a sliver_scheme" where
  "send_device_status s =
     send SLVR_MSG_DEVICE_STATUS (device_status_bytes (device_status_of (mk_kernel_get_instance s) (fault_count_byte (sc_fm s)))) s"

definition send_memory_status :: "'a sliver_scheme \<Rightarrow> 'a sliver_scheme" where
  "send_memory_status s =
     send SLVR_MSG_MEMORY_STATUS (memory_status_bytes (memory_status_of (mk_memory_get_stats (sl_mem s)) diag_identity)) s"

definition send_storage_status :: "'a sliver_scheme \<Rightarrow> 'a sliver_scheme" where
  "send_storage_status s =
     send SLVR_MSG_STORAGE_STATUS (storage_status_bytes (storage_status_of (vfs_block_get_sector_count (v_blk (sl_vfs s))))) s"

definition app_data :: "u8 \<Rightarrow> 'a sliver_scheme \<Rightarrow> u8 list" where
  "app_data aid s =
     (let w = wifi_stats_bytes (wifi_diagnostics_get_stats (sl_wifi_diag s));
          n = net_report_bytes (network_diagnostics_get_report (sl_net_diag s))
      in if aid = of_nat (app_id_ord MK_APP_WIFI_DIAGNOSTICS) then (if length w \<le> 128 then w else [])
         else if aid = of_nat (app_id_ord MK_APP_NETWORK_DIAGNOSTICS) then (if length n \<le> 128 then n else [])
         else [])"

definition send_app_state :: "u8 \<Rightarrow> 'a sliver_scheme \<Rightarrow> 'a sliver_scheme" where
  "send_app_state aid s =
     (if app_id_ord MK_APP_COUNT \<le> unat aid then s
      else send SLVR_MSG_APP_STATE
             (app_state_bytes (app_state_of aid (k_apps (mk_kernel_get_instance s) ! unat aid) (app_data aid s))) s)"

definition protocol_service_send_log :: "u8 \<Rightarrow> string option \<Rightarrow> 'a sliver_scheme \<Rightarrow> mk_status \<times> 'a sliver_scheme" where
  "protocol_service_send_log level msg s =
     (case msg of
        None \<Rightarrow> (MK_STATUS_INVALID_ARG, s)
      | Some m \<Rightarrow> let bs = log_bytes (log_of level (mk_kernel_get_tick s) m)
                  in send_typed_message SLVR_MSG_LOG (Some bs) (of_nat (length bs)) s)"

definition protocol_service_send_terminal :: "string option \<Rightarrow> 'a sliver_scheme \<Rightarrow> mk_status \<times> 'a sliver_scheme" where
  "protocol_service_send_terminal text s =
     (case text of
        None \<Rightarrow> (MK_STATUS_INVALID_ARG, s)
      | Some t \<Rightarrow> let bs = terminal_bytes (terminal_of t)
                  in send_typed_message SLVR_MSG_TERMINAL_OUTPUT (Some bs) (of_nat (length bs)) s)"

definition protocol_service_broadcast_game_state :: "slvr_payload_game_state option \<Rightarrow> 'a sliver_scheme \<Rightarrow> mk_status \<times> 'a sliver_scheme" where
  "protocol_service_broadcast_game_state game s =
     (case game of
        None \<Rightarrow> (MK_STATUS_INVALID_ARG, s)
      | Some g \<Rightarrow> let bs = game_state_bytes g in send_typed_message SLVR_MSG_GAME_STATE (Some bs) (of_nat (length bs)) s)"

section \<open>The terminal\<close>

fun task_state_to_str :: "mk_task_state \<Rightarrow> string" where
  "task_state_to_str MK_TASK_STATE_UNUSED = ''UNUSED''"
| "task_state_to_str MK_TASK_STATE_READY = ''READY''"
| "task_state_to_str MK_TASK_STATE_RUNNING = ''RUN''"
| "task_state_to_str MK_TASK_STATE_BLOCKED = ''BLOCK''"
| "task_state_to_str MK_TASK_STATE_SLEEPING = ''SLEEP''"
| "task_state_to_str MK_TASK_STATE_TERMINATED = ''TERM''"
| "task_state_to_str MK_TASK_STATE_FAULT = ''FAULT''"
| "task_state_to_str MK_TASK_STATE_COUNT = ''UNK''"

abbreviation show_u32 :: "u32 \<Rightarrow> string" where
  "show_u32 w \<equiv> show_dec (unat w)"

definition help_text :: string where
  "help_text =
     ''SliverOS Shell Commands:'' @ CRLF
     @ ''  help       - Print this command list'' @ CRLF
     @ ''  apps       - List 4 registered applications & states'' @ CRLF
     @ ''  status     - Show uptime, tick & scheduler info'' @ CRLF
     @ ''  mem        - Display SRAM arena & PSRAM memory metrics'' @ CRLF
     @ ''  tasks      - List 8 TCBs and CPU runtime statistics'' @ CRLF
     @ ''  vfs        - Display VFS sector status & record count'' @ CRLF
     @ ''  version    - Display OS product & build identification'' @ CRLF
     @ ''  clear      - Clear terminal window'' @ CRLF
     @ ''  reboot     - Restart SliverOS executive'' @ CRLF"

definition app_line :: "string \<Rightarrow> mk_app_control \<Rightarrow> string" where
  "app_line label app =
     ''  '' @ label @ '' State: '' @ mk_app_state_to_str (app_state app) @ '' Runs: '' @ show_u32 (runs_completed app) @ CRLF"

definition apps_text :: "mk_kernel \<Rightarrow> string" where
  "apps_text k =
     ''SliverOS Applications (4 Core Apps):'' @ CRLF
     @ app_line ''[0] BLE_HID    '' (k_apps k ! 0) @ app_line ''[1] WIFI_DIAG  '' (k_apps k ! 1)
     @ app_line ''[2] NET_DIAG   '' (k_apps k ! 2) @ app_line ''[3] RETRO_GAMES'' (k_apps k ! 3)"

definition status_text :: "mk_kernel \<Rightarrow> string" where
  "status_text k =
     ''Kernel State: '' @ mk_kernel_state_to_str (k_state k) @ '' | Tick: '' @ show_u32 (k_tick k)
     @ '' | Uptime: '' @ show_u32 (k_tick k div 1000) @ '' s | Iterations: '' @ show_u32 (k_scheduler_iterations k) @ CRLF"

definition mem_text :: "mk_mem_stats \<Rightarrow> string" where
  "mem_text mem =
     ''Internal SRAM Arena (128 KB):'' @ CRLF
     @ ''  Capacity: '' @ show_u32 (total_capacity mem) @ '' B | Used: '' @ show_u32 (used_bytes mem)
     @ '' B | Free: '' @ show_u32 (free_bytes mem) @ '' B | Peak: '' @ show_u32 (peak_used_bytes mem) @ '' B'' @ CRLF
     @ ''  Allocs: '' @ show_u32 (allocation_count mem) @ '' | Frees: '' @ show_u32 (free_count mem)
     @ '' | Failures: '' @ show_u32 (failed_allocations mem) @ CRLF"

definition tasks_header :: string where
  "tasks_header = ''ID State Prio Period Runs   Last(us) Worst(us) Overruns Name'' @ CRLF"

definition task_line :: "mk_tcb \<Rightarrow> string" where
  "task_line tcb =
     pad_left 2 (show_dec (unat (tcb_id tcb))) @ '' '' @ pad_right 5 (task_state_to_str (tcb_state tcb)) @ '' ''
     @ pad_left 4 (show_dec (unat (tcb_priority tcb))) @ '' '' @ pad_left 6 (show_u32 (period_ticks tcb)) @ '' ''
     @ pad_left 6 (show_u32 (execution_count tcb)) @ '' '' @ pad_left 8 (show_u32 (last_execution_us tcb)) @ '' ''
     @ pad_left 9 (show_u32 (worst_execution_us tcb)) @ '' '' @ pad_left 8 (show_u32 (overrun_count tcb)) @ '' ''
     @ cstr (tcb_name tcb) @ CRLF"

definition vfs_text :: "u32 \<Rightarrow> string" where
  "vfs_text sectors =
     ''VFS Sector Storage (NOR Flash '' @ [CHR 0x27] @ ''osfs'' @ [CHR 0x27] @ '' Partition):'' @ CRLF
     @ ''  Total Sectors: '' @ show_u32 sectors @ '' (4 KB each = '' @ show_u32 (sectors * 4) @ '' KB total)'' @ CRLF
     @ ''  Power-loss Safe Records: Active & Verified with CRC32'' @ CRLF"

definition version_text :: "mk_diag_identity \<Rightarrow> string" where
  "version_text diag =
     ''SliverOS Embedded Executive v'' @ cstr (version diag) @ '' (Build '' @ cstr (build_id diag) @ '')'' @ CRLF
     @ ''Target Hardware: '' @ cstr (chip_family diag) @ '' Silicon Rev '' @ show_u32 (chip_revision diag)
     @ '' (8MB Flash, 8MB PSRAM)'' @ CRLF"

definition unknown_text :: "string \<Rightarrow> string" where
  "unknown_text cmd =
     ''Unknown command: '' @ [CHR 0x27] @ cmd @ [CHR 0x27] @ ''. Type '' @ [CHR 0x27] @ ''help'' @ [CHR 0x27]
     @ '' for command list.'' @ CRLF"

definition terminal :: "string \<Rightarrow> 'a sliver_scheme \<Rightarrow> 'a sliver_scheme" where
  "terminal text s = snd (protocol_service_send_terminal (Some text) s)"

text \<open>\<open>out_buf\<close> has 256 characters. On the target \<open>reboot\<close> restarts the chip after its message.\<close>

definition handle_terminal_command :: "string \<Rightarrow> 'a sliver_scheme \<Rightarrow> 'a sliver_scheme" where
  "handle_terminal_command cmd_line s =
     (let out = (\<lambda>text. terminal (formatted 256 text) s) in
      case scan_word 31 (cstr cmd_line) of
        None \<Rightarrow> terminal LF s
      | Some (cmd, _) \<Rightarrow>
          if cmd = ''help'' then out help_text
          else if cmd = ''apps'' then out (apps_text (mk_kernel_get_instance s))
          else if cmd = ''status'' then out (status_text (mk_kernel_get_instance s))
          else if cmd = ''mem'' then out (mem_text (mk_memory_get_stats (sl_mem s)))
          else if cmd = ''tasks'' then
            fold (\<lambda>i t. let tcb = k_tasks (mk_kernel_get_instance t) ! i
                        in if tcb_state tcb \<noteq> MK_TASK_STATE_UNUSED then terminal (formatted 256 (task_line tcb)) t else t)
              [0..<MK_MAX_TASKS] (out tasks_header)
          else if cmd = ''vfs'' then out (vfs_text (vfs_block_get_sector_count (v_blk (sl_vfs s))))
          else if cmd = ''version'' then out (version_text diag_identity)
          else if cmd = ''clear'' then out ([CHR 0x1B] @ ''[2J'' @ [CHR 0x1B] @ ''[H'')
          else if cmd = ''reboot'' then out (''Rebooting SliverOS runtime...'' @ CRLF)
          else out (unknown_text cmd))"

section \<open>Commands\<close>

definition launch_app :: "bool \<Rightarrow> u8 \<Rightarrow> 'a sliver_scheme \<Rightarrow> 'a sliver_scheme" where
  "launch_app host aid s =
     (if unat aid < app_id_ord MK_APP_COUNT
      then let s1 = snd (kern_app_transition host (app_id_of (unat aid)) MK_APP_STATE_ACTIVE s);
               s2 = s1\<lparr>sc_kernel := (sc_kernel s1)\<lparr>k_active_app := aid\<rparr>\<rparr>
           in send_device_status (send_app_state aid s2)
      else s)"

definition exit_app :: "bool \<Rightarrow> u8 \<Rightarrow> 'a sliver_scheme \<Rightarrow> 'a sliver_scheme" where
  "exit_app host aid s =
     (if unat aid < app_id_ord MK_APP_COUNT
      then send_device_status (send_app_state aid
             (snd (kern_app_transition host (app_id_of (unat aid)) MK_APP_STATE_READY s)))
      else s)"

definition set_input :: "u8 \<Rightarrow> 'a sliver_scheme \<Rightarrow> 'a sliver_scheme" where
  "set_input btns s = s\<lparr>sl_games := (sl_games s)\<lparr>ga_input := input_set_state btns (ga_input (sl_games s))\<rparr>\<rparr>"

definition handle_incoming_frame :: "bool \<Rightarrow> slvr_frame \<Rightarrow> 'a sliver_scheme \<Rightarrow> 'a sliver_scheme" where
  "handle_incoming_frame host frame s0 =
     (let s = set_proto (\<lambda>p. p\<lparr>pr_rx_frames := pr_rx_frames p + 1\<rparr>) s0;
          cmd = sf_type frame; payload = sf_payload frame; len = sf_length frame
      in if cmd = SLVR_CMD_CONNECT
         then snd (protocol_service_send_log 1 (Some ''Host connected via Web Serial (SLVR/1)'')
                (send_storage_status (send_memory_status (send_device_status (send_device_info
                  (send SLVR_MSG_HELLO (bytes_of ''SLIVEROS_READY'') (set_proto (\<lambda>p. p\<lparr>pr_connected := True\<rparr>) s)))))))
         else if cmd = SLVR_CMD_GET_INFO then send_device_info s
         else if cmd = SLVR_CMD_GET_STATUS then send_storage_status (send_memory_status (send_device_status s))
         else if cmd = SLVR_CMD_LAUNCH_APP then (if 1 \<le> len then launch_app host (payload ! 0) s else s)
         else if cmd = SLVR_CMD_EXIT_APP then (if 1 \<le> len then exit_app host (payload ! 0) s else s)
         else if cmd = SLVR_CMD_APP_INPUT then (if 2 \<le> len then set_input (payload ! 1) s else s)
         else if cmd = SLVR_CMD_TERMINAL_INPUT
         then (if 0 < len
               then let c_len = (if 127 < len then 127 else len)
                    in handle_terminal_command (chars_of (take (unat c_len) payload)) s
               else s)
         else if cmd = SLVR_CMD_RESET
         then send_device_status (snd (protocol_service_send_log 1 (Some ''System reset acknowledged'')
                (s\<lparr>sl_games := snd (retro_games_reset (sl_games s))\<rparr>)))
         else if cmd = SLVR_CMD_PING then snd (send_typed_message SLVR_MSG_PONG (Some payload) len s)
         else s)"

section \<open>The task\<close>

definition protocol_service_init :: "'a sliver_scheme \<Rightarrow> mk_status \<times> 'a sliver_scheme" where
  "protocol_service_init s =
     (MK_STATUS_OK, set_proto (\<lambda>p. p\<lparr>pr_parser := the (slvr_parser_init (Some (pr_parser p))), pr_connected := False,
        pr_tx_seq := 0, pr_rx_frames := 0, pr_tx_frames := 0, pr_last_status_tick := 0, pr_last_game_tick := 0,
        pr_game_frame_seq := 0,
        pr_mock_rx := (pr_mock_rx p)\<lparr>mr_head := 0, mr_tail := 0\<rparr>,
        pr_mock_tx := (pr_mock_tx p)\<lparr>mr_head := 0, mr_tail := 0\<rparr>\<rparr>) s)"

definition receive_byte :: "bool \<Rightarrow> u8 \<Rightarrow> 'a sliver_scheme \<Rightarrow> 'a sliver_scheme" where
  "receive_byte host b s =
     (case slvr_parser_feed_byte True b (pr_parser (sl_proto s)) of
        (frame, p) \<Rightarrow> let s1 = set_proto (\<lambda>q. q\<lparr>pr_parser := p\<rparr>) s
                      in case frame of None \<Rightarrow> s1 | Some f \<Rightarrow> handle_incoming_frame host f s1)"

text \<open>The loop \<open>while (s_mock_rx_tail != s_mock_rx_head)\<close>\<close>

partial_function (option) drain_rx :: "bool \<Rightarrow> 'a sliver_scheme \<Rightarrow> 'a sliver_scheme option" where
  "drain_rx host s =
     (case mock_get (pr_mock_rx (sl_proto s)) of
        (None, _) \<Rightarrow> Some s
      | (Some b, r) \<Rightarrow> drain_rx host (receive_byte host b (set_proto (\<lambda>p. p\<lparr>pr_mock_rx := r\<rparr>) s)))"

definition broadcast_game :: "u32 \<Rightarrow> 'a sliver_scheme \<Rightarrow> 'a sliver_scheme" where
  "broadcast_game current_tick s =
     (let p = sl_proto s in
      if k_active_app (mk_kernel_get_instance s) = of_nat (app_id_ord MK_APP_RETRO_GAMES)
         \<and> 50 \<le> current_tick - pr_last_game_tick p
      then let payload = game_state_of (retro_games_get_lander (sl_games s)) (pr_game_frame_seq p);
               s1 = set_proto (\<lambda>p. p\<lparr>pr_game_frame_seq := pr_game_frame_seq p + 1\<rparr>) s
           in set_proto (\<lambda>p. p\<lparr>pr_last_game_tick := current_tick\<rparr>)
                (snd (protocol_service_broadcast_game_state (Some payload) s1))
      else s)"

definition broadcast_status :: "u32 \<Rightarrow> 'a sliver_scheme \<Rightarrow> 'a sliver_scheme" where
  "broadcast_status current_tick s =
     (if 500 \<le> current_tick - pr_last_status_tick (sl_proto s)
      then let s1 = send_memory_status (send_device_status s);
               active = k_active_app (mk_kernel_get_instance s);
               s2 = (if active \<noteq> of_nat (app_id_ord MK_APP_RETRO_GAMES) then send_app_state active s1 else s1)
           in set_proto (\<lambda>p. p\<lparr>pr_last_status_tick := current_tick\<rparr>) s2
      else s)"

definition protocol_service_task :: "bool \<Rightarrow> 'a sliver_scheme \<Rightarrow> 'a sliver_scheme option" where
  "protocol_service_task host s0 =
     (let current_tick = mk_kernel_get_tick s0 in
      case drain_rx host s0 of
        None \<Rightarrow> None
      | Some s \<Rightarrow> Some (if pr_connected (sl_proto s) then broadcast_status current_tick (broadcast_game current_tick s) else s))"

definition protocol_service_is_connected :: "'a sliver_scheme \<Rightarrow> bool" where
  "protocol_service_is_connected s = pr_connected (sl_proto s)"

definition protocol_service_get_rx_frame_count :: "'a sliver_scheme \<Rightarrow> u32" where
  "protocol_service_get_rx_frame_count s = pr_rx_frames (sl_proto s)"

definition protocol_service_get_tx_frame_count :: "'a sliver_scheme \<Rightarrow> u32" where
  "protocol_service_get_tx_frame_count s = pr_tx_frames (sl_proto s)"

section \<open>The simulated port seen from the host\<close>

definition protocol_service_inject_rx_bytes :: "u8 list option \<Rightarrow> 'a sliver_scheme \<Rightarrow> 'a sliver_scheme" where
  "protocol_service_inject_rx_bytes bytes s =
     (case bytes of
        None \<Rightarrow> s
      | Some bs \<Rightarrow> if length bs = 0 then s else set_proto (\<lambda>p. p\<lparr>pr_mock_rx := mock_write bs (pr_mock_rx p)\<rparr>) s)"

fun mock_read :: "nat \<Rightarrow> mock_ring \<Rightarrow> u8 list \<times> mock_ring" where
  "mock_read 0 r = ([], r)"
| "mock_read (Suc n) r =
     (case mock_get r of
        (None, r1) \<Rightarrow> ([], r1)
      | (Some b, r1) \<Rightarrow> case mock_read n r1 of (bs, r2) \<Rightarrow> (b # bs, r2))"

definition protocol_service_pop_tx_bytes :: "bool \<Rightarrow> nat \<Rightarrow> 'a sliver_scheme \<Rightarrow> u8 list \<times> 'a sliver_scheme" where
  "protocol_service_pop_tx_bytes out_ok max_len s =
     (if \<not> out_ok \<or> max_len = 0 then ([], s)
      else case mock_read max_len (pr_mock_tx (sl_proto s)) of
             (bs, r) \<Rightarrow> (bs, set_proto (\<lambda>p. p\<lparr>pr_mock_tx := r\<rparr>) s))"

definition protocol_service_reset_mock :: "'a sliver_scheme \<Rightarrow> 'a sliver_scheme" where
  "protocol_service_reset_mock s =
     set_proto (\<lambda>p. p\<lparr>pr_mock_rx := (pr_mock_rx p)\<lparr>mr_head := 0, mr_tail := 0\<rparr>,
       pr_mock_tx := (pr_mock_tx p)\<lparr>mr_head := 0, mr_tail := 0\<rparr>\<rparr>) s"

section \<open>The rings are bounded queues\<close>

definition mock_inv :: "mock_ring \<Rightarrow> bool" where
  "mock_inv r \<longleftrightarrow> length (mr_buf r) = 2048 \<and> mr_head r < 2048 \<and> mr_tail r < 2048"

definition mock_count :: "mock_ring \<Rightarrow> nat" where
  "mock_count r = (mr_head r + 2048 - mr_tail r) mod 2048"

definition mock_bytes :: "mock_ring \<Rightarrow> u8 list" where
  "mock_bytes r = ring_list (mr_buf r) (mr_tail r) (mock_count r)"

lemma ring_count:
  fixes h t :: nat
  assumes "h < 2048" and "t < 2048"
  defines "c \<equiv> (h + 2048 - t) mod 2048"
  shows "c < 2048" and "h = (t + c) mod 2048" and "c = 0 \<longleftrightarrow> t = h"
    and "(h + 1) mod 2048 = t \<longleftrightarrow> c = 2047"
    and "c < 2047 \<Longrightarrow> ((h + 1) mod 2048 + 2048 - t) mod 2048 = Suc c"
    and "0 < c \<Longrightarrow> (h + 2048 - (t + 1) mod 2048) mod 2048 = c - 1"
proof -
  have c: "c = (if t \<le> h then h - t else h + 2048 - t)"
  proof (cases "t \<le> h")
    case True
    then have "h + 2048 - t = 2048 + (h - t)" by simp
    moreover have "(2048 + (h - t)) mod 2048 = h - t" using assms(1) by (simp only: mod_add_self1) simp
    ultimately show ?thesis using True by (simp only: c_def if_True)
  qed (use assms in \<open>simp add: c_def\<close>)
  have h1: "(h + 1) mod 2048 = (if h = 2047 then 0 else h + 1)" using assms(1) by auto
  have t1: "(t + 1) mod 2048 = (if t = 2047 then 0 else t + 1)" using assms(2) by auto
  show "c < 2048" by (simp add: c_def)
  show "h = (t + c) mod 2048" using assms(1,2) unfolding c by auto
  show "c = 0 \<longleftrightarrow> t = h" using assms(1,2) unfolding c by auto
  show "(h + 1) mod 2048 = t \<longleftrightarrow> c = 2047" unfolding h1 c using assms(1,2) by auto
  show "((h + 1) mod 2048 + 2048 - t) mod 2048 = Suc c" if "c < 2047"
    using that assms(1,2) unfolding h1 c by (auto simp: mod_if)
  show "(h + 2048 - (t + 1) mod 2048) mod 2048 = c - 1" if "0 < c"
    using that assms(1,2) unfolding t1 c by (auto simp: mod_if)
qed

lemma mock_put_refines:
  assumes "mock_inv r"
  shows "mock_inv (snd (mock_put b r))" and "(fst (mock_put b r), mock_bytes (snd (mock_put b r))) = list_put 2047 b (mock_bytes r)"
proof -
  let ?c = "mock_count r"
  have i: "length (mr_buf r) = 2048" "mr_head r < 2048" "mr_tail r < 2048" using assms by (simp_all add: mock_inv_def)
  note rc = ring_count[OF i(2,3), folded mock_count_def]
  show "mock_inv (snd (mock_put b r))" using i by (simp add: mock_put_def mock_inv_def MOCK_BUFFER_SIZE_def Let_def)
  show "(fst (mock_put b r), mock_bytes (snd (mock_put b r))) = list_put 2047 b (mock_bytes r)"
  proof (cases "?c < 2047")
    case True
    then have "(mr_head r + 1) mod 2048 \<noteq> mr_tail r" using rc(4) by simp
    moreover have "ring_list ((mr_buf r)[mr_head r := b]) (mr_tail r) (Suc ?c) = mock_bytes r @ [b]"
      using ring_list_push[of ?c "mr_buf r" "mr_tail r" b] rc(2) True i(1) by (simp add: mock_bytes_def)
    moreover have "mock_count (r\<lparr>mr_buf := (mr_buf r)[mr_head r := b], mr_head := (mr_head r + 1) mod 2048\<rparr>) = Suc ?c"
      using rc(5)[OF True] by (simp add: mock_count_def)
    ultimately show ?thesis using True by (simp add: mock_put_def MOCK_BUFFER_SIZE_def Let_def list_put_def mock_bytes_def)
  next
    case False
    then have "(mr_head r + 1) mod 2048 = mr_tail r" using rc(1,4) by simp
    then show ?thesis using False by (simp add: mock_put_def MOCK_BUFFER_SIZE_def Let_def list_put_def mock_bytes_def)
  qed
qed

lemma mock_get_refines:
  assumes "mock_inv r"
  shows "mock_inv (snd (mock_get r))" and "(fst (mock_get r), mock_bytes (snd (mock_get r))) = list_get (mock_bytes r)"
proof -
  let ?c = "mock_count r"
  have i: "length (mr_buf r) = 2048" "mr_head r < 2048" "mr_tail r < 2048" using assms by (simp_all add: mock_inv_def)
  note rc = ring_count[OF i(2,3), folded mock_count_def]
  show "mock_inv (snd (mock_get r))" using i by (simp add: mock_get_def mock_inv_def MOCK_BUFFER_SIZE_def)
  show "(fst (mock_get r), mock_bytes (snd (mock_get r))) = list_get (mock_bytes r)"
  proof (cases "?c = 0")
    case True
    then show ?thesis using rc(3) by (simp add: mock_get_def mock_bytes_def list_get_def)
  next
    case False
    then have "mock_count (r\<lparr>mr_tail := (mr_tail r + 1) mod 2048\<rparr>) = ?c - 1" using rc(6) by (simp add: mock_count_def)
    moreover have "mock_bytes r = mr_buf r ! mr_tail r # ring_list (mr_buf r) ((mr_tail r + 1) mod 2048) (?c - 1)"
      using ring_list_pop[of ?c "mr_buf r" "mr_tail r"] False i(1,3) by (simp add: mock_bytes_def)
    ultimately show ?thesis using False rc(3) by (simp add: mock_get_def MOCK_BUFFER_SIZE_def list_get_def) (simp add: mock_bytes_def)
  qed
qed

interpretation serial_port: bounded_fifo 2047 mock_inv mock_bytes mock_put mock_get
proof unfold_locales
  fix r :: mock_ring and b :: u8
  assume i: "mock_inv r"
  then show "length (mock_bytes r) \<le> 2047" using ring_count(1)[of "mr_head r" "mr_tail r"] by (simp add: mock_bytes_def mock_count_def mock_inv_def)
  show "mock_inv (snd (mock_put b r))" "(fst (mock_put b r), mock_bytes (snd (mock_put b r))) = list_put 2047 b (mock_bytes r)"
    using mock_put_refines[OF i] by blast+
  show "mock_inv (snd (mock_get r))" "(fst (mock_get r), mock_bytes (snd (mock_get r))) = list_get (mock_bytes r)"
    using mock_get_refines[OF i] by blast+
qed

lemma mock_write_bytes:
  "mock_inv r \<Longrightarrow> length (mock_bytes r) + length bs \<le> 2047 \<Longrightarrow>
   mock_inv (mock_write bs r) \<and> mock_bytes (mock_write bs r) = mock_bytes r @ bs"
proof (induction bs arbitrary: r)
  case (Cons b bs)
  have "mock_inv (snd (mock_put b r))" "mock_bytes (snd (mock_put b r)) = mock_bytes r @ [b]"
    using serial_port.put_inv[OF Cons.prems(1), of b] serial_port.put_refines[OF Cons.prems(1), of b] Cons.prems(2)
    by (simp_all add: list_put_def)
  then show ?case using Cons.IH[of "snd (mock_put b r)"] Cons.prems(2) by (simp add: mock_write_def)
qed (simp add: mock_write_def)

lemma mock_read_bytes:
  "mock_inv r \<Longrightarrow> fst (mock_read n r) = take n (mock_bytes r)"
proof (induction n arbitrary: r)
  case (Suc n)
  obtain x r1 where g: "mock_get r = (x, r1)" by (cases "mock_get r")
  have "mock_inv r1" "(x, mock_bytes r1) = list_get (mock_bytes r)"
    using serial_port.get_inv[OF Suc.prems] serial_port.get_refines[OF Suc.prems] g by simp_all
  then show ?case using Suc.IH[of r1] g by (cases "mock_bytes r") (auto simp: list_get_def split: prod.splits)
qed simp

section \<open>What the commands leave alone\<close>

text \<open>The bytes still to be read and the parser belong to the loop that drains the port; a step that leaves
  them and the shape of the transmit ring is a \<open>port_step\<close>.\<close>

definition port_step :: "'a sliver_scheme \<Rightarrow> 'a sliver_scheme \<Rightarrow> bool" where
  "port_step s s' \<longleftrightarrow> pr_mock_rx (sl_proto s') = pr_mock_rx (sl_proto s) \<and> pr_parser (sl_proto s') = pr_parser (sl_proto s)
     \<and> (mock_inv (pr_mock_tx (sl_proto s)) \<longrightarrow> mock_inv (pr_mock_tx (sl_proto s')))"

lemma port_refl: "port_step s s"
  by (simp add: port_step_def)

lemma mock_write_inv: "mock_inv r \<Longrightarrow> mock_inv (mock_write bs r)"
  unfolding mock_write_def by (induction bs arbitrary: r) (simp_all add: mock_put_refines(1))

lemma port_send_frame: "port_step s t \<Longrightarrow> port_step s (snd (protocol_service_send_frame frame t))"
  by (auto simp: port_step_def protocol_service_send_frame_def write_raw_bytes_def set_proto_def mock_write_inv
      split: option.split prod.split)

lemma port_proto:
  assumes "port_step s t" and "\<And>p. pr_mock_rx (f p) = pr_mock_rx p" and "\<And>p. pr_parser (f p) = pr_parser p"
    and "\<And>p. pr_mock_tx (f p) = pr_mock_tx p"
  shows "port_step s (set_proto f t)"
  using assms by (simp add: port_step_def set_proto_def)

lemma port_typed: "port_step s t \<Longrightarrow> port_step s (snd (send_typed_message type payload len t))"
  unfolding send_typed_message_def Let_def by (intro port_send_frame port_proto) simp_all

lemma port_send: "port_step s t \<Longrightarrow> port_step s (send type payload t)"
  unfolding send_def by (rule port_typed)

lemma port_log: "port_step s t \<Longrightarrow> port_step s (snd (protocol_service_send_log level msg t))"
  by (cases msg) (simp_all add: protocol_service_send_log_def Let_def port_typed)

lemma port_terminal: "port_step s t \<Longrightarrow> port_step s (terminal text t)"
  unfolding terminal_def by (simp add: protocol_service_send_terminal_def Let_def port_typed)

lemma port_game: "port_step s t \<Longrightarrow> port_step s (snd (protocol_service_broadcast_game_state game t))"
  by (cases game) (simp_all add: protocol_service_broadcast_game_state_def Let_def port_typed)

lemma port_app_state: "port_step s t \<Longrightarrow> port_step s (send_app_state aid t)"
  by (simp add: send_app_state_def port_send)

lemma port_status:
  assumes "port_step s t"
  shows "port_step s (send_device_info t)" and "port_step s (send_device_status t)"
    and "port_step s (send_memory_status t)" and "port_step s (send_storage_status t)"
  using assms by (simp_all add: send_device_info_def send_device_status_def send_memory_status_def send_storage_status_def port_send)

lemma port_other:
  assumes "port_step s t"
  shows "port_step s (snd (kern_app_transition host aid ns t))" and "port_step s (t\<lparr>sc_kernel := k\<rparr>)"
    and "port_step s (set_input b t)" and "port_step s (t\<lparr>sl_games := g\<rparr>)"
  using assms by (simp_all add: port_step_def kern_app_transition_def set_input_def split: prod.split)

lemmas port_steps = port_send port_log port_terminal port_game port_app_state port_status port_other port_typed

lemma port_if: "port_step s a \<Longrightarrow> port_step s b \<Longrightarrow> port_step s (if c then a else b)"
  by simp

lemma port_fold: "(\<And>x t. port_step s t \<Longrightarrow> port_step s (f x t)) \<Longrightarrow> port_step s t \<Longrightarrow> port_step s (fold f xs t)"
  by (induction xs arbitrary: t) simp_all

lemma port_shell:
  assumes "port_step s t"
  shows "port_step s (handle_terminal_command line t)"
proof (cases "scan_word 31 (cstr line)")
  case None
  then show ?thesis using assms by (simp add: handle_terminal_command_def port_terminal)
next
  case (Some w)
  obtain cmd more where w: "w = (cmd, more)" by (cases w)
  show ?thesis unfolding handle_terminal_command_def Let_def Some w option.case prod.case
    by (intro port_if port_fold port_terminal assms)
qed

lemma port_handle: "port_step s (handle_incoming_frame host f s)"
proof -
  have p: "port_step s (set_proto (\<lambda>p. p\<lparr>pr_rx_frames := pr_rx_frames p + 1\<rparr>) s)"
    by (rule port_proto[OF port_refl]) simp_all
  have c: "port_step s (set_proto (\<lambda>p. p\<lparr>pr_connected := True\<rparr>) t)" if "port_step s t" for t
    by (rule port_proto[OF that]) simp_all
  show ?thesis unfolding handle_incoming_frame_def launch_app_def exit_app_def Let_def
    by (intro port_if port_steps port_shell c p)
qed

lemma port_broadcast:
  assumes "port_step s t"
  shows "port_step s (broadcast_game tick t)" and "port_step s (broadcast_status tick t)"
  unfolding broadcast_game_def broadcast_status_def Let_def
  by (intro port_if port_steps port_proto assms; simp)+

section \<open>Draining the port\<close>

definition proto_inv :: "proto \<Rightarrow> bool" where
  "proto_inv p \<longleftrightarrow> mock_inv (pr_mock_rx p) \<and> mock_inv (pr_mock_tx p) \<and> parser_inv (pr_parser p)"

lemma receive_byte_inv:
  assumes "proto_inv (sl_proto s)"
  shows "proto_inv (sl_proto (receive_byte host b s))"
    and "pr_mock_rx (sl_proto (receive_byte host b s)) = pr_mock_rx (sl_proto s)"
proof -
  obtain r p where f: "parser_step b (pr_parser (sl_proto s)) = (r, p)" by fastforce
  let ?s = "set_proto (\<lambda>q. q\<lparr>pr_parser := p\<rparr>) s"
  have p: "parser_inv p" using feed_byte_inv[OF _ f] assms by (simp add: proto_inv_def)
  have e: "receive_byte host b s = (case r of None \<Rightarrow> ?s | Some g \<Rightarrow> handle_incoming_frame host g ?s)"
    by (simp add: receive_byte_def f Let_def)
  have "port_step ?s (receive_byte host b s)"
    unfolding e by (auto split: option.split intro: port_refl port_handle)
  then show "proto_inv (sl_proto (receive_byte host b s))"
    "pr_mock_rx (sl_proto (receive_byte host b s)) = pr_mock_rx (sl_proto s)"
    using assms p by (simp_all add: port_step_def proto_inv_def set_proto_def)
qed

lemma drain_returns:
  "proto_inv (sl_proto s) \<Longrightarrow>
   \<exists>s'. drain_rx host s = Some s' \<and> proto_inv (sl_proto s') \<and> mock_bytes (pr_mock_rx (sl_proto s')) = []"
proof (induction "length (mock_bytes (pr_mock_rx (sl_proto s)))" arbitrary: s rule: less_induct)
  case less
  let ?rx = "pr_mock_rx (sl_proto s)"
  have i: "mock_inv ?rx" using less.prems by (simp add: proto_inv_def)
  obtain x r where g: "mock_get ?rx = (x, r)" by fastforce
  have r: "mock_inv r" "(x, mock_bytes r) = list_get (mock_bytes ?rx)"
    using serial_port.get_inv[OF i] serial_port.get_refines[OF i] g by simp_all
  show ?case
  proof (cases x)
    case None
    then have "mock_bytes ?rx = []" using r(2) by (cases "mock_bytes ?rx") (simp_all add: list_get_def)
    then show ?thesis using None g less.prems by (simp add: drain_rx.simps)
  next
    case (Some b)
    let ?s = "receive_byte host b (set_proto (\<lambda>p. p\<lparr>pr_mock_rx := r\<rparr>) s)"
    have "proto_inv (sl_proto (set_proto (\<lambda>p. p\<lparr>pr_mock_rx := r\<rparr>) s))"
      using less.prems r(1) by (simp add: proto_inv_def set_proto_def)
    note s = receive_byte_inv[OF this, of host b]
    have "length (mock_bytes r) < length (mock_bytes ?rx)"
      using r(2) Some by (cases "mock_bytes ?rx") (simp_all add: list_get_def)
    then have "length (mock_bytes (pr_mock_rx (sl_proto ?s))) < length (mock_bytes ?rx)"
      unfolding s(2) by (simp add: set_proto_def)
    from less.hyps[OF this s(1)] show ?thesis using g Some by (simp add: drain_rx.simps[of _ s])
  qed
qed

section \<open>Sending\<close>

definition msg_frame :: "u8 \<Rightarrow> u8 list \<Rightarrow> u8 \<Rightarrow> slvr_frame" where
  "msg_frame type payload seq =
     \<lparr>sf_version = SLVR_VERSION_1, sf_type = type, sf_flags = SLVR_FLAG_NONE, sf_sequence = seq,
      sf_length = of_nat (length payload), sf_payload = payload @ replicate (512 - length payload) 0, sf_crc16 = 0\<rparr>"

definition sent :: "u8 \<times> u8 list \<Rightarrow> proto \<Rightarrow> proto" where
  "sent m p = p\<lparr>pr_tx_seq := pr_tx_seq p + 1, pr_tx_frames := pr_tx_frames p + 1,
     pr_mock_tx := mock_write (wire (msg_frame (fst m) (snd m) (pr_tx_seq p))) (pr_mock_tx p)\<rparr>"

lemma msg_frame_ok:
  assumes "length payload \<le> 512"
  shows "frame_ok (msg_frame type payload seq)" and "content (msg_frame type payload seq) = payload"
    and "unat (sf_length (msg_frame type payload seq)) = length payload"
proof -
  have u: "unat (of_nat (length payload) :: u16) = length payload" using assms by (simp add: unat_of_nat)
  show "unat (sf_length (msg_frame type payload seq)) = length payload" by (simp add: msg_frame_def u)
  show "frame_ok (msg_frame type payload seq)"
    using assms u by (simp add: frame_ok_def msg_frame_def SLVR_MAX_PAYLOAD_LEN_def word_le_nat_alt)
  show "content (msg_frame type payload seq) = payload" by (simp add: content_def msg_frame_def u)
qed

lemma length_wire: "frame_ok f \<Longrightarrow> length (wire f) = 12 + unat (sf_length f)"
  by (simp add: wire_def header_wire_def header_bytes_def crc_bytes_def length_content)

lemma send_sent:
  assumes "length payload \<le> 512"
  shows "send type payload s = set_proto (sent (type, payload)) s"
proof -
  let ?f = "msg_frame type payload (pr_tx_seq (sl_proto s))"
  have n: "unat (of_nat (length payload) :: u16) = length payload" using assms by (simp add: unat_of_nat)
  then have "\<not> SLVR_MAX_PAYLOAD_LEN < (of_nat (length payload) :: u16)"
    using assms by (simp add: SLVR_MAX_PAYLOAD_LEN_def word_less_nat_alt)
  then have s: "send type payload s
      = snd (protocol_service_send_frame (Some ?f) (set_proto (\<lambda>p. p\<lparr>pr_tx_seq := pr_tx_seq p + 1\<rparr>) s))"
    by (simp add: send_def send_typed_message_def Let_def msg_frame_def n)
  note f = msg_frame_ok[OF assms, of type "pr_tx_seq (sl_proto s)"]
  have "slvr_encode_frame True ?f (replicate SLVR_MAX_FRAME_LEN 0) SLVR_MAX_FRAME_LEN
      = (MK_STATUS_OK, wire ?f @ drop (length (wire ?f)) (replicate SLVR_MAX_FRAME_LEN 0), Some (length (wire ?f)))"
    using encode_wire[OF f(1), of SLVR_MAX_FRAME_LEN] f(3) assms length_wire[OF f(1)] by (simp add: SLVR_MAX_FRAME_LEN_def)
  moreover have "wire ?f \<noteq> []" using length_wire[OF f(1)] by auto
  ultimately show ?thesis unfolding s protocol_service_send_frame_def
    by (simp add: write_raw_bytes_def set_proto_def sent_def)
qed

text \<open>A list of messages and the frames that carry them\<close>

definition send_all :: "(u8 \<times> u8 list) list \<Rightarrow> 'a sliver_scheme \<Rightarrow> 'a sliver_scheme" where
  "send_all ms s = fold (\<lambda>m. send (fst m) (snd m)) ms s"

fun frames_of :: "u8 \<Rightarrow> (u8 \<times> u8 list) list \<Rightarrow> slvr_frame list" where
  "frames_of q [] = []"
| "frames_of q (m # ms) = msg_frame (fst m) (snd m) q # frames_of (q + 1) ms"

lemma set_proto_comp: "set_proto g (set_proto f s) = set_proto (\<lambda>p. g (f p)) s"
  by (simp add: set_proto_def)

lemma send_all_sent:
  "\<forall>m \<in> set ms. length (snd m) \<le> 512 \<Longrightarrow> send_all ms s = set_proto (fold sent ms) s"
proof (induction ms arbitrary: s)
  case Nil
  show ?case by (simp add: send_all_def set_proto_def)
next
  case (Cons m ms)
  then have "send_all (m # ms) s = send_all ms (set_proto (sent m) s)"
    using send_sent[of "snd m" "fst m" s] by (simp add: send_all_def)
  then show ?case using Cons by (simp add: set_proto_comp)
qed

lemma fold_sent:
  assumes "\<forall>m \<in> set ms. length (snd m) \<le> 512" and "mock_inv (pr_mock_tx p)"
    and "length (mock_bytes (pr_mock_tx p)) + length (concat (map wire (frames_of (pr_tx_seq p) ms))) \<le> 2047"
  shows "mock_inv (pr_mock_tx (fold sent ms p))
    \<and> mock_bytes (pr_mock_tx (fold sent ms p)) = mock_bytes (pr_mock_tx p) @ concat (map wire (frames_of (pr_tx_seq p) ms))
    \<and> pr_tx_frames (fold sent ms p) = pr_tx_frames p + of_nat (length ms) \<and> pr_connected (fold sent ms p) = pr_connected p
    \<and> pr_rx_frames (fold sent ms p) = pr_rx_frames p"
  using assms
proof (induction ms arbitrary: p)
  case (Cons m ms)
  let ?f = "msg_frame (fst m) (snd m) (pr_tx_seq p)"
  have "mock_inv (mock_write (wire ?f) (pr_mock_tx p))" "mock_bytes (mock_write (wire ?f) (pr_mock_tx p)) = mock_bytes (pr_mock_tx p) @ wire ?f"
    using mock_write_bytes[OF Cons.prems(2), of "wire ?f"] Cons.prems(3) by simp_all
  then show ?case using Cons.IH[of "sent m p"] Cons.prems by (simp add: sent_def)
qed simp

lemma length_frames:
  "\<forall>m \<in> set ms. length (snd m) \<le> 512 \<Longrightarrow>
   length (concat (map wire (frames_of q ms))) = sum_list (map (\<lambda>m. 12 + length (snd m)) ms)"
  by (induction ms arbitrary: q) (simp_all add: length_wire msg_frame_ok)

text \<open>The host's parser gets back types, contents and consecutive sequence numbers.\<close>

lemma host_receives:
  assumes "\<forall>m \<in> set ms. length (snd m) \<le> 512" and "idle h"
  shows "\<exists>gs h'. slvr_feed (concat (map wire (frames_of q ms))) h = (gs, h') \<and> idle h'
    \<and> map (\<lambda>g. (sf_type g, content g)) gs = ms
    \<and> map sf_sequence gs = map (\<lambda>i. q + of_nat i) [0..<length ms]"
  using assms
proof (induction ms arbitrary: q h)
  case (Cons m ms)
  let ?f = "msg_frame (fst m) (snd m) q"
  have f: "frame_ok ?f" "content ?f = snd m" using msg_frame_ok[of "snd m"] Cons.prems(1) by simp_all
  obtain g p where g: "slvr_feed (wire ?f) h = ([g], p)" "same_frame g ?f" "idle p"
    using feed_wire[OF Cons.prems(2) f(1)] by metis
  obtain gs h' where r: "slvr_feed (concat (map wire (frames_of (q + 1) ms))) p = (gs, h')" "idle h'"
    "map (\<lambda>g. (sf_type g, content g)) gs = ms" "map sf_sequence gs = map (\<lambda>i. q + 1 + of_nat i) [0..<length ms]"
    using Cons.IH[OF _ g(3), of "q + 1"] Cons.prems(1) by auto
  have "sf_type g = fst m" "content g = snd m" "sf_sequence g = q"
    using g(2) f(2) by (simp_all add: same_frame_def msg_frame_def)
  moreover have "map (\<lambda>i. q + of_nat i) [0..<length (m # ms)] = q # map (\<lambda>i. q + 1 + of_nat i) [0..<length ms]"
    by (simp add: map_upt_Suc ac_simps del: upt_Suc)
  ultimately show ?case using g(1) r by (simp add: feed_append)
qed simp

section \<open>One request\<close>

lemma drain_step:
  assumes "mock_inv (pr_mock_rx (sl_proto s))" and "mock_bytes (pr_mock_rx (sl_proto s)) = b # bs"
  obtains r where "mock_inv r" and "mock_bytes r = bs"
    and "drain_rx host s = drain_rx host (receive_byte host b (set_proto (\<lambda>p. p\<lparr>pr_mock_rx := r\<rparr>) s))"
proof -
  obtain x r where g: "mock_get (pr_mock_rx (sl_proto s)) = (x, r)" by fastforce
  have "mock_inv r" "(x, mock_bytes r) = list_get (b # bs)"
    using serial_port.get_inv[OF assms(1)] serial_port.get_refines[OF assms(1)] g assms(2) by simp_all
  then show thesis using that[of r] g by (simp add: list_get_def drain_rx.simps[of _ s])
qed

lemma port_fields:
  "(p :: proto)\<lparr>pr_parser := pr_parser p, pr_mock_rx := pr_mock_rx p\<rparr> = p"
  "p\<lparr>pr_mock_rx := r, pr_parser := q\<rparr> = p\<lparr>pr_parser := q, pr_mock_rx := r\<rparr>"
  by simp_all

lemma set_proto_same: "f (sl_proto s) = sl_proto s \<Longrightarrow> set_proto f s = s"
  by (simp add: set_proto_def)

text \<open>Bytes that complete no frame only move the parser.\<close>

lemma drain_quiet:
  assumes "mock_inv (pr_mock_rx (sl_proto s))" and "mock_bytes (pr_mock_rx (sl_proto s)) = xs @ ys"
    and "slvr_feed xs (pr_parser (sl_proto s)) = ([], p')"
  shows "\<exists>r. mock_inv r \<and> mock_bytes r = ys \<and>
    drain_rx host s = drain_rx host (set_proto (\<lambda>p. p\<lparr>pr_parser := p', pr_mock_rx := r\<rparr>) s)"
  using assms
proof (induction xs arbitrary: s)
  case Nil
  then have "set_proto (\<lambda>p. p\<lparr>pr_parser := p', pr_mock_rx := pr_mock_rx (sl_proto s)\<rparr>) s = s"
    by (intro set_proto_same) (simp add: port_fields)
  then show ?case using Nil by (intro exI[of _ "pr_mock_rx (sl_proto s)"]) simp
next
  case (Cons b xs)
  obtain x p1 where p1: "parser_step b (pr_parser (sl_proto s)) = (x, p1)" by fastforce
  then have x: "x = None" "slvr_feed xs p1 = ([], p')" using Cons.prems(3) by (auto split: prod.splits option.splits)
  have bs: "mock_bytes (pr_mock_rx (sl_proto s)) = b # (xs @ ys)" using Cons.prems(2) by simp
  obtain r where r: "mock_inv r" "mock_bytes r = xs @ ys"
    "drain_rx host s = drain_rx host (receive_byte host b (set_proto (\<lambda>p. p\<lparr>pr_mock_rx := r\<rparr>) s))"
    by (rule drain_step[OF Cons.prems(1) bs])
  have "receive_byte host b (set_proto (\<lambda>p. p\<lparr>pr_mock_rx := r\<rparr>) s) = set_proto (\<lambda>p. p\<lparr>pr_parser := p1, pr_mock_rx := r\<rparr>) s"
    using p1 x(1) by (simp add: receive_byte_def set_proto_def)
  then show ?case using Cons.IH[of "set_proto (\<lambda>p. p\<lparr>pr_parser := p1, pr_mock_rx := r\<rparr>) s"] r x(2)
    by (simp add: set_proto_def)
qed

text \<open>A sequence that yields one frame has a byte that completes it.\<close>

lemma feed_one:
  "slvr_feed bs p = ([g], p') \<Longrightarrow>
   \<exists>xs b ys q q'. bs = xs @ b # ys \<and> slvr_feed xs p = ([], q) \<and> parser_step b q = (Some g, q') \<and> slvr_feed ys q' = ([], p')"
proof (induction bs arbitrary: p)
  case (Cons b bs)
  obtain x p1 where p1: "parser_step b p = (x, p1)" by fastforce
  show ?case
  proof (cases x)
    case None
    then have "slvr_feed bs p1 = ([g], p')" using Cons.prems p1 by (auto split: prod.splits)
    from Cons.IH[OF this] obtain xs c ys q q' where
      "bs = xs @ c # ys" "slvr_feed xs p1 = ([], q)" "parser_step c q = (Some g, q')" "slvr_feed ys q' = ([], p')" by blast
    then show ?thesis using p1 None
      by (intro exI[of _ "b # xs"] exI[of _ c] exI[of _ ys] exI[of _ q] exI[of _ q']) simp
  next
    case (Some h)
    then have "h = g" "slvr_feed bs p1 = ([], p')" using Cons.prems p1 by (auto split: prod.splits)
    then show ?thesis using p1 Some
      by (intro exI[of _ "[]"] exI[of _ b] exI[of _ bs] exI[of _ p] exI[of _ p1]) simp
  qed
qed simp

lemma drain_one:
  assumes "mock_inv (pr_mock_rx (sl_proto s))" and "slvr_feed (mock_bytes (pr_mock_rx (sl_proto s))) (pr_parser (sl_proto s)) = ([g], p')"
  shows "\<exists>r r' q. mock_inv r' \<and> mock_bytes r' = [] \<and> drain_rx host s =
     Some (set_proto (\<lambda>p. p\<lparr>pr_parser := p', pr_mock_rx := r'\<rparr>)
       (handle_incoming_frame host g (set_proto (\<lambda>p. p\<lparr>pr_parser := q, pr_mock_rx := r\<rparr>) s)))"
proof -
  obtain xs b ys q q' where f: "mock_bytes (pr_mock_rx (sl_proto s)) = xs @ b # ys" "slvr_feed xs (pr_parser (sl_proto s)) = ([], q)"
    "parser_step b q = (Some g, q')" "slvr_feed ys q' = ([], p')" using feed_one[OF assms(2)] by blast
  obtain r0 where r0: "mock_inv r0" "mock_bytes r0 = b # ys"
    "drain_rx host s = drain_rx host (set_proto (\<lambda>p. p\<lparr>pr_parser := q, pr_mock_rx := r0\<rparr>) s)"
    using drain_quiet[OF assms(1) f(1,2)] by blast
  let ?s1 = "set_proto (\<lambda>p. p\<lparr>pr_parser := q, pr_mock_rx := r0\<rparr>) s"
  have s1: "mock_inv (pr_mock_rx (sl_proto ?s1))" "mock_bytes (pr_mock_rx (sl_proto ?s1)) = b # ys"
    using r0 by (simp_all add: set_proto_def)
  obtain r where r: "mock_inv r" "mock_bytes r = ys"
    "drain_rx host ?s1 = drain_rx host (receive_byte host b (set_proto (\<lambda>p. p\<lparr>pr_mock_rx := r\<rparr>) ?s1))"
    by (rule drain_step[OF s1])
  let ?s2 = "set_proto (\<lambda>p. p\<lparr>pr_parser := q', pr_mock_rx := r\<rparr>) s"
  let ?s3 = "handle_incoming_frame host g ?s2"
  have "receive_byte host b (set_proto (\<lambda>p. p\<lparr>pr_mock_rx := r\<rparr>) ?s1) = ?s3"
    using f(3) by (simp add: receive_byte_def set_proto_def port_fields(2))
  moreover have s3: "pr_mock_rx (sl_proto ?s3) = r" "pr_parser (sl_proto ?s3) = q'"
    using port_handle[of ?s2 host g] by (simp_all add: port_step_def set_proto_def)
  moreover obtain r' where "mock_inv r'" "mock_bytes r' = []"
    "drain_rx host ?s3 = drain_rx host (set_proto (\<lambda>p. p\<lparr>pr_parser := p', pr_mock_rx := r'\<rparr>) ?s3)"
    using drain_quiet[of ?s3 ys "[]" p' host] r(1,2) f(4) s3 by auto
  moreover have "drain_rx host t = Some t" if "mock_inv (pr_mock_rx (sl_proto t))" "mock_bytes (pr_mock_rx (sl_proto t)) = []" for t :: "'a sliver_scheme"
    using serial_port.get_refines[OF that(1)] that(2) by (cases "mock_get (pr_mock_rx (sl_proto t))") (simp add: list_get_def drain_rx.simps)
  ultimately show ?thesis using r0(3) r(3) by (intro exI[of _ r] exI[of _ r'] exI[of _ q']) (simp add: set_proto_def)
qed

section \<open>The answers to a query\<close>

definition is_query :: "slvr_frame \<Rightarrow> bool" where
  "is_query f \<longleftrightarrow> sf_type f \<in> {SLVR_CMD_CONNECT, SLVR_CMD_GET_INFO, SLVR_CMD_GET_STATUS, SLVR_CMD_PING}"

definition status_messages :: "'a sliver_scheme \<Rightarrow> (u8 \<times> u8 list) list" where
  "status_messages s =
     [(SLVR_MSG_DEVICE_STATUS, device_status_bytes (device_status_of (sc_kernel s) (fault_count_byte (sc_fm s)))),
      (SLVR_MSG_MEMORY_STATUS, memory_status_bytes (memory_status_of (mk_memory_get_stats (sl_mem s)) diag_identity)),
      (SLVR_MSG_STORAGE_STATUS, storage_status_bytes (storage_status_of (vfs_block_get_sector_count (v_blk (sl_vfs s)))))]"

definition replies :: "slvr_frame \<Rightarrow> 'a sliver_scheme \<Rightarrow> (u8 \<times> u8 list) list" where
  "replies f s =
     (let info = (SLVR_MSG_DEVICE_INFO, device_info_bytes (device_info_of diag_identity)) in
      if sf_type f = SLVR_CMD_CONNECT
      then [(SLVR_MSG_HELLO, bytes_of ''SLIVEROS_READY''), info] @ status_messages s
           @ [(SLVR_MSG_LOG, log_bytes (log_of 1 (mk_kernel_get_tick s) ''Host connected via Web Serial (SLVR/1)''))]
      else if sf_type f = SLVR_CMD_GET_INFO then [info]
      else if sf_type f = SLVR_CMD_GET_STATUS then status_messages s
      else if sf_type f = SLVR_CMD_PING then [(SLVR_MSG_PONG, content f)] else [])"

lemma send_keeps [simp]:
  "sc_kernel (send type payload s) = sc_kernel s" "sc_fm (send type payload s) = sc_fm s"
  "sl_mem (send type payload s) = sl_mem s" "sl_vfs (send type payload s) = sl_vfs s"
  by (simp_all add: send_def send_typed_message_def protocol_service_send_frame_def write_raw_bytes_def set_proto_def Let_def
      split: option.split prod.split)

lemma set_proto_keeps [simp]:
  "sc_kernel (set_proto f s) = sc_kernel s" "sc_fm (set_proto f s) = sc_fm s"
  "sl_mem (set_proto f s) = sl_mem s" "sl_vfs (set_proto f s) = sl_vfs s" "sl_proto (set_proto f s) = f (sl_proto s)"
  by (simp_all add: set_proto_def)

lemmas message_defs = send_device_info_def send_device_status_def send_memory_status_def send_storage_status_def
  mk_kernel_get_instance_def mk_kernel_get_tick_def

lemma send_all_simps: "send_all [] s = s" "send_all (m # ms) s = send_all ms (send (fst m) (snd m) s)"
  by (simp_all add: send_all_def)

lemmas command_defs = SLVR_CMD_CONNECT_def SLVR_CMD_GET_INFO_def SLVR_CMD_GET_STATUS_def SLVR_CMD_LAUNCH_APP_def
  SLVR_CMD_EXIT_APP_def SLVR_CMD_APP_INPUT_def SLVR_CMD_TERMINAL_INPUT_def SLVR_CMD_RESET_def SLVR_CMD_PING_def

lemma handle_query:
  assumes "is_query f" and "frame_ok f"
  shows "handle_incoming_frame host f s = send_all (replies f s)
    (set_proto (\<lambda>p. p\<lparr>pr_rx_frames := pr_rx_frames p + 1, pr_connected := pr_connected p \<or> sf_type f = SLVR_CMD_CONNECT\<rparr>) s)"
proof -
  have q: "sf_type f = SLVR_CMD_CONNECT \<or> sf_type f = SLVR_CMD_GET_INFO \<or> sf_type f = SLVR_CMD_GET_STATUS \<or> sf_type f = SLVR_CMD_PING"
    using assms(1) by (simp add: is_query_def)
  have pong: "snd (send_typed_message SLVR_MSG_PONG (Some (sf_payload f)) (sf_length f) t) = send SLVR_MSG_PONG (content f) t" for t :: "'a sliver_scheme"
  proof -
    have "sf_length f = of_nat (length (content f))" using length_content[OF assms(2)] by simp
    moreover have "\<not> SLVR_MAX_PAYLOAD_LEN < sf_length f" using assms(2) by (simp add: frame_ok_def not_less)
    ultimately show ?thesis by (simp add: send_def send_typed_message_def Let_def content_def del: length_take)
  qed
  have log: "snd (protocol_service_send_log 1 (Some m) t) = send SLVR_MSG_LOG (log_bytes (log_of 1 (mk_kernel_get_tick t) m)) t"
    for m and t :: "'a sliver_scheme" by (simp add: protocol_service_send_log_def send_def Let_def)
  show ?thesis using q
  proof (elim disjE)
    assume "sf_type f = SLVR_CMD_CONNECT"
    then show ?thesis
      by (simp add: handle_incoming_frame_def replies_def status_messages_def Let_def log message_defs send_all_simps set_proto_comp)
  next
    assume t: "sf_type f = SLVR_CMD_GET_INFO"
    then have "sf_type f \<noteq> SLVR_CMD_CONNECT" by (simp add: command_defs)
    then show ?thesis using t
      by (simp add: handle_incoming_frame_def replies_def Let_def message_defs send_all_simps)
  next
    assume t: "sf_type f = SLVR_CMD_GET_STATUS"
    then have "sf_type f \<noteq> SLVR_CMD_CONNECT" "sf_type f \<noteq> SLVR_CMD_GET_INFO" by (simp_all add: command_defs)
    then show ?thesis using t
      by (simp add: handle_incoming_frame_def replies_def status_messages_def Let_def message_defs send_all_simps)
  next
    assume t: "sf_type f = SLVR_CMD_PING"
    then have "sf_type f \<notin> {SLVR_CMD_CONNECT, SLVR_CMD_GET_INFO, SLVR_CMD_GET_STATUS, SLVR_CMD_LAUNCH_APP, SLVR_CMD_EXIT_APP,
        SLVR_CMD_APP_INPUT, SLVR_CMD_TERMINAL_INPUT, SLVR_CMD_RESET}" by (simp add: command_defs)
    then show ?thesis using t by (simp add: handle_incoming_frame_def replies_def Let_def pong send_all_simps)
  qed
qed

text \<open>The sizes of the messages\<close>

lemma length_text_field [simp]: "length (text_field n t) = n"
  by (simp add: text_field_def length_strncpy)

lemma length_payloads [simp]:
  "length (device_info_bytes (device_info_of d)) = 128" "length (task_telemetry_bytes (task_telemetry_of tcb)) = 36"
  "length (device_status_bytes (device_status_of k c)) = 304" "length (memory_status_bytes m) = 36"
  "length (storage_status_bytes st) = 20" "length (log_bytes (log_of l t txt)) = 125"
  "length (terminal_bytes (terminal_of txt)) = 258" "length (game_state_bytes g) = 20"
  by (simp_all add: device_info_bytes_def device_info_of_def task_telemetry_bytes_def task_telemetry_of_def
      device_status_bytes_def device_status_of_def memory_status_bytes_def storage_status_bytes_def log_bytes_def log_of_def
      terminal_bytes_def terminal_of_def game_state_bytes_def length_concat comp_def MK_MAX_TASKS_def map_replicate_const
      sum_list_replicate Let_def)

lemma replies_small:
  assumes "frame_ok f"
  shows "\<forall>m \<in> set (replies f s). length (snd m) \<le> 512"
    and "sum_list (map (\<lambda>m. 12 + length (snd m)) (replies f s)) \<le> 2047"
proof -
  have c: "length (content f) \<le> 512"
    using assms length_content[OF assms] by (simp add: frame_ok_def SLVR_MAX_PAYLOAD_LEN_def word_le_nat_alt)
  then show "\<forall>m \<in> set (replies f s). length (snd m) \<le> 512"
    by (auto simp: replies_def status_messages_def Let_def)
  show "sum_list (map (\<lambda>m. 12 + length (snd m)) (replies f s)) \<le> 2047"
    using c by (simp add: replies_def status_messages_def Let_def)
qed

section \<open>A command and its answers\<close>

text \<open>What every command does to the counters\<close>

definition received :: "slvr_frame \<Rightarrow> proto \<Rightarrow> proto" where
  "received f p = p\<lparr>pr_rx_frames := pr_rx_frames p + 1, pr_connected := pr_connected p \<or> sf_type f = SLVR_CMD_CONNECT\<rparr>"

text \<open>The host sends the frame \<open>f\<close> to an idle port and parses with \<open>h\<close> what it reads back; the handler of \<open>f\<close>
  changes the state by \<open>eff\<close> and sends \<open>ms\<close>.\<close>

lemma exchange:
  fixes s :: "'a sliver_scheme" and ms :: "'a sliver_scheme \<Rightarrow> (u8 \<times> u8 list) list"
  assumes "idle (pr_parser (sl_proto s))" and "mock_inv (pr_mock_rx (sl_proto s))" and "mock_bytes (pr_mock_rx (sl_proto s)) = []"
    and "mock_inv (pr_mock_tx (sl_proto s))" and "mock_bytes (pr_mock_tx (sl_proto s)) = []"
    and "frame_ok f" and "idle h"
    and handle: "\<And>g t. frame_ok g \<Longrightarrow> same_frame g f \<Longrightarrow> handle_incoming_frame host g t = send_all (ms t) (set_proto (received f) (eff t))"
    and ms: "\<And>F t. ms (set_proto F t) = ms t" and eff: "\<And>F t. eff (set_proto F t) = set_proto F (eff t)"
    and small: "\<forall>m \<in> set (ms s). length (snd m) \<le> 512" "sum_list (map (\<lambda>m. 12 + length (snd m)) (ms s)) \<le> 2047"
  shows "\<exists>s' gs h'. drain_rx host (protocol_service_inject_rx_bytes (Some (wire f)) s) = Some s'
    \<and> slvr_feed (fst (protocol_service_pop_tx_bytes True 2048 s')) h = (gs, h')
    \<and> map (\<lambda>g. (sf_type g, content g)) gs = ms s
    \<and> map sf_sequence gs = map (\<lambda>i. pr_tx_seq (sl_proto s) + of_nat i) [0..<length (ms s)]
    \<and> protocol_service_get_rx_frame_count s' = protocol_service_get_rx_frame_count s + 1
    \<and> protocol_service_get_tx_frame_count s' = protocol_service_get_tx_frame_count s + of_nat (length (ms s))
    \<and> protocol_service_is_connected s' = (protocol_service_is_connected s \<or> sf_type f = SLVR_CMD_CONNECT)
    \<and> s'\<lparr>sl_proto := sl_proto s\<rparr> = eff s"
proof -
  let ?p = "sl_proto s" and ?ms = "ms s"
  have e: "sl_proto (eff t) = sl_proto t" for t
  proof -
    have "set_proto (\<lambda>_. sl_proto t) t = t" by (rule set_proto_same) simp
    then have "sl_proto (eff t) = sl_proto (eff (set_proto (\<lambda>_. sl_proto t) t))" by simp
    then show ?thesis by (simp add: eff)
  qed
  have w: "length (wire f) \<le> 2047" "wire f \<noteq> []"
    using length_wire[OF assms(6)] assms(6) by (auto simp: frame_ok_def SLVR_MAX_PAYLOAD_LEN_def word_le_nat_alt)
  let ?s1 = "protocol_service_inject_rx_bytes (Some (wire f)) s"
  have s1: "?s1 = set_proto (\<lambda>p. p\<lparr>pr_mock_rx := mock_write (wire f) (pr_mock_rx p)\<rparr>) s"
    using w(2) by (simp add: protocol_service_inject_rx_bytes_def)
  have rx: "mock_inv (pr_mock_rx (sl_proto ?s1))" "mock_bytes (pr_mock_rx (sl_proto ?s1)) = wire f"
    using mock_write_bytes[OF assms(2), of "wire f"] assms(3) w(1) by (simp_all add: s1)
  obtain g p' where g: "slvr_feed (wire f) (pr_parser ?p) = ([g], p')" "same_frame g f" by (rule feed_wire[OF assms(1,6)])
  have "parser_inv (pr_parser ?p)" using assms(1) by (simp add: parser_inv_def idle_def)
  from feed_inv[OF this g(1)] have gok: "frame_ok g" by simp
  obtain r r' q where d: "drain_rx host ?s1 = Some (set_proto (\<lambda>p. p\<lparr>pr_parser := p', pr_mock_rx := r'\<rparr>)
      (handle_incoming_frame host g (set_proto (\<lambda>p. p\<lparr>pr_parser := q, pr_mock_rx := r\<rparr>) ?s1)))"
    using drain_one[OF rx(1), of g p' host] g(1) rx(2) by (auto simp: s1)
  let ?p1 = "received f (?p\<lparr>pr_parser := q, pr_mock_rx := r\<rparr>)"
  let ?s' = "set_proto (\<lambda>p. (fold sent ?ms ?p1)\<lparr>pr_parser := p', pr_mock_rx := r'\<rparr>) (eff s)"
  have "drain_rx host ?s1 = Some ?s'"
    unfolding d option.inject handle[OF gok g(2)] unfolding s1 set_proto_comp ms eff send_all_sent[OF small(1)]
    by (simp add: set_proto_def e)
  moreover have tx: "mock_inv (pr_mock_tx (fold sent ?ms ?p1))"
    "mock_bytes (pr_mock_tx (fold sent ?ms ?p1)) = concat (map wire (frames_of (pr_tx_seq ?p) ?ms))"
    "pr_tx_frames (fold sent ?ms ?p1) = pr_tx_frames ?p + of_nat (length ?ms)"
    "pr_connected (fold sent ?ms ?p1) = (pr_connected ?p \<or> sf_type f = SLVR_CMD_CONNECT)"
    "pr_rx_frames (fold sent ?ms ?p1) = pr_rx_frames ?p + 1"
    using fold_sent[OF small(1), of ?p1] assms(4,5) length_frames[OF small(1)] small(2) by (simp_all add: received_def)
  moreover have "fst (protocol_service_pop_tx_bytes True 2048 ?s') = concat (map wire (frames_of (pr_tx_seq ?p) ?ms))"
    using mock_read_bytes[OF tx(1), of 2048] tx(2) length_frames[OF small(1), of "pr_tx_seq ?p"] small(2)
    by (simp add: protocol_service_pop_tx_bytes_def split_beta)
  moreover obtain gs h' where "slvr_feed (concat (map wire (frames_of (pr_tx_seq ?p) ?ms))) h = (gs, h')"
    "map (\<lambda>g. (sf_type g, content g)) gs = ?ms" "map sf_sequence gs = map (\<lambda>i. pr_tx_seq ?p + of_nat i) [0..<length ?ms]"
    using host_receives[OF small(1) assms(7)] by blast
  moreover have "(eff s)\<lparr>sl_proto := sl_proto (eff s)\<rparr> = eff s" by simp
  then have "?s'\<lparr>sl_proto := ?p\<rparr> = eff s" unfolding e by (simp add: set_proto_def)
  ultimately show ?thesis
    by (intro exI[of _ ?s'] exI[of _ gs] exI[of _ h'])
      (simp add: protocol_service_get_rx_frame_count_def protocol_service_get_tx_frame_count_def protocol_service_is_connected_def)
qed

section \<open>Properties\<close>

lemma proto_static_ready:
  "idle (pr_parser proto_static)" "mock_inv (pr_mock_rx proto_static)" "mock_inv (pr_mock_tx proto_static)"
  "mock_bytes (pr_mock_rx proto_static) = []" "mock_bytes (pr_mock_tx proto_static) = []" "pr_tx_seq proto_static = 0"
  by (simp_all add: proto_static_def idle_def slvr_frame_zero_def SLVR_MAX_PAYLOAD_LEN_def mock_inv_def mock_ring_static_def
      MOCK_BUFFER_SIZE_def mock_bytes_def mock_count_def ring_list_def)

text \<open>C7. Whatever bytes the host has sent, and whatever state the firmware is in, a run of the protocol
  task returns; it has consumed every byte, no ring index is out of bounds and the parser is inside its
  payload buffer.\<close>

theorem protocol_task_returns:
  assumes "proto_inv (sl_proto s)"
  shows "\<exists>s'. protocol_service_task host s = Some s' \<and> mock_bytes (pr_mock_rx (sl_proto s')) = [] \<and> proto_inv (sl_proto s')"
proof -
  obtain t where t: "drain_rx host s = Some t" "proto_inv (sl_proto t)" "mock_bytes (pr_mock_rx (sl_proto t)) = []"
    using drain_returns[OF assms] by blast
  let ?u = "broadcast_status (mk_kernel_get_tick s) (broadcast_game (mk_kernel_get_tick s) t)"
  have "port_step t (if pr_connected (sl_proto t) then ?u else t)"
    by (intro port_if port_broadcast port_refl)
  then show ?thesis using t by (simp add: protocol_service_task_def Let_def port_step_def proto_inv_def)
qed

theorem protocol_task_returns_witness:
  "\<exists>s'. protocol_service_task True (protocol_service_inject_rx_bytes (Some [83, 76, 86, 82, 1, 0x8C]) (sliver_static 0x3FC80000))
     = Some s' \<and> mock_bytes (pr_mock_rx (sl_proto s')) = []"
proof -
  let ?s = "protocol_service_inject_rx_bytes (Some [83, 76, 86, 82, 1, 0x8C]) (sliver_static 0x3FC80000)"
  have "proto_inv (sl_proto ?s)"
    using proto_static_ready mock_write_inv
    by (simp add: proto_inv_def protocol_service_inject_rx_bytes_def sliver_static_def set_proto_def idle_def parser_inv_def)
  then show ?thesis using protocol_task_returns[of ?s True] by blast
qed

text \<open>A query (CONNECT, GET_INFO, GET_STATUS, PING) that reaches an idle port is answered: the host,
  parsing the bytes it reads back, receives exactly the messages the query asks for, with consecutive
  sequence numbers; everything but the protocol service itself is as it was.\<close>

theorem host_query_answered:
  assumes "idle (pr_parser (sl_proto s))" and "mock_inv (pr_mock_rx (sl_proto s))" and "mock_bytes (pr_mock_rx (sl_proto s)) = []"
    and "mock_inv (pr_mock_tx (sl_proto s))" and "mock_bytes (pr_mock_tx (sl_proto s)) = []"
    and "frame_ok f" and "is_query f" and "idle h"
  shows "\<exists>s' gs h'. drain_rx host (protocol_service_inject_rx_bytes (Some (wire f)) s) = Some s'
    \<and> slvr_feed (fst (protocol_service_pop_tx_bytes True 2048 s')) h = (gs, h')
    \<and> map (\<lambda>g. (sf_type g, content g)) gs = replies f s
    \<and> map sf_sequence gs = map (\<lambda>i. pr_tx_seq (sl_proto s) + of_nat i) [0..<length (replies f s)]
    \<and> protocol_service_get_rx_frame_count s' = protocol_service_get_rx_frame_count s + 1
    \<and> protocol_service_get_tx_frame_count s' = protocol_service_get_tx_frame_count s + of_nat (length (replies f s))
    \<and> protocol_service_is_connected s' = (protocol_service_is_connected s \<or> sf_type f = SLVR_CMD_CONNECT)
    \<and> s'\<lparr>sl_proto := sl_proto s\<rparr> = s"
proof (rule exchange[where eff = "\<lambda>s. s" and ms = "replies f", OF assms(1-6,8) _ _ _ replies_small[OF assms(6)]])
  fix g and t :: "'a sliver_scheme"
  assume g: "frame_ok g" "same_frame g f"
  have q: "is_query g" "replies g t = replies f t" "sf_type g = sf_type f"
    using g(2) assms(7) by (simp_all add: is_query_def same_frame_def replies_def Let_def)
  show "handle_incoming_frame host g t = send_all (replies f t) (set_proto (received f) t)"
    using handle_query[OF q(1) g(1), of host t] q(2,3) by (simp add: received_def [abs_def])
next
  fix F and t :: "'a sliver_scheme"
  show "replies f (set_proto F t) = replies f t" by (simp add: replies_def status_messages_def Let_def mk_kernel_get_tick_def)
qed simp

theorem host_query_answered_witness:
  "\<exists>s' gs h'. drain_rx True (protocol_service_inject_rx_bytes (Some (wire demo_frame)) (sliver_static 0x3FC80000)) = Some s'
     \<and> slvr_feed (fst (protocol_service_pop_tx_bytes True 2048 s')) demo_parser = (gs, h')
     \<and> map (\<lambda>g. (sf_type g, content g)) gs = [(SLVR_MSG_PONG, [10, 20, 83])] \<and> map sf_sequence gs = [0]"
proof -
  have s: "sl_proto (sliver_static 0x3FC80000) = proto_static" by (simp add: sliver_static_def)
  have q: "is_query demo_frame" by (simp add: is_query_def demo_frame_def SLVR_CMD_PING_def)
  have r: "replies demo_frame (sliver_static 0x3FC80000) = [(SLVR_MSG_PONG, [10, 20, 83])]"
    by (simp add: replies_def demo_frame_def content_def command_defs slvr_frame_zero_def)
  show ?thesis
    using host_query_answered[OF _ _ _ _ _ demo_frame_ok q demo_parser_idle, of "sliver_static 0x3FC80000" True, unfolded s r]
      proto_static_ready by fastforce
qed

text \<open>C5. A command damaged on the line is never carried out: if one or two neighbouring bytes of its header
  fields (length and version kept) or of its payload change, the port consumes it, counts one CRC error and is
  ready for the next frame; nothing else of the firmware's state changes, no counter of the protocol service
  and no answer. \<open>f\<close> was sent, the bytes of \<open>f'\<close> arrive.\<close>

theorem damaged_command_ignored:
  assumes "idle (pr_parser (sl_proto s))" and "mock_inv (pr_mock_rx (sl_proto s))" and "mock_bytes (pr_mock_rx (sl_proto s)) = []"
    and "frame_ok f" and "frame_ok f'" and "sf_length f' = sf_length f"
    and "header_bytes f @ content f = pre @ xs @ post" and "header_bytes f' @ content f' = pre @ ys @ post"
    and "length xs = 2" and "length ys = 2" and "xs \<noteq> ys"
  shows "\<exists>p' r'. drain_rx host (protocol_service_inject_rx_bytes
        (Some (header_wire f' @ content f' @ crc_bytes (frame_crc f (content f)))) s)
      = Some (set_proto (\<lambda>p. p\<lparr>pr_parser := p', pr_mock_rx := r'\<rparr>) s)
    \<and> idle p' \<and> mock_inv r' \<and> mock_bytes r' = []
    \<and> sp_crc_errors p' = sp_crc_errors (pr_parser (sl_proto s)) + 1
    \<and> sp_frames_received p' = sp_frames_received (pr_parser (sl_proto s))"
proof -
  let ?bs = "header_wire f' @ content f' @ crc_bytes (frame_crc f (content f))"
  let ?s1 = "protocol_service_inject_rx_bytes (Some ?bs) s"
  have "length ?bs = length (wire f')" by (simp add: wire_def crc_bytes_def)
  then have w: "length ?bs \<le> 2047" "?bs \<noteq> []"
    using length_wire[OF assms(5)] assms(5) by (auto simp: frame_ok_def SLVR_MAX_PAYLOAD_LEN_def word_le_nat_alt)
  have s1: "?s1 = set_proto (\<lambda>p. p\<lparr>pr_mock_rx := mock_write ?bs (pr_mock_rx p)\<rparr>) s"
    using w(2) unfolding protocol_service_inject_rx_bytes_def option.case length_0_conv by (rule if_not_P)
  have rx: "mock_inv (pr_mock_rx (sl_proto ?s1))" "mock_bytes (pr_mock_rx (sl_proto ?s1)) = ?bs @ []"
    using mock_write_bytes[OF assms(2), of ?bs] assms(3) w(1) by (simp_all add: s1)
  obtain p' where p': "slvr_feed ?bs (pr_parser (sl_proto ?s1)) = ([], p')" "idle p'"
      "sp_crc_errors p' = sp_crc_errors (pr_parser (sl_proto s)) + 1"
      "sp_frames_received p' = sp_frames_received (pr_parser (sl_proto s))"
    using corrupted_frame_rejected[OF assms(1,4-11)] by (auto simp: s1)
  obtain r where r: "mock_inv r" "mock_bytes r = []"
    "drain_rx host ?s1 = drain_rx host (set_proto (\<lambda>p. p\<lparr>pr_parser := p', pr_mock_rx := r\<rparr>) ?s1)"
    using drain_quiet[OF rx p'(1)] by blast
  have "drain_rx host (set_proto (\<lambda>p. p\<lparr>pr_parser := p', pr_mock_rx := r\<rparr>) ?s1)
      = Some (set_proto (\<lambda>p. p\<lparr>pr_parser := p', pr_mock_rx := r\<rparr>) s)"
    using serial_port.get_refines[OF r(1)] r(2)
    by (cases "mock_get r") (simp add: s1 set_proto_def list_get_def drain_rx.simps[of _ "set_proto _ _"] drain_rx.simps)
  then show ?thesis using r p' by (intro exI[of _ p'] exI[of _ r]) simp
qed

text \<open>A PING frame whose type arrives as LAUNCH_APP\<close>

theorem damaged_command_ignored_witness:
  "\<exists>p' r'. drain_rx True (protocol_service_inject_rx_bytes
       (Some (header_wire (demo_frame\<lparr>sf_type := SLVR_CMD_LAUNCH_APP\<rparr>) @ content (demo_frame\<lparr>sf_type := SLVR_CMD_LAUNCH_APP\<rparr>)
         @ crc_bytes (frame_crc demo_frame (content demo_frame)))) (sliver_static 0x3FC80000))
     = Some (set_proto (\<lambda>p. p\<lparr>pr_parser := p', pr_mock_rx := r'\<rparr>) (sliver_static 0x3FC80000))
     \<and> sp_crc_errors p' = 1"
proof -
  let ?f = "demo_frame\<lparr>sf_type := SLVR_CMD_LAUNCH_APP\<rparr>" and ?s = "sliver_static 0x3FC80000"
  have s: "sl_proto ?s = proto_static" "sp_crc_errors (pr_parser proto_static) = 0"
    by (simp_all add: sliver_static_def proto_static_def)
  have h: "header_bytes demo_frame @ content demo_frame = [1] @ [0x8D, 0] @ [7, 0, 3, 10, 20, 83]"
    "header_bytes ?f @ content ?f = [1] @ [SLVR_CMD_LAUNCH_APP, 0] @ [7, 0, 3, 10, 20, 83]"
    by (simp_all add: header_bytes_def content_def demo_frame_def slvr_frame_zero_def)
  have f: "frame_ok ?f" using demo_frame_ok by (simp add: frame_ok_def)
  have n: "[0x8D, 0] \<noteq> [SLVR_CMD_LAUNCH_APP, 0]" by (simp add: SLVR_CMD_LAUNCH_APP_def)
  show ?thesis
    using damaged_command_ignored[of ?s demo_frame ?f, unfolded s, OF proto_static_ready(1,2,4) demo_frame_ok f _ h _ _ n]
    by fastforce
qed

end
