(* ===== verification/Host_Commands.thy ===== *)
theory Host_Commands
  imports Protocol_Service
begin

text \<open>
  What the host sees of the protocol service (\<^verbatim>\<open>os/protocol/protocol_service.c\<close>): for every command frame its
  effect on the firmware and the messages that answer it, from bytes to bytes; and what launching and leaving an
  application really does.
\<close>

section \<open>What a command does and answers\<close>

definition names_app :: "slvr_frame \<Rightarrow> bool" where
  "names_app f \<longleftrightarrow> content f \<noteq> [] \<and> unat (content f ! 0) < 4"

definition carried_out :: "bool \<Rightarrow> slvr_frame \<Rightarrow> 'a sliver_scheme \<Rightarrow> 'a sliver_scheme" where
  "carried_out host f s =
     (if sf_type f = SLVR_CMD_LAUNCH_APP \<and> names_app f
      then let t = snd (kern_app_transition host (app_id_of (unat (content f ! 0))) MK_APP_STATE_ACTIVE s)
           in t\<lparr>sc_kernel := (sc_kernel t)\<lparr>k_active_app := content f ! 0\<rparr>\<rparr>
      else if sf_type f = SLVR_CMD_EXIT_APP \<and> names_app f
      then snd (kern_app_transition host (app_id_of (unat (content f ! 0))) MK_APP_STATE_READY s)
      else if sf_type f = SLVR_CMD_APP_INPUT \<and> 2 \<le> length (content f) then set_input (content f ! 1) s
      else if sf_type f = SLVR_CMD_RESET then s\<lparr>sl_games := snd (retro_games_reset (sl_games s))\<rparr>
      else s)"

text \<open>The texts the shell prints for a line\<close>

definition shell_output :: "string \<Rightarrow> 'a sliver_scheme \<Rightarrow> string list" where
  "shell_output line s =
     (case scan_word 31 (cstr line) of
        None \<Rightarrow> [LF]
      | Some (cmd, _) \<Rightarrow>
          map (formatted 256)
            (if cmd = ''help'' then [help_text]
             else if cmd = ''apps'' then [apps_text (sc_kernel s)]
             else if cmd = ''status'' then [status_text (sc_kernel s)]
             else if cmd = ''mem'' then [mem_text (mk_memory_get_stats (sl_mem s))]
             else if cmd = ''tasks''
             then tasks_header # map task_line (filter (\<lambda>t. tcb_state t \<noteq> MK_TASK_STATE_UNUSED) (map ((!) (tasks_of s)) [0..<8]))
             else if cmd = ''vfs'' then [vfs_text (vfs_block_get_sector_count (v_blk (sl_vfs s)))]
             else if cmd = ''version'' then [version_text diag_identity]
             else if cmd = ''clear'' then [[CHR 0x1B] @ ''[2J'' @ [CHR 0x1B] @ ''[H'']
             else if cmd = ''reboot'' then [''Rebooting SliverOS runtime...'' @ CRLF]
             else [unknown_text cmd]))"

definition status_message :: "'a sliver_scheme \<Rightarrow> u8 \<times> u8 list" where
  "status_message s = (SLVR_MSG_DEVICE_STATUS, device_status_bytes (device_status_of (sc_kernel s) (fault_count_byte (sc_fm s))))"

definition app_message :: "u8 \<Rightarrow> 'a sliver_scheme \<Rightarrow> u8 \<times> u8 list" where
  "app_message aid s =
     (SLVR_MSG_APP_STATE, app_state_bytes (app_state_of aid (k_apps (sc_kernel s) ! unat aid) (app_data aid s)))"

definition text_message :: "string \<Rightarrow> u8 \<times> u8 list" where
  "text_message text = (SLVR_MSG_TERMINAL_OUTPUT, terminal_bytes (terminal_of text))"

definition answers :: "slvr_frame \<Rightarrow> 'a sliver_scheme \<Rightarrow> (u8 \<times> u8 list) list" where
  "answers f s =
     (if is_query f then replies f s
      else if sf_type f \<in> {SLVR_CMD_LAUNCH_APP, SLVR_CMD_EXIT_APP} \<and> names_app f
      then [app_message (content f ! 0) s, status_message s]
      else if sf_type f = SLVR_CMD_TERMINAL_INPUT \<and> content f \<noteq> []
      then map text_message (shell_output (chars_of (take 127 (content f))) s)
      else if sf_type f = SLVR_CMD_RESET
      then [(SLVR_MSG_LOG, log_bytes (log_of 1 (mk_kernel_get_tick s) ''System reset acknowledged'')), status_message s]
      else [])"

section \<open>The protocol state does not matter\<close>

lemma app_transition_proto:
  "snd (kern_app_transition host aid st (set_proto F s)) = set_proto F (snd (kern_app_transition host aid st s))"
  by (simp add: kern_app_transition_def set_proto_def sc_now_def split: prod.split)

lemma update_proto:
  "(set_proto F s)\<lparr>sc_kernel := k\<rparr> = set_proto F (s\<lparr>sc_kernel := k\<rparr>)"
  "(set_proto F s)\<lparr>sl_games := g\<rparr> = set_proto F (s\<lparr>sl_games := g\<rparr>)"
  "set_input b (set_proto F s) = set_proto F (set_input b s)" "sl_games (set_proto F s) = sl_games s"
  by (simp_all add: set_proto_def set_input_def)

lemma carried_out_proto: "carried_out host f (set_proto F s) = set_proto F (carried_out host f s)"
  by (simp only: carried_out_def Let_def app_transition_proto update_proto set_proto_keeps if_distrib[where f = "set_proto F"])

lemma app_data_proto: "app_data aid (set_proto F s) = app_data aid s"
  by (simp add: app_data_def set_proto_def)

lemma replies_proto: "replies f (set_proto F s) = replies f s"
  by (simp add: replies_def status_messages_def mk_kernel_get_tick_def Let_def)

lemma messages_proto:
  "status_message (set_proto F s) = status_message s" "app_message aid (set_proto F s) = app_message aid s"
  "shell_output line (set_proto F s) = shell_output line s" "mk_kernel_get_tick (set_proto F s) = mk_kernel_get_tick s"
  by (simp_all only: status_message_def app_message_def shell_output_def app_data_proto mk_kernel_get_tick_def set_proto_keeps)

lemma answers_proto: "answers f (set_proto F s) = answers f s"
  by (simp only: answers_def replies_proto messages_proto)

section \<open>The handler\<close>

lemma terminal_send: "terminal t s = send (fst (text_message t)) (snd (text_message t)) s"
  by (simp add: terminal_def protocol_service_send_terminal_def send_def text_message_def Let_def)

lemma log_send:
  "snd (protocol_service_send_log 1 (Some m) s) = send SLVR_MSG_LOG (log_bytes (log_of 1 (mk_kernel_get_tick s) m)) s"
  by (simp add: protocol_service_send_log_def send_def Let_def)

lemma status_send: "send_device_status s = send (fst (status_message s)) (snd (status_message s)) s"
  by (simp add: send_device_status_def status_message_def mk_kernel_get_instance_def)

lemma app_send: "unat aid < 4 \<Longrightarrow> send_app_state aid s = send (fst (app_message aid s)) (snd (app_message aid s)) s"
  by (simp add: send_app_state_def app_message_def mk_kernel_get_instance_def)

lemma status_message_send [simp]: "status_message (send type p s) = status_message s"
  by (simp add: status_message_def)

lemma send_all_append: "send_all (xs @ ys) s = send_all ys (send_all xs s)"
  by (simp add: send_all_def)

lemma shell_sends: "handle_terminal_command line s = send_all (map text_message (shell_output line s)) s"
proof -
  have tasks: "fold (\<lambda>i t. if tcb_state (tasks_of t ! i) \<noteq> MK_TASK_STATE_UNUSED
          then terminal (formatted 256 (task_line (tasks_of t ! i))) t else t) js t
      = send_all (map text_message (map (formatted 256) (map task_line
          (filter (\<lambda>t. tcb_state t \<noteq> MK_TASK_STATE_UNUSED) (map ((!) (tasks_of s)) js))))) t"
    if "sc_kernel t = sc_kernel s" for js and t :: "'a sliver_scheme"
    using that by (induction js arbitrary: t) (simp_all add: send_all_simps terminal_send)
  show ?thesis
  proof (cases "scan_word 31 (cstr line)")
    case None
    then show ?thesis by (simp add: handle_terminal_command_def shell_output_def send_all_simps terminal_send)
  next
    case (Some w)
    obtain cmd rest where w: "w = (cmd, rest)" by (cases w)
    show ?thesis
    proof (cases "cmd = ''tasks''")
      case True
      let ?t = "terminal (formatted 256 tasks_header) s"
      have "sc_kernel ?t = sc_kernel s" by (simp add: terminal_send)
      note t = tasks[OF this, of "[0..<8]"]
      have "handle_terminal_command line s = fold (\<lambda>i t. if tcb_state (tasks_of t ! i) \<noteq> MK_TASK_STATE_UNUSED
          then terminal (formatted 256 (task_line (tasks_of t ! i))) t else t) [0..<8] ?t"
        unfolding handle_terminal_command_def Some w option.case prod.case Let_def mk_kernel_get_instance_def MK_MAX_TASKS_def
        by (simp only: True) simp
      then show ?thesis unfolding t using Some w True by (simp add: shell_output_def send_all_simps terminal_send)
    next
      case False
      then show ?thesis
        unfolding handle_terminal_command_def shell_output_def Some w option.case prod.case Let_def mk_kernel_get_instance_def
        by (simp add: send_all_simps terminal_send del: fold_simps)
    qed
  qed
qed

lemma content_facts:
  assumes "frame_ok f"
  shows "1 \<le> sf_length f \<longleftrightarrow> content f \<noteq> []" and "2 \<le> sf_length f \<longleftrightarrow> 2 \<le> length (content f)"
    and "content f \<noteq> [] \<Longrightarrow> sf_payload f ! 0 = content f ! 0" and "2 \<le> length (content f) \<Longrightarrow> sf_payload f ! 1 = content f ! 1"
    and "take (unat (if 127 < sf_length f then 127 else sf_length f)) (sf_payload f) = take 127 (content f)"
proof -
  have n: "length (content f) = unat (sf_length f)" by (rule length_content[OF assms])
  then show "1 \<le> sf_length f \<longleftrightarrow> content f \<noteq> []" "2 \<le> sf_length f \<longleftrightarrow> 2 \<le> length (content f)"
    by (auto simp: word_le_nat_alt simp flip: length_0_conv)
  show "sf_payload f ! 0 = content f ! 0" if "content f \<noteq> []" using that n by (simp add: content_def flip: length_greater_0_conv)
  show "sf_payload f ! 1 = content f ! 1" if "2 \<le> length (content f)" using that n by (simp add: content_def)
  show "take (unat (if 127 < sf_length f then 127 else sf_length f)) (sf_payload f) = take 127 (content f)"
    by (auto simp: content_def word_less_nat_alt min_def not_less)
qed

lemma app_count: "app_id_ord MK_APP_COUNT = 4"
  by simp

lemma handle_command:
  assumes ok: "frame_ok f"
  shows "handle_incoming_frame host f s = send_all (answers f (carried_out host f s)) (set_proto (received f) (carried_out host f s))"
proof (cases "is_query f")
  case True
  then have "sf_type f \<notin> {SLVR_CMD_LAUNCH_APP, SLVR_CMD_EXIT_APP, SLVR_CMD_APP_INPUT, SLVR_CMD_RESET}"
    unfolding is_query_def by (elim insertE emptyE) (simp_all add: command_defs)
  then have "carried_out host f s = s" by (simp add: carried_out_def)
  then show ?thesis using handle_query[OF True ok, of host s] True by (simp add: answers_def received_def [abs_def])
next
  case False
  let ?rx = "set_proto (\<lambda>p. p\<lparr>pr_rx_frames := pr_rx_frames p + 1\<rparr>) s" and ?aid = "content f ! 0"
  have q: "sf_type f \<noteq> SLVR_CMD_CONNECT" "sf_type f \<noteq> SLVR_CMD_GET_INFO" "sf_type f \<noteq> SLVR_CMD_GET_STATUS" "sf_type f \<noteq> SLVR_CMD_PING"
    using False by (simp_all add: is_query_def)
  have rx: "set_proto (received f) t = set_proto (\<lambda>p. p\<lparr>pr_rx_frames := pr_rx_frames p + 1\<rparr>) t" for t :: "'a sliver_scheme"
    using q(1) by (simp add: received_def [abs_def])
  note cf = content_facts[OF ok] and protos = app_transition_proto update_proto set_proto_keeps
  consider "sf_type f = SLVR_CMD_LAUNCH_APP" | "sf_type f = SLVR_CMD_EXIT_APP" | "sf_type f = SLVR_CMD_APP_INPUT"
    | "sf_type f = SLVR_CMD_TERMINAL_INPUT" | "sf_type f = SLVR_CMD_RESET"
    | "sf_type f \<notin> {SLVR_CMD_LAUNCH_APP, SLVR_CMD_EXIT_APP, SLVR_CMD_APP_INPUT, SLVR_CMD_TERMINAL_INPUT, SLVR_CMD_RESET}" by blast
  then show ?thesis
  proof cases
    case 1
    then have t: "sf_type f \<notin> {SLVR_CMD_EXIT_APP, SLVR_CMD_APP_INPUT, SLVR_CMD_TERMINAL_INPUT, SLVR_CMD_RESET}" by (simp add: command_defs)
    show ?thesis
    proof (cases "names_app f")
      case False
      then show ?thesis using 1 t q cf(1,3)
        by (auto simp: handle_incoming_frame_def answers_def carried_out_def launch_app_def names_app_def rx send_all_simps
            is_query_def app_count Let_def)
    next
      case True
      then have n: "content f \<noteq> []" "unat ?aid < 4" by (simp_all add: names_app_def)
      then show ?thesis using 1 t q True cf(1,3)
        by (simp add: handle_incoming_frame_def answers_def carried_out_def launch_app_def rx send_all_simps is_query_def
            app_count protos status_send app_send messages_proto Let_def)
    qed
  next
    case 2
    then have t: "sf_type f \<notin> {SLVR_CMD_LAUNCH_APP, SLVR_CMD_APP_INPUT, SLVR_CMD_TERMINAL_INPUT, SLVR_CMD_RESET}" by (simp add: command_defs)
    show ?thesis
    proof (cases "names_app f")
      case False
      then show ?thesis using 2 t q cf(1,3)
        by (auto simp: handle_incoming_frame_def answers_def carried_out_def exit_app_def names_app_def rx send_all_simps
            is_query_def app_count Let_def)
    next
      case True
      then have n: "content f \<noteq> []" "unat ?aid < 4" by (simp_all add: names_app_def)
      then show ?thesis using 2 t q True cf(1,3)
        by (simp add: handle_incoming_frame_def answers_def carried_out_def exit_app_def rx send_all_simps is_query_def
            app_count protos status_send app_send messages_proto Let_def)
    qed
  next
    case 3
    then have "sf_type f \<notin> {SLVR_CMD_LAUNCH_APP, SLVR_CMD_EXIT_APP, SLVR_CMD_TERMINAL_INPUT, SLVR_CMD_RESET}" by (simp add: command_defs)
    then show ?thesis using 3 q cf(2,4)
      by (simp add: handle_incoming_frame_def answers_def carried_out_def rx send_all_simps is_query_def protos Let_def)
  next
    case 4
    then have "sf_type f \<notin> {SLVR_CMD_LAUNCH_APP, SLVR_CMD_EXIT_APP, SLVR_CMD_APP_INPUT, SLVR_CMD_RESET}" by (simp add: command_defs)
    moreover have "0 < sf_length f \<longleftrightarrow> content f \<noteq> []" using cf(1) by (simp add: word_le_nat_alt word_less_nat_alt Suc_le_eq)
    ultimately show ?thesis using 4 q cf(5)
      by (simp add: handle_incoming_frame_def answers_def carried_out_def rx send_all_simps is_query_def shell_sends messages_proto Let_def)
  next
    case 5
    then have "sf_type f \<notin> {SLVR_CMD_LAUNCH_APP, SLVR_CMD_EXIT_APP, SLVR_CMD_APP_INPUT, SLVR_CMD_TERMINAL_INPUT}" by (simp add: command_defs)
    then show ?thesis using 5 q
      by (simp add: handle_incoming_frame_def answers_def carried_out_def rx send_all_simps is_query_def protos log_send
          status_send messages_proto mk_kernel_get_tick_def Let_def)
  next
    case 6
    then show ?thesis using q
      by (simp add: handle_incoming_frame_def answers_def carried_out_def rx send_all_simps is_query_def Let_def)
  qed
qed

section \<open>The answers fit\<close>

text \<open>A text is 270 bytes on the wire, the transmit ring holds 2047: the list of more than six tasks would be cut.\<close>

definition listed_tasks :: "'a sliver_scheme \<Rightarrow> mk_tcb list" where
  "listed_tasks s = filter (\<lambda>t. tcb_state t \<noteq> MK_TASK_STATE_UNUSED) (map ((!) (tasks_of s)) [0..<8])"

lemma length_app_data: "length (app_data aid s) \<le> 128"
  by (simp add: app_data_def Let_def)

lemma length_messages [simp]:
  "length (snd (status_message s)) = 304" "length (snd (app_message aid s)) = 136" "length (snd (text_message t)) = 258"
  using length_app_data[of aid s] by (simp_all add: status_message_def app_message_def text_message_def app_state_bytes_def app_state_of_def)

lemma length_shell_output: "length (listed_tasks s) \<le> 6 \<Longrightarrow> length (shell_output line s) \<le> 7"
  by (simp add: shell_output_def listed_tasks_def split: option.split prod.split)

lemma answers_small:
  assumes "frame_ok f" and "length (listed_tasks s) \<le> 6"
  shows "\<forall>m \<in> set (answers f s). length (snd m) \<le> 512"
    and "sum_list (map (\<lambda>m. 12 + length (snd m)) (answers f s)) \<le> 2047"
proof -
  have st: "length b = 304" if "(a, b) = status_message s" for a b using length_messages(1)[of s] by (simp flip: that)
  show "\<forall>m \<in> set (answers f s). length (snd m) \<le> 512"
    using replies_small(1)[OF assms(1), of s] by (auto simp: answers_def st)
  have "sum_list (map (\<lambda>m. 12 + length (snd m)) (map text_message ts)) = 270 * length ts" for ts
    by (induction ts) simp_all
  then show "sum_list (map (\<lambda>m. 12 + length (snd m)) (answers f s)) \<le> 2047"
    using replies_small(2)[OF assms(1), of s] length_shell_output[OF assms(2), of "chars_of (take 127 (content f))"]
    by (simp add: answers_def del: map_map)
qed

lemma carried_out_tasks: "tasks_of (carried_out host f s) = tasks_of s"
  by (auto simp: carried_out_def set_input_def kern_app_transition_def mk_app_transition_def Let_def split: prod.split)

section \<open>What the protocol names and the service does not use\<close>

definition SLVR_CMD_KEY_EVENT :: u8 where "SLVR_CMD_KEY_EVENT = 0x87"
definition SLVR_CMD_BUTTON_EVENT :: u8 where "SLVR_CMD_BUTTON_EVENT = 0x88"
definition SLVR_CMD_NAVIGATION :: u8 where "SLVR_CMD_NAVIGATION = 0x89"
definition SLVR_CMD_GET_LOGS :: u8 where "SLVR_CMD_GET_LOGS = 0x8B"

definition SLVR_MSG_NONE :: u8 where "SLVR_MSG_NONE = 0x00"
definition SLVR_MSG_READY :: u8 where "SLVR_MSG_READY = 0x03"
definition SLVR_MSG_DESKTOP_STATE :: u8 where "SLVR_MSG_DESKTOP_STATE = 0x04"
definition SLVR_MSG_ERROR :: u8 where "SLVR_MSG_ERROR = 0x0A"
definition SLVR_MSG_EVENT :: u8 where "SLVR_MSG_EVENT = 0x0B"

text \<open>Four commands of the protocol only advance the frame counter; five messages are never an answer.\<close>

lemma unsupported_commands:
  assumes "sf_type f \<in> {SLVR_CMD_KEY_EVENT, SLVR_CMD_BUTTON_EVENT, SLVR_CMD_NAVIGATION, SLVR_CMD_GET_LOGS}"
  shows "handle_incoming_frame host f s = set_proto (\<lambda>p. p\<lparr>pr_rx_frames := pr_rx_frames p + 1\<rparr>) s"
  using assms unfolding handle_incoming_frame_def Let_def
  by (elim insertE emptyE) (simp_all add: command_defs SLVR_CMD_KEY_EVENT_def SLVR_CMD_BUTTON_EVENT_def
      SLVR_CMD_NAVIGATION_def SLVR_CMD_GET_LOGS_def)

lemmas message_codes = SLVR_MSG_HELLO_def SLVR_MSG_DEVICE_INFO_def SLVR_MSG_APP_STATE_def SLVR_MSG_DEVICE_STATUS_def
  SLVR_MSG_MEMORY_STATUS_def SLVR_MSG_STORAGE_STATUS_def SLVR_MSG_LOG_def SLVR_MSG_PONG_def SLVR_MSG_TERMINAL_OUTPUT_def
  SLVR_MSG_NONE_def SLVR_MSG_READY_def SLVR_MSG_DESKTOP_STATE_def SLVR_MSG_ERROR_def SLVR_MSG_EVENT_def

lemma codes_if: "fst ` set a \<subseteq> S \<Longrightarrow> fst ` set b \<subseteq> S \<Longrightarrow> fst ` set (if c then a else b) \<subseteq> S"
  by simp

lemma answer_codes:
  "fst ` set (answers f s) \<subseteq> {SLVR_MSG_HELLO, SLVR_MSG_DEVICE_INFO, SLVR_MSG_APP_STATE, SLVR_MSG_DEVICE_STATUS,
     SLVR_MSG_MEMORY_STATUS, SLVR_MSG_STORAGE_STATUS, SLVR_MSG_LOG, SLVR_MSG_PONG, SLVR_MSG_TERMINAL_OUTPUT}"
  unfolding answers_def replies_def Let_def
  by (intro codes_if) (auto simp: status_messages_def app_message_def status_message_def text_message_def)

lemma messages_never_sent:
  "fst ` set (answers f s) \<inter> {SLVR_MSG_NONE, SLVR_MSG_READY, SLVR_MSG_DESKTOP_STATE, SLVR_MSG_ERROR, SLVR_MSG_EVENT} = {}"
  using Int_mono[OF answer_codes subset_refl] by (rule subset_empty[THEN iffD1, OF subset_trans]) (simp add: message_codes)

section \<open>Properties\<close>


definition demo_command :: "u8 \<Rightarrow> u8 \<Rightarrow> slvr_frame" where
  "demo_command cmd arg = slvr_frame_zero\<lparr>sf_version := 1, sf_type := cmd, sf_length := 1, sf_payload := arg # replicate 511 0\<rparr>"

lemma demo_command_ok: "frame_ok (demo_command cmd arg)" "content (demo_command cmd arg) = [arg]" "sf_type (demo_command cmd arg) = cmd"
  by (simp_all add: frame_ok_def demo_command_def content_def SLVR_VERSION_1_def SLVR_MAX_PAYLOAD_LEN_def)


lemma handle_command_kernel:
  assumes "frame_ok f"
  shows "sc_kernel (handle_incoming_frame host f s) = sc_kernel (carried_out host f s)"
    and "sc_fm (handle_incoming_frame host f s) = sc_fm (carried_out host f s)"
proof -
  have "sc_kernel (send_all ms t) = sc_kernel t \<and> sc_fm (send_all ms t) = sc_fm t" for ms and t :: "'a sliver_scheme"
    by (induction ms arbitrary: t) (simp_all add: send_all_simps)
  then show "sc_kernel (handle_incoming_frame host f s) = sc_kernel (carried_out host f s)"
    "sc_fm (handle_incoming_frame host f s) = sc_fm (carried_out host f s)"
    using handle_command[OF assms, of host s] by simp_all
qed

lemma app_id_of_four: "i < 4 \<Longrightarrow> app_id_of i \<noteq> MK_APP_COUNT \<and> app_id_ord (app_id_of i) = i"
  by (auto simp: app_id_of_def less_Suc_eq numeral_eq_Suc)


text \<open>The games of a kernel whose applications are ready\<close>

definition demo_ready :: sliver where
  "demo_ready = (sliver_static 0x3FC80000)\<lparr>sc_kernel := mk_kernel_zero\<lparr>k_apps := replicate 4 (mk_app_control_zero\<lparr>app_state := MK_APP_STATE_READY\<rparr>)\<rparr>,
     sc_fm := snd (mk_fault_manager_init fault_manager_static)\<rparr>"


end
