(* ===== verification/Firmware.thy ===== *)
theory Firmware
  imports Protocol_Service Memory_Pool Event_Bus Hal
begin

text \<open>
  \<^verbatim>\<open>os/main/main.c\<close>: the start-up sequence, and the firmware as one system: the tasks it registers, run by
  the executive over one state. What the hardware and the host do is an argument.
\<close>

section \<open>State\<close>

text \<open>The last two fields are no variables of the code: \<open>fw_calls\<close> counts the task calls, so that each gets its
  own readings of the hardware, and \<open>fw_fault\<close> is raised by a task call that accesses memory outside an
  array or does not return.\<close>

record firmware = sliver +
  fw_pool :: pool
  fw_bus :: event_bus
  fw_calls :: nat
  fw_fault :: bool

section \<open>The tasks\<close>

definition TASK_ID_HOST_PROTO :: u8 where "TASK_ID_HOST_PROTO = 0"
definition TASK_ID_BLE_HID :: u8 where "TASK_ID_BLE_HID = 1"
definition TASK_ID_WIFI_DIAG :: u8 where "TASK_ID_WIFI_DIAG = 2"
definition TASK_ID_NET_DIAG :: u8 where "TASK_ID_NET_DIAG = 3"
definition TASK_ID_GAMES :: u8 where "TASK_ID_GAMES = 4"

text \<open>The entry points: numbers that stand for the addresses of the five functions\<close>

definition at_protocol_service_task :: mk_task_entry where "at_protocol_service_task = 1"
definition at_ble_hid_task :: mk_task_entry where "at_ble_hid_task = 2"
definition at_wifi_diagnostics_task :: mk_task_entry where "at_wifi_diagnostics_task = 3"
definition at_network_diagnostics_task :: mk_task_entry where "at_network_diagnostics_task = 4"
definition at_retro_games_task :: mk_task_entry where "at_retro_games_task = 5"

text \<open>What happens outside between two task calls (the host reads and writes bytes, frames arrive) and what
  the hardware answers during the next one\<close>

record hardware =
  hw_host_reads :: nat
  hw_host_writes :: "u8 list"
  hw_frames :: "wifi_pkt list"
  hw_ms :: u32
  hw_net :: "string \<Rightarrow> u16 \<Rightarrow> tcp_answers"
  hw_level :: "u32 \<Rightarrow> u8"
  hw_clock :: "nat \<Rightarrow> u64"

definition outside :: "hardware \<Rightarrow> 'a sliver_scheme \<Rightarrow> 'a sliver_scheme" where
  "outside hw s =
     (let s1 = snd (protocol_service_pop_tx_bytes True (hw_host_reads hw) s);
          s2 = protocol_service_inject_rx_bytes (Some (hw_host_writes hw)) s1
      in s2\<lparr>sl_wifi := fold (\<lambda>pkt. wifi_promiscuous_rx_cb (hw_ms hw) (Some pkt)) (hw_frames hw) (sl_wifi s2)\<rparr>)"

definition call_task :: "bool \<Rightarrow> bool \<Rightarrow> hardware \<Rightarrow> mk_task_entry \<Rightarrow> 'a sliver_scheme \<Rightarrow> 'a sliver_scheme option" where
  "call_task esp host hw e s =
     (if e = at_protocol_service_task then protocol_service_task host s
      else if e = at_ble_hid_task
      then map_option (\<lambda>(a, b, v). s\<lparr>sl_ble_app := a, sl_ble := b, sl_vfs := v\<rparr>)
             (ble_hid_task esp (sl_ble_app s, sl_ble s, sl_vfs s))
      else if e = at_wifi_diagnostics_task
      then map_option (\<lambda>(d, w, v). s\<lparr>sl_wifi_diag := d, sl_wifi := w, sl_vfs := v\<rparr>)
             (wifi_diagnostics_task esp (hw_ms hw) (mk_kernel_get_tick s) (sl_wifi_diag s, sl_wifi s, sl_vfs s))
      else if e = at_network_diagnostics_task
      then map_option (\<lambda>(d, v). s\<lparr>sl_net_diag := d, sl_vfs := v\<rparr>)
             (network_diagnostics_task esp (hw_net hw) (mk_kernel_get_tick s) (sl_net_diag s, sl_vfs s))
      else if e = at_retro_games_task
      then Some (s\<lparr>sl_games := retro_games_task (hw_level hw) (hw_clock hw) (sl_games s)\<rparr>)
      else None)"

text \<open>The tasks ignore their context.\<close>

definition firmware_exec ::
  "bool \<Rightarrow> bool \<Rightarrow> (nat \<Rightarrow> hardware) \<Rightarrow> mk_task_entry \<Rightarrow> u32 \<Rightarrow> firmware \<Rightarrow> firmware" where
  "firmware_exec esp host hws e context s =
     (let hw = hws (fw_calls s); s1 = (outside hw s)\<lparr>fw_calls := fw_calls s + 1\<rparr>
      in case call_task esp host hw e s1 of None \<Rightarrow> s1\<lparr>fw_fault := True\<rparr> | Some s2 \<Rightarrow> s2)"

section \<open>Start-up\<close>

definition boot_hal :: "bool \<Rightarrow> bool \<Rightarrow> bool \<Rightarrow> 'a sliver_scheme \<Rightarrow> mk_status \<times> 'a sliver_scheme" where
  "boot_hal host wifi_ok ble_ok s =
     (case hal_init wifi_ok ble_ok (sc_now host s)
             (\<lparr>h_gpio = snd (ga_input (sl_games s)), h_wifi = sl_wifi s, h_ble = sl_ble s\<rparr>, sc_fm s) of
        (st, h, fm) \<Rightarrow> (st, s\<lparr>sl_games := (sl_games s)\<lparr>ga_input := (fst (ga_input (sl_games s)), h_gpio h)\<rparr>,
            sl_wifi := h_wifi h, sl_ble := h_ble h, sc_fm := fm\<rparr>))"

definition boot_vfs :: "bool \<Rightarrow> 'a sliver_scheme \<Rightarrow> mk_status \<times> 'a sliver_scheme" where
  "boot_vfs host s =
     (case vfs_init (sc_now host s) (sl_vfs s, sc_fm s) of
        (st, v, fm) \<Rightarrow> (st, s\<lparr>sl_vfs := v, sc_fm := fm\<rparr>))"

text \<open>Steps 10 to 12: the applications and the five tasks\<close>

definition init_apps :: "'a sliver_scheme \<Rightarrow> 'a sliver_scheme" where
  "init_apps s = s\<lparr>sl_ble_app := snd (ble_hid_init (sl_ble_app s)),
     sl_wifi_diag := snd (wifi_diagnostics_init (sl_wifi_diag s)),
     sl_net_diag := snd (network_diagnostics_init (sl_net_diag s)), sl_games := snd (retro_games_init (sl_games s))\<rparr>"

definition register_apps :: "bool \<Rightarrow> 'a kern_scheme \<Rightarrow> 'a kern_scheme" where
  "register_apps host s0 =
     (let s1 = snd (mk_kernel_register_app host MK_APP_BLE_HID (Some ''BLE_HID'') TASK_ID_BLE_HID s0);
          s2 = snd (mk_kernel_register_app host MK_APP_WIFI_DIAGNOSTICS (Some ''WIFI_DIAG'') TASK_ID_WIFI_DIAG s1);
          s3 = snd (mk_kernel_register_app host MK_APP_NETWORK_DIAGNOSTICS (Some ''NET_DIAG'') TASK_ID_NET_DIAG s2)
      in snd (mk_kernel_register_app host MK_APP_RETRO_GAMES (Some ''RETRO_GAMES'') TASK_ID_GAMES s3))"

definition register_tasks :: "bool \<Rightarrow> 'a sched_scheme \<Rightarrow> 'a sched_scheme" where
  "register_tasks host s0 =
     (let reg = (\<lambda>tid name entry prio period s. snd (mk_task_register host True tid (Some name) (Some entry) 0 prio period s));
          s1 = reg TASK_ID_HOST_PROTO ''host_proto'' at_protocol_service_task MK_TASK_PRIO_HIGHEST 1 s0;
          s2 = reg TASK_ID_BLE_HID ''ble_hid'' at_ble_hid_task MK_TASK_PRIO_HIGH 1 s1;
          s3 = reg TASK_ID_WIFI_DIAG ''wifi_diag'' at_wifi_diagnostics_task MK_TASK_PRIO_MEDIUM 5 s2;
          s4 = reg TASK_ID_NET_DIAG ''net_diag'' at_network_diagnostics_task MK_TASK_PRIO_LOW 10 s3
      in reg TASK_ID_GAMES ''retro_games'' at_retro_games_task MK_TASK_PRIO_LOWEST 2 s4)"

definition start_apps :: "bool \<Rightarrow> 'a sliver_scheme \<Rightarrow> 'a sliver_scheme" where
  "start_apps sniff_ok s =
     (case ble_hid_start (sl_ble_app s, sl_ble s) of (_, a, b) \<Rightarrow>
      case wifi_diagnostics_start sniff_ok (sl_wifi_diag s, sl_wifi s) of (_, d, w) \<Rightarrow>
        s\<lparr>sl_ble_app := a, sl_ble := b, sl_wifi_diag := d, sl_wifi := w,
          sl_games := snd (retro_games_start (sl_games s))\<rparr>)"

definition apps_ready :: "bool \<Rightarrow> 'a sched_scheme \<Rightarrow> 'a sched_scheme" where
  "apps_ready host s0 =
     fold (\<lambda>aid s. snd (kern_app_transition host aid MK_APP_STATE_READY s))
       [MK_APP_BLE_HID, MK_APP_WIFI_DIAGNOSTICS, MK_APP_NETWORK_DIAGNOSTICS, MK_APP_RETRO_GAMES] s0"

text \<open>Steps 1 to 13. \<open>wifi_ok\<close>, \<open>ble_ok\<close> and \<open>sniff_ok\<close> are the answers of the radio drivers. The flag of the result says whether the main loop is entered. The messages printed on
  the console change no state.\<close>

definition boot_firmware :: "bool \<Rightarrow> bool \<Rightarrow> bool \<Rightarrow> bool \<Rightarrow> firmware \<Rightarrow> bool \<times> firmware" where
  "boot_firmware host wifi_ok ble_ok sniff_ok s0 =
     (let (st, s1) = mk_kernel_boot host s0 in
      if st \<noteq> MK_STATUS_OK then (False, s1) else
      let (st, m) = mk_memory_init (sl_mem s1); s2 = s1\<lparr>sl_mem := m\<rparr> in
      if st \<noteq> MK_STATUS_OK then (False, s2) else
      let (st, p) = mk_pool_init (fw_pool s2); s3 = s2\<lparr>fw_pool := p\<rparr> in
      if st \<noteq> MK_STATUS_OK then (False, s3) else
      let (st, fm) = mk_fault_manager_init (sc_fm s3); s4 = s3\<lparr>sc_fm := fm\<rparr> in
      if st \<noteq> MK_STATUS_OK then (False, s4) else
      let (st, b) = mk_event_bus_init (fw_bus s4); s5 = s4\<lparr>fw_bus := b\<rparr> in
      if st \<noteq> MK_STATUS_OK then (False, s5) else
      let (st, s6) = mk_kernel_init s5 in
      if st \<noteq> MK_STATUS_OK then (False, s6) else
      let (_, s7) = boot_hal host wifi_ok ble_ok s6;
          (_, s8) = boot_vfs host s7;
          (_, s9) = protocol_service_init s8;
          s10 = apps_ready host (start_apps sniff_ok (register_tasks host (register_apps host (init_apps s9))));
          (st, s11) = kern_transition host MK_KERNEL_STATE_READY s10
      in (st = MK_STATUS_OK, s11))"

text \<open>The text of the banner, printed before the protocol service starts\<close>

definition print_diagnostic_banner :: "mk_diag_identity \<Rightarrow> string" where
  "print_diagnostic_banner diag =
     (let rule = ''===================================================='' in
      LF @ rule @ LF @ ''        SliverOS - ESP32-S3 Runtime Executive       '' @ LF @ rule @ LF
      @ ''  Target Platform:     7Semi ESP32-S3-Dev-BoardC-1U-N8R8'' @ LF
      @ ''  Silicon Architecture:'' @ cstr (chip_family diag) @ '' Revision '' @ show_u32 (chip_revision diag) @ LF
      @ ''  SPI Flash Capacity:  '' @ show_u32 (flash_size_bytes diag div (1024 * 1024)) @ '' MB (Octal SPI)'' @ LF
      @ ''  External PSRAM:      '' @ show_u32 (psram_size_bytes diag div (1024 * 1024)) @ '' MB (Octal SPI)'' @ LF
      @ ''  Internal SRAM Total: '' @ show_u32 (internal_sram_total diag div 1024)
      @ '' KB (Free: '' @ show_u32 (internal_sram_free diag div 1024) @ '' KB)'' @ LF
      @ ''  Static Arena Heap:   '' @ show_u32 (MK_ARENA_SIZE div 1024) @ '' KB (Internal SRAM Only)'' @ LF
      @ ''  Fixed Memory Pools:  16B, 32B, 64B, 128B, 256B (Internal SRAM)'' @ LF
      @ ''  Host Protocol:       SLVR/1 over Native USB Serial/JTAG'' @ LF
      @ ''  Web Host Interface:  Vercel Browser Desktop (No Physical Display)'' @ LF
      @ ''  Firmware Version:    '' @ cstr (version diag) @ LF
      @ ''  Build Identifier:    '' @ cstr (build_id diag) @ '' ('' @ cstr (git_revision diag) @ '')'' @ LF
      @ ''  Cooperative Tasks:   5 / '' @ show_dec MK_MAX_TASKS @ LF @ rule @ LF @ LF)"

text \<open>\<open>None\<close> says that \<open>app_main\<close> never returns.\<close>

definition app_main ::
  "bool \<Rightarrow> bool \<Rightarrow> bool \<Rightarrow> bool \<Rightarrow> bool \<Rightarrow> (nat \<Rightarrow> hardware) \<Rightarrow> (nat \<Rightarrow> u64 \<times> u64) \<Rightarrow> firmware \<Rightarrow> firmware option" where
  "app_main esp host wifi_ok ble_ok sniff_ok hws clk s0 =
     (case boot_firmware host wifi_ok ble_ok sniff_ok s0 of
        (False, s) \<Rightarrow> Some s
      | (True, s) \<Rightarrow> map_option snd (mk_kernel_run host (firmware_exec esp host hws) clk s))"

end
