(* ===== verification/Ble_Safety.thy ===== *)
theory Ble_Safety
  imports Ble_Hid Audit_Log
begin

text \<open>
  The keyboard application beside the other users of the file system: which descriptors are open, and that
  a slice of the task stays within its buffers and keeps the file system in order, whatever the macro file holds.
\<close>

section \<open>Open descriptors\<close>

abbreviation opens :: "vfs \<Rightarrow> bool list" where
  "opens v \<equiv> map fd_is_open (v_files v)"

lemma files_kept [simp]:
  "v_files (vfs_sync_superblock v) = v_files v" "v_files (erase_sector t v) = v_files v"
  "v_files (set_inode i f v) = v_files v" "v_files (create_inode i n fl v) = v_files v"
  "v_files (truncate_inode i v) = v_files v"
  by (simp_all add: vfs_sync_superblock_def erase_sector_def set_inode_def create_inode_def truncate_inode_def Let_def
      split: prod.split)

lemma update_same: "xs ! i = x \<Longrightarrow> xs[i := x] = xs"
  by auto

lemma opens_cursor [simp]: "map fd_is_open (fs[i := (fs ! i)\<lparr>fd_cursor := c\<rparr>]) = map fd_is_open fs"
  by (cases "i < length fs") (simp_all add: map_update list_update_same_conv list_update_beyond)

lemma opens_open_desc: "opens (open_desc fd i fl v) = (opens v)[fd := True]"
  by (cases "fd < length (v_files v)") (simp_all add: open_desc_def Let_def map_update list_update_beyond)

lemma opens_open:
  "vfs_open p fl ok v = ((st, fd), w) \<Longrightarrow>
   (if st = MK_STATUS_OK then \<exists>i. fd = Some (int i) \<and> i < 8 \<and> \<not> fd_is_open (v_files v ! i) \<and> opens w = (opens v)[i := True]
    else opens w = opens v)"
  by (auto simp: vfs_open_def Let_def opens_open_desc split: option.splits if_splits dest: free_descD)

lemma some_steps:
  "pred_option P a \<Longrightarrow> pred_option P b \<Longrightarrow> pred_option P (if c then a else b)"
  "(\<And>y. y = t \<Longrightarrow> pred_option P (f y)) \<Longrightarrow> pred_option P (Let t f)"
  "(\<And>x y. pred_option P (g x y)) \<Longrightarrow> pred_option P (case p of (x, y) \<Rightarrow> g x y)"
  by (simp_all split: prod.split)

lemma opens_write:
  assumes "vfs_write fd d ok v = Some (r, w)" shows "opens w = opens v"
proof (cases d)
  case (Some bs)
  have "pred_option (\<lambda>(r, w). opens w = opens v) (vfs_write fd d ok v)"
    unfolding vfs_write_def Some option.case by (intro some_steps; simp only: option.pred_inject prod.case files_kept frame_set_desc vfs.simps opens_cursor split: if_split; simp?)
  then show ?thesis by (simp add: assms)
qed (use assms in \<open>simp add: vfs_write_def\<close>)

lemma opens_close:
  assumes "length (v_files v) = 8" and "i < 8"
  shows "opens (snd (vfs_close (int i) v)) = (opens v)[i := False]"
proof (cases "fd_is_open (v_files v ! i)")
  case True
  then show ?thesis using assms by (simp add: vfs_close_def map_update fd_valid_def VFS_MAX_OPEN_FILES_def)
next
  case False
  then have "(opens v)[i := False] = opens v" using assms by (intro update_same) simp
  then show ?thesis using False by (simp add: vfs_close_def)
qed

text \<open>An append closes the descriptor it opened.\<close>

lemma opens_append:
  assumes "vfs_log_append (Some f) (Some e) v = Some (st, w)" and "length (v_files v) = 8"
  shows "opens w = opens v"
proof -
  obtain st1 fd v1 where o: "vfs_open (Some f) (VFS_O_CREAT OR VFS_O_WRONLY OR VFS_O_APPEND) True v = ((st1, fd), v1)"
    by (metis surj_pair)
  show ?thesis
  proof (cases "st1 = MK_STATUS_OK")
    case False
    then show ?thesis using opens_open[OF o] assms(1) o by (simp add: vfs_log_append_def)
  next
    case True
    then obtain i where i: "fd = Some (int i)" "i < 8" "\<not> fd_is_open (v_files v ! i)" "opens v1 = (opens v)[i := True]"
      using opens_open[OF o] by auto
    obtain r v2 where w: "vfs_write (the fd) (Some (bytes_of (cstr e))) True v1 = Some (r, v2)" "w = snd (vfs_close (the fd) v2)"
      using assms(1) True o by (auto simp: vfs_log_append_def split: option.splits)
    have v2: "opens v2 = (opens v)[i := True]" using opens_write[OF w(1)] i(4) by simp
    then have "length (v_files v2) = 8" using assms(2) by (metis length_list_update length_map)
    then have "opens w = (opens v)[i := False]" using opens_close[OF _ i(2), of v2] w(2) i(1) v2 by simp
    also have "\<dots> = opens v" using i(2,3) assms(2) by (intro update_same) simp
    finally show ?thesis .
  qed
qed

text \<open>The only open descriptor is \<open>fd\<close>; none is when \<open>fd\<close> is negative.\<close>

definition held :: "int \<Rightarrow> vfs \<Rightarrow> bool" where
  "held fd v \<longleftrightarrow> opens v = map (\<lambda>j. int j = fd) [0..<8]"

lemma held_length: "held fd v \<Longrightarrow> length (v_files v) = 8"
  by (metis held_def length_map length_upt diff_zero)

lemma held_nth: "held fd v \<Longrightarrow> j < 8 \<Longrightarrow> fd_is_open (v_files v ! j) \<longleftrightarrow> int j = fd"
proof -
  assume "held fd v" and "j < 8"
  then have "opens v ! j = (int j = fd)" by (simp add: held_def)
  then show ?thesis using \<open>j < 8\<close> held_length[OF \<open>held fd v\<close>] by simp
qed

lemma held_free: "held fd v \<Longrightarrow> free_desc (v_files v) \<noteq> None"
  using held_nth[of fd v 0] held_nth[of fd v 1] free_desc_closed[of 0 "v_files v"] free_desc_closed[of 1 "v_files v"]
  by (cases "fd = 0") auto

lemma held_update:
  assumes "i < 8"
  shows "(map (\<lambda>j. int j = - 1) [0..<8])[i := True] = map (\<lambda>j. int j = int i) [0..<8]"
    and "(map (\<lambda>j. int j = int i) [0..<8])[i := False] = map (\<lambda>j. int j = - 1) [0..<8]"
  using assms by (auto intro!: nth_equalityI simp: nth_list_update split: if_splits)

section \<open>The macro file, held open\<close>

definition reading :: "int \<Rightarrow> vfs \<Rightarrow> char_stream \<times> vfs \<Rightarrow> bool" where
  "reading fd v0 s \<longleftrightarrow> stream_inv s \<and> cs_fd (fst s) = fd \<and> opens (snd s) = opens v0
     \<and> v_sb (snd s) = v_sb v0 \<and> v_blk (snd s) = v_blk v0"

lemma opens_read:
  "vfs_read fd b n ok v = Some (r, w) \<Longrightarrow> opens w = opens v \<and> v_sb w = v_sb v \<and> v_blk w = v_blk v"
  by (auto simp: vfs_read_def Let_def split: option.splits if_splits prod.splits)

lemma refill_frame:
  "refill_buffer (p, v) = Some (ok, p1, w) \<Longrightarrow>
   cs_fd p1 = cs_fd p \<and> opens w = opens v \<and> v_sb w = v_sb v \<and> v_blk w = v_blk v"
  by (auto simp: refill_buffer_def Let_def split: option.splits if_splits prod.splits dest!: opens_read)

lemma next_frame:
  "get_next_char (p, v) = Some (c, p1, w) \<Longrightarrow>
   cs_fd p1 = cs_fd p \<and> opens w = opens v \<and> v_sb w = v_sb v \<and> v_blk w = v_blk v"
  by (auto simp: get_next_char_def split: option.splits if_splits prod.splits Option.bind_splits dest!: refill_frame)

interpretation held_file: char_source "reading fd v0" stream_rest get_next_char for fd v0
proof unfold_locales
  fix s assume r: "reading fd v0 s"
  obtain p v where s: "s = (p, v)" by (cases s)
  obtain c s' where n: "get_next_char s = Some (c, s')" "stream_inv s'" "list_next (stream_rest s) = Some (c, stream_rest s')"
    using stream_next[of s] r by (auto simp: reading_def)
  obtain p1 w where s': "s' = (p1, w)" by (cases s')
  have "reading fd v0 s'" using next_frame[of p v c p1 w] n(1,2) r by (simp add: s s' reading_def)
  then show "\<exists>c s'. get_next_char s = Some (c, s') \<and> reading fd v0 s' \<and> list_next (stream_rest s) = Some (c, stream_rest s')"
    using n(1,3) by blast
qed

lemma next_event_reading:
  assumes "reading fd v0 (mp_src p)"
  shows "\<exists>r q. macro_parser_next_event get_next_char True p = Some (r, q) \<and> reading fd v0 (mp_src q)"
  using held_file.next_event_step[OF assms, of True] by (auto simp: held_file.in_step_def)

section \<open>A slice of the task\<close>

lemma store_frame: "v_sb w = v_sb v \<Longrightarrow> v_blk w = v_blk v \<Longrightarrow> vfs_store w = vfs_store v"
proof -
  assume w: "v_sb w = v_sb v" "v_blk w = v_blk v"
  then have "file_bytes w = file_bytes v" by (intro ext) (simp add: file_bytes_def sector_def)
  then show ?thesis using w by (intro ext) (simp add: vfs_store_def)
qed

lemma log_inv_frame:
  assumes "log_inv p v" and "vfs_ok w" and "v_sb w = v_sb v" and "v_blk w = v_blk v" and "held fd w"
  shows "log_inv p w \<and> log_contents p w = log_contents p v"
  using assms store_frame[of w v] held_free[of fd w] by (simp add: log_inv_def store_ok_def log_contents_def)

definition reading_state :: "ble_app_internal_state \<Rightarrow> bool" where
  "reading_state st \<longleftrightarrow> st \<in> {BLE_APP_STATE_PARSE, BLE_APP_STATE_RELEASE, BLE_APP_STATE_DELAY}"

text \<open>The application has its file open while it types, and then no other descriptor is.\<close>

definition macro_held :: "ble_app \<Rightarrow> vfs \<Rightarrow> bool" where
  "macro_held a v \<longleftrightarrow> held (ba_macro_fd a) v
     \<and> (if reading_state (ba_state a)
         then stream_inv (mp_src (ba_parser a), v) \<and> cs_fd (mp_src (ba_parser a)) = ba_macro_fd a
         else ba_macro_fd a = - 1)"

lemma macro_held_frame:
  assumes "macro_held a v" and "vfs_ok w" and "opens w = opens v"
  shows "macro_held a w"
proof -
  have h: "held (ba_macro_fd a) w" using assms(1,3) by (simp add: macro_held_def held_def)
  have "fd_is_open (v_files w ! nat fd)" if "fd_valid fd" "fd_is_open (v_files v ! nat fd)" "fd = ba_macro_fd a" for fd
    using that held_nth[OF h, of "nat fd"] by (simp add: fd_valid_def VFS_MAX_OPEN_FILES_def nat_less_iff)
  then show ?thesis using assms(1,2) h by (auto simp: macro_held_def stream_inv_def)
qed

lemma open_readonly:
  assumes "log_inv p v" and "held (- 1) v"
  obtains "vfs_open (Some n) VFS_O_RDONLY True v = ((MK_STATUS_NOT_FOUND, None), v)"
  | fd w where "vfs_open (Some n) VFS_O_RDONLY True v = ((MK_STATUS_OK, Some (int fd)), w)" and "fd < 8"
    and "vfs_ok w" and "v_sb w = v_sb v" and "v_blk w = v_blk v" and "held (int fd) w"
proof -
  have ok: "vfs_ok v" using assms(1) by (simp add: log_inv_def store_ok_def)
  then have r: "v_ready v" by (rule vfs_okD(1))
  obtain fd where fd: "free_desc (v_files v) = Some fd" using held_free[OF assms(2)] by blast
  note o = opens_open[of "Some n" VFS_O_RDONLY True v]
  show ?thesis
  proof (cases "find_inode (strip_slash n) (sb_inodes (v_sb v))")
    case None
    then show ?thesis using r by (intro that(1)) (simp add: vfs_open_def open_flags)
  next
    case (Some i)
    let ?w = "open_desc fd i VFS_O_RDONLY v"
    have e: "vfs_open (Some n) VFS_O_RDONLY True v = ((MK_STATUS_OK, Some (int fd)), ?w)"
      using r Some fd by (simp add: vfs_open_def)
    have "held (int fd) ?w" using o[OF e] assms(2) held_update(1)[of fd] by (simp add: held_def)
    moreover have "vfs_ok ?w" using vfs_ok_open[OF ok, of "Some n" VFS_O_RDONLY True] e by simp
    moreover have "v_sb ?w = v_sb v" "v_blk ?w = v_blk v" by (simp_all add: open_desc_def open_flags)
    moreover have "fd < 8" using free_descD[OF fd] by simp
    ultimately show ?thesis using e by (intro that(2))
  qed
qed

lemma close_held:
  assumes "held (int fd) v" and "vfs_ok v" and "fd < 8" and "w = snd (vfs_close (int fd) v)"
  shows "held (- 1) w \<and> vfs_ok w \<and> v_sb w = v_sb v \<and> v_blk w = v_blk v"
proof -
  have "held (- 1) w" using assms opens_close[OF held_length[OF assms(1)] assms(3)] held_update(2)[OF assms(3)] by (simp add: held_def)
  moreover have "v_sb w = v_sb v" "v_blk w = v_blk v" using assms(4) by (simp_all add: vfs_close_def)
  ultimately show ?thesis using vfs_ok_close[OF assms(2), of "int fd"] assms(4) by simp
qed

lemma parse_slice_ok:
  assumes "log_inv p v" and "macro_held a v" and "ba_state a = BLE_APP_STATE_PARSE"
  shows "\<exists>a' b' v'. parse_slice esp (a, b, v) = Some (a', b', v') \<and> log_inv p v' \<and> log_contents p v' = log_contents p v
    \<and> macro_held a' v'"
proof -
  let ?fd = "ba_macro_fd a"
  have h: "held ?fd v" "stream_inv (mp_src (ba_parser a), v)" "cs_fd (mp_src (ba_parser a)) = ?fd"
    using assms(2,3) by (simp_all add: macro_held_def reading_state_def)
  then have "reading ?fd v (mp_src (on_vfs v (ba_parser a)))" by (simp add: reading_def on_vfs_def at_src_def)
  from next_event_reading[OF this] obtain st e q where
    q: "macro_parser_next_event get_next_char True (on_vfs v (ba_parser a)) = Some ((st, e), q)" "reading ?fd v (mp_src q)"
    by auto
  let ?a = "a\<lparr>ba_parser := off_vfs q\<rparr>" and ?v = "snd (mp_src q)"
  have v: "opens ?v = opens v" "v_sb ?v = v_sb v" "v_blk ?v = v_blk v" "stream_inv (mp_src (off_vfs q), ?v)"
    "cs_fd (mp_src (off_vfs q)) = ?fd" using q(2) by (simp_all add: reading_def off_vfs_def at_src_def)
  then have ok: "held ?fd ?v" "vfs_ok ?v" "fd_valid ?fd" using h(1) by (auto simp: held_def stream_inv_def)
  have l: "log_inv p ?v \<and> log_contents p ?v = log_contents p v" by (rule log_inv_frame[OF assms(1) ok(2) v(2,3) ok(1)])
  show ?thesis
  proof (cases "st \<noteq> MK_STATUS_OK \<or> me_type e = MACRO_CMD_EOF \<or> me_type e = MACRO_CMD_ERROR")
    case True
    let ?w = "snd (vfs_close ?fd ?v)"
    let ?b = "?a\<lparr>ba_macro_fd := - 1\<rparr>\<lparr>ba_delay_remaining_ticks := 100, ba_state := BLE_APP_STATE_COOLDOWN\<rparr>"
    have fd: "0 \<le> ?fd" "?fd = int (nat ?fd)" "nat ?fd < 8" using ok(3) by (auto simp: fd_valid_def VFS_MAX_OPEN_FILES_def)
    have w: "held (- 1) ?w \<and> vfs_ok ?w \<and> v_sb ?w = v_sb ?v \<and> v_blk ?w = v_blk ?v"
      using close_held[of "nat ?fd" ?v ?w] ok fd by simp
    have "parse_slice esp (a, b, v) = Some (?b, b, ?w)"
      using True q(1) fd(1) by (simp add: parse_slice_def close_macro_def Let_def)
    moreover have "log_inv p ?w \<and> log_contents p ?w = log_contents p v"
      using log_inv_frame[of p ?v ?w "- 1"] l w by simp
    moreover have "macro_held ?b ?w" using w by (simp add: macro_held_def reading_state_def)
    ultimately show ?thesis by blast
  next
    case False
    then have "\<exists>a' b'. parse_slice esp (a, b, v) = Some (a', b', ?v) \<and> reading_state (ba_state a')
        \<and> ba_macro_fd a' = ?fd \<and> ba_parser a' = off_vfs q"
      using q(1) assms(3) by (auto simp: parse_slice_def reading_state_def Let_def)
    moreover have "macro_held a' ?v" if "reading_state (ba_state a')" "ba_macro_fd a' = ?fd" "ba_parser a' = off_vfs q" for a'
      using that v(4,5) ok(1) by (simp add: macro_held_def)
    ultimately show ?thesis using l by blast
  qed
qed

text \<open>No code of the application tells the driver that a host is connected.\<close>

lemma send_keeps_connection [simp]:
  "bl_connected (snd (hal_ble_send_report esp r b)) = bl_connected b"
  "bl_connected (snd (hal_ble_send_key esp m k b)) = bl_connected b"
  "bl_connected (snd (hal_ble_send_release esp b)) = bl_connected b"
  by (auto simp: hal_ble_send_report_def hal_ble_send_key_def hal_ble_send_release_def split: option.split)

lemma ble_task_connected:
  "ble_hid_task esp (a, b, v) = Some (a', b', v') \<Longrightarrow> bl_connected b' = bl_connected b"
  by (cases "ba_state a")
     (auto simp: ble_hid_task_def parse_slice_def Let_def split: Option.bind_splits prod.splits option.splits if_splits
      dest!: arg_cong[where f = snd])

text \<open>Whatever the macro file holds, a slice stays within its buffers; it leaves the files as they are.\<close>

lemma ble_task_ok:
  assumes "log_inv p v" and "macro_held a v"
  shows "\<exists>a' b' v'. ble_hid_task esp (a, b, v) = Some (a', b', v') \<and> log_inv p v' \<and> log_contents p v' = log_contents p v
    \<and> macro_held a' v'"
proof (cases "ba_state a")
  case BLE_APP_STATE_OPEN_FILE
  then have h: "held (- 1) v" "ba_macro_fd a = - 1" using assms(2) by (auto simp: macro_held_def reading_state_def)
  show ?thesis
  proof (rule open_readonly[OF assms(1) h(1), of "''macro.txt''"])
    assume "vfs_open (Some ''macro.txt'') VFS_O_RDONLY True v = ((MK_STATUS_NOT_FOUND, None), v)"
    then show ?thesis using BLE_APP_STATE_OPEN_FILE assms h
      by (simp add: ble_hid_task_def macro_held_def reading_state_def)
  next
    fix fd w assume o: "vfs_open (Some ''macro.txt'') VFS_O_RDONLY True v = ((MK_STATUS_OK, Some (int fd)), w)" and fd: "fd < 8"
      and w: "vfs_ok w" "v_sb w = v_sb v" "v_blk w = v_blk v" "held (int fd) w"
    obtain mp where mp: "macro_parser_init True (int fd) w = (MK_STATUS_OK, Some mp)" "cs_fd (fst (mp_src mp)) = int fd"
      "stream_inv (fst (mp_src mp), w)"
      using w fd held_nth[OF w(4) fd]
      by (auto simp: macro_parser_init_def stream_inv_def fd_valid_def VFS_MAX_OPEN_FILES_def MACRO_BUFFER_SIZE_def Let_def)
    let ?a = "a\<lparr>ba_macro_fd := int fd, ba_parser := off_vfs mp, ba_state := BLE_APP_STATE_PARSE\<rparr>"
    have "ble_hid_task esp (a, b, v) = Some (?a, b, w)"
      using BLE_APP_STATE_OPEN_FILE o mp(1) by (simp add: ble_hid_task_def)
    moreover have "macro_held ?a w" using mp w by (simp add: macro_held_def reading_state_def off_vfs_def at_src_def)
    ultimately show ?thesis using log_inv_frame[OF assms(1) w] by blast
  qed
next
  case BLE_APP_STATE_PARSE
  then show ?thesis using parse_slice_ok[OF assms BLE_APP_STATE_PARSE, of esp b] by (simp add: ble_hid_task_def)
qed (use assms in \<open>auto simp: ble_hid_task_def macro_held_def reading_state_def\<close>)

end
