(* ===== verification/Firmware_Safety.thy ===== *)
theory Firmware_Safety
  imports Firmware Ble_Safety
begin

text \<open>
  The firmware as a whole: what every task keeps, whatever the hardware answers and the host sends, and what
  follows for the running system.
\<close>

section \<open>What a task leaves alone\<close>

text \<open>The task table, the clock and the kernel state, the memory managers and the event bus\<close>

definition frame :: "'a sliver_scheme \<Rightarrow> 'a sliver_scheme \<Rightarrow> bool" where
  "frame s s' \<longleftrightarrow> tasks_of s' = tasks_of s \<and> tick_of s' = tick_of s \<and> k_state (sc_kernel s') = k_state (sc_kernel s)
     \<and> sc_cursor s' = sc_cursor s \<and> sl_mem s' = sl_mem s \<and> sliver.more s' = sliver.more s"

definition games_ok :: "games \<Rightarrow> bool" where
  "games_ok g \<longleftrightarrow> length (gp_debounce_tbl (snd (ga_input g))) = 32"

text \<open>The protocol service changes the applications' control blocks, the games and its own state.\<close>

definition serves :: "'a sliver_scheme \<Rightarrow> 'a sliver_scheme \<Rightarrow> bool" where
  "serves s s' \<longleftrightarrow> frame s s' \<and> length (k_apps (sc_kernel s')) = length (k_apps (sc_kernel s))
     \<and> (fault_inv (sc_fm s) \<longrightarrow> fault_inv (sc_fm s')) \<and> (games_ok (sl_games s) \<longrightarrow> games_ok (sl_games s'))
     \<and> sl_wifi s' = sl_wifi s \<and> sl_ble s' = sl_ble s \<and> sl_vfs s' = sl_vfs s \<and> sl_ble_app s' = sl_ble_app s
     \<and> sl_wifi_diag s' = sl_wifi_diag s \<and> sl_net_diag s' = sl_net_diag s"

lemma serves_refl: "serves s s"
  by (simp add: serves_def frame_def)

lemma serves_trans: "serves s t \<Longrightarrow> serves t u \<Longrightarrow> serves s u"
  by (simp add: serves_def frame_def)

lemma serves_proto: "serves s t \<Longrightarrow> serves s (set_proto f t)"
  by (simp add: serves_def frame_def set_proto_def)

lemma serves_typed: "serves s t \<Longrightarrow> serves s (snd (send_typed_message type payload len t))"
  by (auto simp: send_typed_message_def protocol_service_send_frame_def write_raw_bytes_def Let_def serves_proto
      split: option.split prod.split)

lemma serves_send: "serves s t \<Longrightarrow> serves s (send type payload t)"
  unfolding send_def by (rule serves_typed)

lemma serves_messages:
  assumes "serves s t"
  shows "serves s (snd (protocol_service_send_log level msg t))" and "serves s (terminal text t)"
    and "serves s (snd (protocol_service_broadcast_game_state game t))" and "serves s (send_app_state aid t)"
    and "serves s (send_device_info t)" and "serves s (send_device_status t)"
    and "serves s (send_memory_status t)" and "serves s (send_storage_status t)"
  using assms serves_typed[OF assms]
  by (auto simp: protocol_service_send_log_def terminal_def protocol_service_send_terminal_def Let_def
      protocol_service_broadcast_game_state_def send_app_state_def send_device_info_def send_device_status_def
      send_memory_status_def send_storage_status_def serves_send split: option.split)

lemma serves_app:
  assumes "serves s t" shows "serves s (snd (kern_app_transition host aid ns t))"
proof -
  have "serves t (snd (kern_app_transition host aid ns t))"
    by (auto simp: serves_def frame_def kern_app_transition_def mk_app_transition_def Let_def intro: fault_inv_record split: prod.split)
  with assms show ?thesis by (rule serves_trans)
qed

lemma serves_state:
  assumes "serves s t"
  shows "serves s (t\<lparr>sc_kernel := (sc_kernel t)\<lparr>k_active_app := a\<rparr>\<rparr>)" and "serves s (set_input b t)"
    and "serves s (t\<lparr>sl_games := snd (retro_games_reset (sl_games t))\<rparr>)"
  using assms by (auto simp: serves_def frame_def set_input_def input_set_state_def games_ok_def retro_games_reset_def
      retro_games_init_def reset_lander_def input_init_def hal_gpio_init_def MAX_DEBOUNCE_PINS_def)

lemmas serves_steps = serves_send serves_messages serves_typed serves_app serves_state serves_proto

lemma serves_if: "serves s a \<Longrightarrow> serves s b \<Longrightarrow> serves s (if c then a else b)"
  by simp

lemma serves_fold: "(\<And>x t. serves s t \<Longrightarrow> serves s (f x t)) \<Longrightarrow> serves s t \<Longrightarrow> serves s (fold f xs t)"
  by (induction xs arbitrary: t) simp_all

lemma serves_shell:
  assumes "serves s t"
  shows "serves s (handle_terminal_command line t)"
proof (cases "scan_word 31 (cstr line)")
  case None
  then show ?thesis using assms by (simp add: handle_terminal_command_def serves_messages)
next
  case (Some w)
  obtain cmd more where w: "w = (cmd, more)" by (cases w)
  show ?thesis unfolding handle_terminal_command_def Let_def Some w option.case prod.case
    by (intro serves_if serves_fold serves_messages assms)
qed

lemma serves_handle:
  assumes "serves s t" shows "serves s (handle_incoming_frame host f t)"
  unfolding handle_incoming_frame_def launch_app_def exit_app_def Let_def
  by (intro serves_if serves_steps serves_shell assms)

lemma serves_byte: "serves s t \<Longrightarrow> serves s (receive_byte host b t)"
  by (auto simp: receive_byte_def Let_def split: prod.split option.split intro: serves_handle serves_proto)

lemma serves_drain: "drain_rx host s = Some s' \<Longrightarrow> serves s s'"
proof (induction rule: drain_rx.raw_induct[rotated, consumes 1, case_names 1])
  case (1 loop host s s')
  show ?case
  proof (cases "mock_get (pr_mock_rx (sl_proto s))")
    case (Pair x r)
    show ?thesis
    proof (cases x)
      case None
      then show ?thesis using 1(2) Pair by (simp add: serves_refl)
    next
      case (Some b)
      then have "loop host (receive_byte host b (set_proto (\<lambda>p. p\<lparr>pr_mock_rx := r\<rparr>) s)) = Some s'" using 1(2) Pair by simp
      from 1(1)[OF this] show ?thesis
        by (rule serves_trans[rotated]) (intro serves_byte serves_proto serves_refl)
    qed
  qed
qed

lemma serves_broadcast:
  assumes "serves s t"
  shows "serves s (broadcast_game tick t)" and "serves s (broadcast_status tick t)"
  unfolding broadcast_game_def broadcast_status_def Let_def by (intro serves_if serves_steps assms)+

lemma serves_task: "protocol_service_task host s = Some s' \<Longrightarrow> serves s s'"
  by (auto simp: protocol_service_task_def Let_def split: option.splits if_splits
      dest!: serves_drain intro: serves_broadcast)

lemma call_task_frame: "call_task esp host hw e s = Some s' \<Longrightarrow> frame s s'"
  by (auto simp: call_task_def frame_def serves_def split: if_splits dest!: serves_task)

lemma outside_frame: "frame s (outside hw s)"
  by (auto simp: outside_def frame_def protocol_service_pop_tx_bytes_def protocol_service_inject_rx_bytes_def
      set_proto_def Let_def split: prod.split)

section \<open>What a task keeps true\<close>

definition apps_inv :: "'a sliver_scheme \<Rightarrow> bool" where
  "apps_inv s \<longleftrightarrow> length (k_apps (sc_kernel s)) = 4 \<and> fault_inv (sc_fm s) \<and> proto_inv (sl_proto s)
     \<and> wifi_inv (sl_wifi s) \<and> stats_ok (wd_stats (sl_wifi_diag s)) \<and> report_ok (nd_report (sl_net_diag s))
     \<and> games_ok (sl_games s) \<and> log_inv audit_file (sl_vfs s) \<and> macro_held (sl_ble_app s) (sl_vfs s)
     \<and> \<not> bl_connected (sl_ble s)"

lemma drain_keeps:
  "drain esp ms n (r, p, st, w) = (r', p', st', w') \<Longrightarrow> wifi_inv w \<Longrightarrow>
   wifi_inv w' \<and> avg_rssi st' = avg_rssi st \<and> active_channel st' = active_channel st
   \<and> (\<exists>k. p' = p + k \<and> - 128 * int k \<le> r' - r \<and> r' - r \<le> 127 * int k)"
proof (induction n arbitrary: r p st w)
  case 0
  then show ?case by (auto intro: exI[of _ 0])
next
  case (Suc n)
  obtain x w1 where g: "hal_wifi_queue_pop esp ms True w = (x, w1)" by fastforce
  have i: "wifi_inv w1"
  proof (cases "esp \<or> wf_count w \<noteq> 0")
    case True
    then have "hal_wifi_queue_pop esp ms True w = hal_wifi_queue_pop True ms True w" by (auto simp: hal_wifi_queue_pop_def)
    then show ?thesis using wifi_pop_refines(1)[OF Suc.prems(2), of ms] g by (metis snd_conv)
  next
    case False
    then show ?thesis using g Suc.prems(2) by (auto simp: hal_wifi_queue_pop_def wifi_inv_def Let_def split: if_splits)
  qed
  show ?case
  proof (cases x)
    case None
    then show ?thesis using Suc.prems(1) g i by (auto intro: exI[of _ 0])
  next
    case (Some m)
    then have "drain esp ms n (r + rssi m, p + 1, count_frame m st, w1) = (r', p', st', w')" using Suc.prems(1) g by simp
    from Suc.IH[OF this i] obtain k where k: "wifi_inv w'" "avg_rssi st' = avg_rssi st" "active_channel st' = active_channel st"
      "p' = p + 1 + k" "- 128 * int k \<le> r' - (r + rssi m)" "r' - (r + rssi m) \<le> 127 * int k" by auto
    then show ?thesis using rssi_bounds[of m] by (intro conjI exI[of _ "Suc k"]) simp_all
  qed
qed

text \<open>An entry of the audit file leaves the macro file open.\<close>

lemma audit_keeps:
  assumes "log_inv audit_file v" and "macro_held a v"
  shows "\<exists>st v'. vfs_log_append (Some audit_file) (Some (formatted 128 t)) v = Some (st, v')
    \<and> log_inv audit_file v' \<and> macro_held a v'"
proof -
  have "length (cstr (formatted 128 t)) < 2 ^ 31"
    using length_formatted[of 128 t] length_cstr[of "formatted 128 t"] by simp
  then obtain st v' where v': "vfs_log_append (Some audit_file) (Some (formatted 128 t)) v = Some (st, v')" "log_inv audit_file v'"
    using vfs_audit.append_law[OF assms(1)] by blast
  have "length (v_files v) = 8" using assms(2) by (auto simp: macro_held_def dest: held_length)
  then have "opens v' = opens v" using opens_append[OF v'(1)] by simp
  moreover have "vfs_ok v'" using v'(2) by (simp add: log_inv_def store_ok_def)
  ultimately show ?thesis using macro_held_frame[OF assms(2)] v' by blast
qed

text \<open>Both diagnoses touch the file system only by writing to the audit file, so they keep what the writing keeps.\<close>

lemma wifi_task_keeps:
  assumes "wifi_inv w" and "stats_ok (wd_stats d)" and "P v"
    and "\<And>t. \<exists>st v'. vfs_log_append (Some audit_file) (Some (formatted 128 t)) v = Some (st, v') \<and> P v'"
  shows "\<exists>d' w' v'. wifi_diagnostics_task esp ms tick (d, w, v) = Some (d', w', v') \<and> wifi_inv w' \<and> stats_ok (wd_stats d') \<and> P v'"
proof (cases "wd_active d")
  case True
  obtain r n st w1 where dr: "drain esp ms 8 (0, 0, wd_stats d, w) = (r, n, st, w1)" by (metis surj_pair)
  then have w1: "wifi_inv w1" and st: "stats_ok st" "- 128 * int n \<le> r" "r \<le> 127 * int n"
    using drain_keeps[OF dr assms(1)] assms(2) by (auto simp: stats_ok_def)
  let ?d1 = "d\<lparr>wd_stats := update_average r n st\<rparr>"
  have u: "stats_ok (wd_stats ?d1)" using update_average_ok[OF st] by simp
  obtain d2 w2 where h: "hop tick (?d1, w1) = (d2, w2)" by fastforce
  have h2: "wifi_inv w2" "stats_ok (wd_stats d2)"
    using h u w1 next_channel_bounds[of "active_channel (wd_stats ?d1)"]
    by (auto simp: hop_def stats_ok_def Let_def hal_wifi_set_channel_def wifi_inv_def split: if_splits)
  have "\<exists>d' v'. audit tick d2 v = Some (d', v') \<and> wd_stats d' = wd_stats d2 \<and> P v'"
    using assms(4)[of "audit_line (wd_stats d2)"] assms(3) by (auto simp: audit_def)
  then show ?thesis using True dr h h2 by (auto simp: wifi_diagnostics_task_def)
qed (use assms in \<open>simp add: wifi_diagnostics_task_def\<close>)

lemma net_task_keeps:
  assumes "report_ok (nd_report d)" and "P v"
    and "\<And>t. \<exists>st v'. vfs_log_append (Some audit_file) (Some (formatted 128 t)) v = Some (st, v') \<and> P v'"
  shows "\<exists>d' v'. network_diagnostics_task esp net tick (d, v) = Some (d', v') \<and> report_ok (nd_report d') \<and> P v'"
  using assms(1,2) assms(3)[of "net_audit_line (nd_report d)"]
  by (cases "current_state (nd_report d)")
     (auto simp: network_diagnostics_task_def net_audit_def report_ok_def Let_def)

lemma wifi_task_ok:
  assumes "wifi_inv w" and "stats_ok (wd_stats d)" and "log_inv audit_file v" and "macro_held a v"
  shows "\<exists>d' w' v'. wifi_diagnostics_task esp ms tick (d, w, v) = Some (d', w', v') \<and> wifi_inv w' \<and> stats_ok (wd_stats d')
    \<and> log_inv audit_file v' \<and> macro_held a v'"
  by (rule wifi_task_keeps[where P = "\<lambda>v. log_inv audit_file v \<and> macro_held a v"]) (use assms audit_keeps[OF assms(3,4)] in simp_all)

lemma net_task_ok:
  assumes "report_ok (nd_report d)" and "log_inv audit_file v" and "macro_held a v"
  shows "\<exists>d' v'. network_diagnostics_task esp net tick (d, v) = Some (d', v') \<and> report_ok (nd_report d')
    \<and> log_inv audit_file v' \<and> macro_held a v'"
  by (rule net_task_keeps[where P = "\<lambda>v. log_inv audit_file v \<and> macro_held a v"]) (use assms audit_keeps[OF assms(2,3)] in simp_all)

lemma games_task_ok: "games_ok g \<Longrightarrow> games_ok (retro_games_task level now g)"
proof -
  have r: "length (gp_debounce_tbl (snd (read_buttons level now k ps st p))) = 32" if "length (gp_debounce_tbl p) = 32" for k ps st p
    using that
    by (induction ps arbitrary: k st p)
       (auto simp: hal_gpio_read_debounced_def hal_gpio_init_def MAX_DEBOUNCE_PINS_def Let_def split: prod.split)
  assume g: "games_ok g"
  obtain input i where "input_get_state level now (ga_input g) = (input, i)" by (metis surj_pair)
  moreover from this have "length (gp_debounce_tbl (snd i)) = 32"
    using r[of "snd (ga_input g)"] g
    by (auto simp: input_get_state_def games_ok_def simp del: read_buttons.simps split: prod.splits dest!: arg_cong[where f = snd])
  ultimately show ?thesis using g by (simp add: retro_games_task_def games_ok_def)
qed

lemma protocol_task_ok:
  assumes "apps_inv s"
  shows "\<exists>s'. protocol_service_task host s = Some s' \<and> apps_inv s'"
proof -
  obtain t where t: "drain_rx host s = Some t" "proto_inv (sl_proto t)"
    using drain_returns[of s host] assms by (auto simp: apps_inv_def)
  let ?u = "if pr_connected (sl_proto t) then broadcast_status (tick_of s) (broadcast_game (tick_of s) t) else t"
  have e: "protocol_service_task host s = Some ?u" using t(1) by (simp add: protocol_service_task_def mk_kernel_get_tick_def Let_def)
  have "port_step t ?u" by (intro port_if port_broadcast port_refl)
  then have "proto_inv (sl_proto ?u)" using t(2) by (simp add: port_step_def proto_inv_def)
  then show ?thesis using assms serves_task[OF e] e unfolding serves_def apps_inv_def by (intro exI[of _ ?u]) simp
qed

definition known_entries :: "mk_task_entry set" where
  "known_entries = {at_protocol_service_task, at_ble_hid_task, at_wifi_diagnostics_task,
     at_network_diagnostics_task, at_retro_games_task}"

lemma call_task_ok:
  assumes "apps_inv s" and "e \<in> known_entries"
  shows "\<exists>s'. call_task esp host hw e s = Some s' \<and> apps_inv s'"
proof -
  have s: "log_inv audit_file (sl_vfs s)" "macro_held (sl_ble_app s) (sl_vfs s)" "wifi_inv (sl_wifi s)"
    "stats_ok (wd_stats (sl_wifi_diag s))" "report_ok (nd_report (sl_net_diag s))" "games_ok (sl_games s)"
    using assms(1) by (simp_all add: apps_inv_def)
  consider "e = at_protocol_service_task" | "e = at_ble_hid_task" | "e = at_wifi_diagnostics_task"
    | "e = at_network_diagnostics_task" | "e = at_retro_games_task" using assms(2) by (auto simp: known_entries_def)
  then show ?thesis
  proof cases
    case 1
    then show ?thesis using protocol_task_ok[OF assms(1)] by (simp add: call_task_def)
  next
    case 2
    obtain a b v where t: "ble_hid_task esp (sl_ble_app s, sl_ble s, sl_vfs s) = Some (a, b, v)" "log_inv audit_file v" "macro_held a v"
      using ble_task_ok[OF s(1,2), of esp "sl_ble s"] by blast
    then show ?thesis using 2 ble_task_connected[OF t(1)] assms(1)
      by (simp add: call_task_def apps_inv_def at_protocol_service_task_def at_ble_hid_task_def)
  next
    case 3
    then show ?thesis using wifi_task_ok[OF s(3,4,1,2), of esp "hw_ms hw" "tick_of s"] assms(1)
      by (auto simp: call_task_def apps_inv_def mk_kernel_get_tick_def at_protocol_service_task_def at_ble_hid_task_def
          at_wifi_diagnostics_task_def)
  next
    case 4
    then show ?thesis using net_task_ok[OF s(5,1,2), of esp "hw_net hw" "tick_of s"] assms(1)
      by (auto simp: call_task_def apps_inv_def mk_kernel_get_tick_def at_protocol_service_task_def at_ble_hid_task_def
          at_wifi_diagnostics_task_def at_network_diagnostics_task_def)
  next
    case 5
    then show ?thesis using games_task_ok[OF s(6), of "hw_level hw" "hw_clock hw"] assms(1)
      by (auto simp: call_task_def apps_inv_def at_protocol_service_task_def at_ble_hid_task_def
          at_wifi_diagnostics_task_def at_network_diagnostics_task_def at_retro_games_task_def)
  qed
qed

lemma mock_read_inv: "mock_inv r \<Longrightarrow> mock_inv (snd (mock_read n r))"
proof (induction n arbitrary: r)
  case (Suc n)
  obtain x r1 where g: "mock_get r = (x, r1)" by fastforce
  then have "mock_inv r1" using mock_get_refines(1)[OF Suc.prems] by simp
  then show ?case using Suc.IH[of r1] g by (cases x) (simp_all split: prod.split, metis snd_conv)
qed simp

lemma frames_inv: "wifi_inv w \<Longrightarrow> wifi_inv (fold (\<lambda>pkt. wifi_promiscuous_rx_cb ms (Some pkt)) pkts w)"
proof (induction pkts arbitrary: w)
  case (Cons pkt pkts)
  have "wifi_inv (wifi_promiscuous_rx_cb ms (Some pkt) w)"
    using Cons.prems wifi_put_refines(1)[OF Cons.prems] by (auto simp: wifi_promiscuous_rx_cb_def Let_def wifi_put_def)
  then show ?case using Cons.IH by simp
qed simp

lemma outside_ok:
  assumes "apps_inv s" shows "apps_inv (outside hw s)"
proof -
  let ?s1 = "snd (protocol_service_pop_tx_bytes True (hw_host_reads hw) s)"
  have p: "proto_inv (sl_proto ?s1)"
    using assms mock_read_inv by (auto simp: protocol_service_pop_tx_bytes_def apps_inv_def proto_inv_def set_proto_def
        split: prod.split dest!: arg_cong[where f = snd])
  have "proto_inv (sl_proto (outside hw s))"
    using p mock_write_inv
    by (simp add: outside_def protocol_service_inject_rx_bytes_def proto_inv_def set_proto_def Let_def)
  then show ?thesis using assms frames_inv
    by (auto simp: outside_def apps_inv_def protocol_service_pop_tx_bytes_def protocol_service_inject_rx_bytes_def
        set_proto_def Let_def split: prod.splits)
qed

section \<open>The running system\<close>

definition tasks_known :: "'a sched_scheme \<Rightarrow> bool" where
  "tasks_known s \<longleftrightarrow> (\<forall>t \<in> set (tasks_of s). \<forall>e. tcb_entry t = Some e \<longrightarrow> e \<in> known_entries)"

text \<open>All tables have their sizes, all indices are in range, and no task has left an array or hung.\<close>

definition fw_inv :: "firmware \<Rightarrow> bool" where
  "fw_inv s \<longleftrightarrow> sched_wf s \<and> armed s \<and> tasks_known s \<and> apps_inv s \<and> \<not> fw_fault s"

lemma quiet_firmware: "quiet (firmware_exec esp host hws)"
proof -
  have "tasks_of (firmware_exec esp host hws e c s) = tasks_of s \<and> tick_of (firmware_exec esp host hws e c s) = tick_of s
      \<and> sc_cursor (firmware_exec esp host hws e c s) = sc_cursor s" for e c and s :: firmware
    using outside_frame[of s "hws (fw_calls s)"]
    by (auto simp: firmware_exec_def frame_def Let_def split: option.split dest!: call_task_frame)
  then show ?thesis by (simp add: quiet_def)
qed

lemma more_fields:
  "sliver.more s' = sliver.more s \<Longrightarrow>
   fw_fault s' = fw_fault s \<and> fw_pool s' = fw_pool s \<and> fw_bus s' = fw_bus s \<and> fw_calls s' = fw_calls s"
  for s s' :: firmware
  by (cases s; cases s') simp

lemma exec_ok:
  assumes "apps_inv s" and "\<not> fw_fault s" and "e \<in> known_entries"
  shows "apps_inv (firmware_exec esp host hws e c s)" and "\<not> fw_fault (firmware_exec esp host hws e c s)"
    and "k_state (sc_kernel (firmware_exec esp host hws e c s)) = k_state (sc_kernel s)"
proof -
  let ?hw = "hws (fw_calls s)" and ?s1 = "(outside (hws (fw_calls s)) s)\<lparr>fw_calls := fw_calls s + 1\<rparr>"
  have "apps_inv ?s1" using outside_ok[OF assms(1)] by (simp add: apps_inv_def)
  then obtain s2 where s2: "call_task esp host ?hw e ?s1 = Some s2" "apps_inv s2" using call_task_ok assms(3) by blast
  have f: "frame ?s1 s2" "frame s (outside ?hw s)" using call_task_frame[OF s2(1)] outside_frame by blast+
  have "firmware_exec esp host hws e c s = s2" using s2(1) by (simp add: firmware_exec_def Let_def)
  then show "apps_inv (firmware_exec esp host hws e c s)" "\<not> fw_fault (firmware_exec esp host hws e c s)"
    "k_state (sc_kernel (firmware_exec esp host hws e c s)) = k_state (sc_kernel s)"
    using s2(2) f assms(2) more_fields[of s2 ?s1] more_fields[of "outside ?hw s" s] by (auto simp: frame_def)
qed

text \<open>What stays between two states of the running system: the kernel state, and the memory managers and the
  event bus, which no task uses\<close>

definition settled_parts :: "firmware \<Rightarrow> mk_kernel_state \<times> memory \<times> pool \<times> event_bus" where
  "settled_parts s = (k_state (sc_kernel s), sl_mem s, fw_pool s, fw_bus s)"

lemma exec_settled: "settled_parts (firmware_exec esp host hws e c s) = settled_parts s"
proof -
  let ?hw = "hws (fw_calls s)" and ?s1 = "(outside (hws (fw_calls s)) s)\<lparr>fw_calls := fw_calls s + 1\<rparr>"
  have o: "settled_parts ?s1 = settled_parts s"
    using outside_frame[of s ?hw] more_fields[of "outside ?hw s" s] by (simp add: settled_parts_def frame_def)
  show ?thesis
  proof (cases "call_task esp host ?hw e ?s1")
    case None
    then show ?thesis using o by (simp add: firmware_exec_def Let_def settled_parts_def)
  next
    case (Some s2)
    then have "settled_parts s2 = settled_parts ?s1"
      using call_task_frame[OF Some] more_fields[of s2 ?s1] by (simp add: settled_parts_def frame_def)
    then show ?thesis using o Some by (simp add: firmware_exec_def Let_def)
  qed
qed

lemma scheduler_keeps [simp]:
  "apps_inv (update_task i f s) = apps_inv s" "apps_inv (s\<lparr>sc_cursor := c\<rparr>) = apps_inv s"
  "apps_inv (s\<lparr>sc_kernel := (sc_kernel s)\<lparr>k_scheduler_iterations := n\<rparr>\<rparr>) = apps_inv s"
  "apps_inv (mk_scheduler_tick s) = apps_inv s"
  by (simp_all add: apps_inv_def update_task_def mk_scheduler_tick_def Let_def)

lemma scheduler_settled [simp]:
  "settled_parts (update_task i f s) = settled_parts s" "settled_parts (s\<lparr>sc_cursor := c\<rparr>) = settled_parts s"
  "settled_parts (s\<lparr>sc_kernel := (sc_kernel s)\<lparr>k_scheduler_iterations := n\<rparr>\<rparr>) = settled_parts s"
  "settled_parts (mk_scheduler_tick s) = settled_parts s" "settled_parts (s\<lparr>sc_fm := fm\<rparr>) = settled_parts s"
  "fw_fault (update_task i f s) = fw_fault s" "fw_fault (mk_scheduler_tick s) = fw_fault s"
  by (simp_all add: settled_parts_def update_task_def mk_scheduler_tick_def Let_def)

lemma run_task_ok:
  assumes "apps_inv s" and "\<not> fw_fault s" and "e \<in> known_entries"
    and t_def: "t = run_task host (firmware_exec esp host hws) clk i e s"
  shows "apps_inv t" and "\<not> fw_fault t" and "settled_parts t = settled_parts s"
proof -
  let ?s1 = "update_task i (enter_task (tick_of s)) s"
  let ?s2 = "firmware_exec esp host hws e (tcb_context (tasks_of ?s1 ! i)) ?s1"
  have s2: "apps_inv ?s2" "\<not> fw_fault ?s2" using exec_ok[of ?s1 e] assms(1-3) by simp_all
  have "apps_inv (?s2\<lparr>sc_fm := mk_fault_record_full now code src sev n d (sc_fm ?s2)\<rparr>)" for now code src sev n d
    using s2(1) fault_inv_record by (simp add: apps_inv_def)
  note s3 = this
  show "apps_inv t" "\<not> fw_fault t" "settled_parts t = settled_parts s"
    using s2 s3 exec_settled[of esp host hws e "tcb_context (tasks_of ?s1 ! i)" ?s1]
    by (simp_all add: t_def run_task_def Let_def)
qed

lemma select_next_shape: "\<exists>c. snd (mk_scheduler_select_next s) = s\<lparr>sc_cursor := c\<rparr>"
  by (auto simp: mk_scheduler_select_next_def Let_def split: option.split intro: exI[of _ "sc_cursor s"])

lemma select_next_index:
  assumes "sched_wf s" and "fst (mk_scheduler_select_next s) = Some i"
  shows "i < 8"
proof (rule ccontr)
  assume "\<not> i < 8"
  have "\<exists>j < 8. candidate s j"
    using select_next_none[OF assms(1)] candidate_exists[OF assms(1)] assms(2) by force
  then show False using select_next_some[OF assms(1)] assms(2) \<open>\<not> i < 8\<close> by (metis fst_conv mod_less_divisor option.inject zero_less_numeral)
qed

lemma iteration_fw:
  assumes "fw_inv s" and t_def: "t = mk_scheduler_run_iteration host (firmware_exec esp host hws) clk s"
  shows "fw_inv t \<and> settled_parts t = settled_parts s"
proof -
  have wf: "sched_wf s" "armed s" "tasks_known s" "apps_inv s" "\<not> fw_fault s" using assms(1) by (simp_all add: fw_inv_def)
  have w: "sched_wf t \<and> armed t" unfolding t_def by (rule iteration_wf[OF wf(1,2) quiet_firmware])
  have k: "tasks_known t"
  proof (cases "\<exists>j < 8. eligible (tick_of s) (tasks_of s ! j)")
    case False
    then show ?thesis using wf(3) iteration_idle(1)[OF wf(1)] by (auto simp: t_def tasks_known_def)
  next
    case True
    then obtain j where "j < 8" "eligible (tick_of s) (tasks_of s ! j)" by blast
    then obtain i where i: "i < 8" "tasks_of t
        = (tasks_of s)[i := leave_task (tick_of s) (duration_us clk) (enter_task (tick_of s) (tasks_of s ! i))]"
      unfolding t_def by (rule iteration_busy[OF wf(1,2) quiet_firmware])
    have "tasks_of s ! i \<in> set (tasks_of s)" using i(1) wf(1) by (simp add: sched_wf_def)
    then show ?thesis using wf(3) by (auto simp: i(2) tasks_known_def dest!: set_update_subset_insert[THEN subsetD])
  qed
  obtain sel c where sel: "mk_scheduler_select_next s = (sel, s\<lparr>sc_cursor := c\<rparr>)"
    using select_next_shape[of s] by (metis surjective_pairing)
  let ?s1 = "s\<lparr>sc_cursor := c\<rparr>"
  have "apps_inv t \<and> \<not> fw_fault t \<and> settled_parts t = settled_parts s"
  proof (cases "\<exists>i e. sel = Some i \<and> tcb_entry (tasks_of s ! i) = Some e")
    case False
    then have "t = (let s2 = mk_scheduler_tick ?s1
        in s2\<lparr>sc_kernel := (sc_kernel s2)\<lparr>k_scheduler_iterations := k_scheduler_iterations (sc_kernel s2) + 1\<rparr>\<rparr>)"
      using sel by (auto simp: t_def mk_scheduler_run_iteration_def Let_def split: option.split)
    then show ?thesis using wf by (simp add: Let_def)
  next
    case True
    then obtain i e where e: "sel = Some i" "tcb_entry (tasks_of s ! i) = Some e" by blast
    have "i < 8"
      using select_next_index[OF wf(1)] sel e(1) by simp
    then have "e \<in> known_entries" using wf(1,3) e(2) by (auto simp: tasks_known_def sched_wf_def)
    note r = run_task_ok[of ?s1 e, OF _ _ this refl, of host esp hws clk i]
    have "t = (let s2 = run_task host (firmware_exec esp host hws) clk i e ?s1
        in s2\<lparr>sc_kernel := (sc_kernel s2)\<lparr>k_scheduler_iterations := k_scheduler_iterations (sc_kernel s2) + 1\<rparr>\<rparr>)"
      using sel e by (simp add: t_def mk_scheduler_run_iteration_def Let_def)
    then show ?thesis using r wf by (simp add: Let_def)
  qed
  then show ?thesis using w k by (simp add: fw_inv_def)
qed

lemma iterations_fw:
  "fw_inv s \<Longrightarrow> fw_inv (run_iterations host (firmware_exec esp host hws) clks s)
     \<and> settled_parts (run_iterations host (firmware_exec esp host hws) clks s) = settled_parts s"
proof (induction clks arbitrary: s)
  case (Cons clk clks)
  then show ?case using iteration_fw[OF Cons.prems refl] by simp
qed simp

end
