(* ===== verification/Firmware_Boot.thy ===== *)
theory Firmware_Boot
  imports Firmware_Safety
begin

text \<open>
  The start-up of \<^verbatim>\<open>os/main/main.c\<close> from the state the C runtime leaves, and the main loop it enters.
\<close>

section \<open>Before main\<close>

definition pool_static :: "nat list \<Rightarrow> pool" where
  "pool_static bufs = \<lparr>pl_buffers = bufs, pl_mem = (\<lambda>_. \<lparr>pn_magic = 0, pn_class_idx = 0, pn_in_use = 0, pn_reserved = 0,
     pn_next_free = 0\<rparr>), pl_heads = replicate MK_POOL_CLASSES_COUNT 0, pl_stats = pool_stats_zero, pl_initialized = False\<rparr>"

text \<open>The arguments are the addresses the linker gave to the arena and to the buffers of the pools.\<close>

definition firmware_static :: "u32 \<Rightarrow> nat list \<Rightarrow> firmware" where
  "firmware_static arena bufs =
     sliver.extend (sliver_static arena)
       (firmware.fields (pool_static bufs) event_bus_static 0 False)"

section \<open>Registration\<close>

definition task_row :: "mk_tcb \<Rightarrow> mk_task_state \<times> mk_task_entry option \<times> u32 \<times> u8 \<times> u32 \<times> u32" where
  "task_row t = (tcb_state t, tcb_entry t, period_ticks t, tcb_priority t, next_run_tick t, deadline_miss_count t)"

definition task_rows :: "'a sched_scheme \<Rightarrow> (mk_task_state \<times> mk_task_entry option \<times> u32 \<times> u8 \<times> u32 \<times> u32) list" where
  "task_rows s = map task_row (tasks_of s)"

definition app_states :: "'a sched_scheme \<Rightarrow> mk_app_state list" where
  "app_states s = map app_state (k_apps (sc_kernel s))"

lemma register_rows:
  assumes "unat tid < 8"
  shows "task_rows (snd (mk_task_register host True tid name (Some e) ctx prio per s))
    = (task_rows s)[unat tid := (MK_TASK_STATE_READY, Some e, per, if MK_TASK_PRIO_LOWEST < prio then MK_TASK_PRIO_LOWEST else prio, tick_of s, 0)]"
  using assms by (simp add: task_rows_def task_row_def mk_task_register_def update_task_def MK_MAX_TASKS_def map_update Let_def)

lemma register_tick [simp]: "tick_of (snd (mk_task_register host True tid name (Some e) ctx prio per s)) = tick_of s"
  by (simp add: mk_task_register_def update_task_def Let_def)

lemma register_shape:
  assumes "unat tid < 8"
  shows "\<exists>ts. snd (mk_task_register host True tid name (Some e) ctx prio per s) = s\<lparr>sc_kernel := (sc_kernel s)\<lparr>k_tasks := ts\<rparr>\<rparr>"
  using assms by (simp add: mk_task_register_def update_task_def MK_MAX_TASKS_def Let_def) blast

definition five_rows :: "(mk_task_state \<times> mk_task_entry option \<times> u32 \<times> u8 \<times> u32 \<times> u32) list" where
  "five_rows =
     [(MK_TASK_STATE_READY, Some at_protocol_service_task, 1, 0, 0, 0), (MK_TASK_STATE_READY, Some at_ble_hid_task, 1, 2, 0, 0),
      (MK_TASK_STATE_READY, Some at_wifi_diagnostics_task, 5, 4, 0, 0), (MK_TASK_STATE_READY, Some at_network_diagnostics_task, 10, 6, 0, 0),
      (MK_TASK_STATE_READY, Some at_retro_games_task, 2, 7, 0, 0)]"

lemmas task_ids = TASK_ID_HOST_PROTO_def TASK_ID_BLE_HID_def TASK_ID_WIFI_DIAG_def TASK_ID_NET_DIAG_def TASK_ID_GAMES_def

lemma register_tasks_spec:
  assumes "task_rows s = rows" and "length rows = 8" and "on_time 10 s" and "tick_of s = 0"
  shows "\<exists>ts. register_tasks host s = s\<lparr>sc_kernel := (sc_kernel s)\<lparr>k_tasks := ts\<rparr>\<rparr>"
    and "task_rows (register_tasks host s) = five_rows @ drop 5 rows"
    and "on_time 10 (register_tasks host s)"
proof -
  have step: "\<exists>ts. snd (mk_task_register host True tid name (Some e) ctx prio per t) = s\<lparr>sc_kernel := (sc_kernel s)\<lparr>k_tasks := ts\<rparr>\<rparr>"
    if "\<exists>ts. t = s\<lparr>sc_kernel := (sc_kernel s)\<lparr>k_tasks := ts\<rparr>\<rparr>" "unat tid < 8" for tid name e ctx prio per t
    using that register_shape[OF that(2), of host name e ctx prio per t] by force
  have "\<exists>ts. s = s\<lparr>sc_kernel := (sc_kernel s)\<lparr>k_tasks := ts\<rparr>\<rparr>" by (intro exI[of _ "tasks_of s"]) simp
  then show "\<exists>ts. register_tasks host s = s\<lparr>sc_kernel := (sc_kernel s)\<lparr>k_tasks := ts\<rparr>\<rparr>"
    unfolding register_tasks_def Let_def by (intro step) (simp_all add: task_ids)
  show "on_time 10 (register_tasks host s)"
    unfolding register_tasks_def Let_def using assms(3) by (intro register_on_time) simp_all
  obtain a b c d e rest where r: "rows = a # b # c # d # e # rest" using assms(2) by (auto simp: numeral_eq_Suc length_Suc_conv)
  show "task_rows (register_tasks host s) = five_rows @ drop 5 rows"
    by (simp add: register_tasks_def Let_def register_rows task_ids assms(1,4) r five_rows_def MK_TASK_PRIO_HIGHEST_def
        MK_TASK_PRIO_HIGH_def MK_TASK_PRIO_MEDIUM_def MK_TASK_PRIO_LOW_def MK_TASK_PRIO_LOWEST_def)
qed

lemma register_app_spec:
  assumes "aid \<noteq> MK_APP_COUNT" and "unat tid < 8" and "length (k_apps (sc_kernel s)) = 4"
  shows "\<exists>as. snd (mk_kernel_register_app host aid name tid s) = s\<lparr>sc_kernel := (sc_kernel s)\<lparr>k_apps := as\<rparr>\<rparr>"
    and "app_states (snd (mk_kernel_register_app host aid name tid s)) = (app_states s)[app_id_ord aid := MK_APP_STATE_INIT]"
  using assms app_id_ord_less[OF assms(1)]
  by (auto simp: mk_kernel_register_app_def kern_app_transition_def app_transition_cases MK_MAX_TASKS_def app_states_def
      map_update Let_def)

lemma app_ready_spec:
  assumes "aid \<noteq> MK_APP_COUNT" and "app_states s ! app_id_ord aid = MK_APP_STATE_INIT" and "length (k_apps (sc_kernel s)) = 4"
  shows "\<exists>as. snd (kern_app_transition host aid MK_APP_STATE_READY s) = s\<lparr>sc_kernel := (sc_kernel s)\<lparr>k_apps := as\<rparr>\<rparr>"
    and "app_states (snd (kern_app_transition host aid MK_APP_STATE_READY s)) = (app_states s)[app_id_ord aid := MK_APP_STATE_READY]"
  using assms app_id_ord_less[OF assms(1)]
  by (auto simp: kern_app_transition_def app_transition_cases app_states_def map_update)

lemma length_app_states [simp]: "length (app_states s) = length (k_apps (sc_kernel s))"
  by (simp add: app_states_def)

lemma register_apps_spec:
  assumes "length (k_apps (sc_kernel s)) = 4"
  shows "\<exists>as. register_apps host s = s\<lparr>sc_kernel := (sc_kernel s)\<lparr>k_apps := as\<rparr>\<rparr>"
    and "app_states (register_apps host s) = replicate 4 MK_APP_STATE_INIT"
proof -
  let ?reg = "\<lambda>aid name tid s. snd (mk_kernel_register_app host aid (Some name) tid s)"
  have len: "length (k_apps (sc_kernel (?reg aid name tid t))) = 4"
    if "aid \<noteq> MK_APP_COUNT" "unat tid < 8" "length (k_apps (sc_kernel t)) = 4" for aid name tid and t :: "'b kern_scheme"
    using register_app_spec(2)[OF that, of host "Some name", THEN arg_cong, of length] that(3) by simp
  have step: "\<exists>as. ?reg aid name tid t = s\<lparr>sc_kernel := (sc_kernel s)\<lparr>k_apps := as\<rparr>\<rparr>"
    if "\<exists>as. t = s\<lparr>sc_kernel := (sc_kernel s)\<lparr>k_apps := as\<rparr>\<rparr>" "aid \<noteq> MK_APP_COUNT" "unat tid < 8" "length (k_apps (sc_kernel t)) = 4"
    for aid name tid t
    using that(1) register_app_spec(1)[OF that(2-4), of host "Some name"] by force
  have "\<exists>as. s = s\<lparr>sc_kernel := (sc_kernel s)\<lparr>k_apps := as\<rparr>\<rparr>" by (intro exI[of _ "k_apps (sc_kernel s)"]) simp
  then show "\<exists>as. register_apps host s = s\<lparr>sc_kernel := (sc_kernel s)\<lparr>k_apps := as\<rparr>\<rparr>"
    unfolding register_apps_def Let_def by (intro step) (simp_all add: task_ids len assms)
  obtain a b c d where r: "app_states s = [a, b, c, d]"
    using assms length_app_states[of s] by (auto simp: numeral_eq_Suc length_Suc_conv simp del: length_app_states)
  let ?s1 = "?reg MK_APP_BLE_HID ''BLE_HID'' TASK_ID_BLE_HID s"
  let ?s2 = "?reg MK_APP_WIFI_DIAGNOSTICS ''WIFI_DIAG'' TASK_ID_WIFI_DIAG ?s1"
  let ?s3 = "?reg MK_APP_NETWORK_DIAGNOSTICS ''NET_DIAG'' TASK_ID_NET_DIAG ?s2"
  have l: "length (k_apps (sc_kernel ?s1)) = 4" "length (k_apps (sc_kernel ?s2)) = 4" "length (k_apps (sc_kernel ?s3)) = 4"
    by (simp_all add: len assms task_ids)
  show "app_states (register_apps host s) = replicate 4 MK_APP_STATE_INIT"
    unfolding register_apps_def Let_def using l
    by (simp add: register_app_spec(2) task_ids assms) (simp add: r numeral_eq_Suc)
qed

lemma apps_ready_spec:
  assumes "app_states s = replicate 4 MK_APP_STATE_INIT"
  shows "\<exists>as. apps_ready host s = s\<lparr>sc_kernel := (sc_kernel s)\<lparr>k_apps := as\<rparr>\<rparr>"
    and "app_states (apps_ready host s) = replicate 4 MK_APP_STATE_READY"
proof -
  let ?go = "\<lambda>aid s. snd (kern_app_transition host aid MK_APP_STATE_READY s)"
  have l: "length (k_apps (sc_kernel t)) = length (app_states t)" for t :: "'a sched_scheme" by simp
  have s0: "app_states s = [MK_APP_STATE_INIT, MK_APP_STATE_INIT, MK_APP_STATE_INIT, MK_APP_STATE_INIT]"
    using assms by (simp add: numeral_eq_Suc)
  let ?s1 = "?go MK_APP_BLE_HID s" let ?s2 = "?go MK_APP_WIFI_DIAGNOSTICS ?s1" let ?s3 = "?go MK_APP_NETWORK_DIAGNOSTICS ?s2"
  let ?s4 = "?go MK_APP_RETRO_GAMES ?s3"
  have r: "apps_ready host s = ?s4" by (simp add: apps_ready_def)
  have s1: "app_states ?s1 = [MK_APP_STATE_READY, MK_APP_STATE_INIT, MK_APP_STATE_INIT, MK_APP_STATE_INIT]"
    by (subst app_ready_spec(2)) (simp_all only: l, simp_all add: s0)
  have s2: "app_states ?s2 = [MK_APP_STATE_READY, MK_APP_STATE_READY, MK_APP_STATE_INIT, MK_APP_STATE_INIT]"
    by (subst app_ready_spec(2)) (simp_all only: l, simp_all add: s1)
  have s3: "app_states ?s3 = [MK_APP_STATE_READY, MK_APP_STATE_READY, MK_APP_STATE_READY, MK_APP_STATE_INIT]"
    by (subst app_ready_spec(2)) (simp_all only: l, simp_all add: s2)
  show "app_states (apps_ready host s) = replicate 4 MK_APP_STATE_READY"
    unfolding r by (subst app_ready_spec(2)) (simp_all only: l, simp_all add: s3 numeral_eq_Suc)
  have step: "\<exists>as. ?go aid t = s\<lparr>sc_kernel := (sc_kernel s)\<lparr>k_apps := as\<rparr>\<rparr>"
    if "\<exists>as. t = s\<lparr>sc_kernel := (sc_kernel s)\<lparr>k_apps := as\<rparr>\<rparr>" "aid \<noteq> MK_APP_COUNT"
      "app_states t ! app_id_ord aid = MK_APP_STATE_INIT" "length (k_apps (sc_kernel t)) = 4" for aid t
    using that(1) app_ready_spec(1)[OF that(2-4), of host] by force
  have "\<exists>as. s = s\<lparr>sc_kernel := (sc_kernel s)\<lparr>k_apps := as\<rparr>\<rparr>" by (intro exI[of _ "k_apps (sc_kernel s)"]) simp
  then show "\<exists>as. apps_ready host s = s\<lparr>sc_kernel := (sc_kernel s)\<lparr>k_apps := as\<rparr>\<rparr>"
    unfolding r by (intro step) (simp_all only: l s0 s1 s2 s3, simp_all)
qed

section \<open>The layers below\<close>

lemma boot_hal_spec:
  assumes "wifi_inv (sl_wifi s)" and "fault_inv (sc_fm s)" and "fm_initialized (sc_fm s)" and "fm_total_faults (sc_fm s) = 0"
  shows "\<exists>g w b fm. snd (boot_hal host wifi_ok ble_ok s) = s\<lparr>sl_games := g, sl_wifi := w, sl_ble := b, sc_fm := fm\<rparr>
    \<and> games_ok g \<and> wifi_inv w \<and> \<not> bl_connected b \<and> fault_inv fm \<and> fm_total_faults fm = (if wifi_ok then 0 else 1) + (if ble_ok then 0 else 1)"
proof -
  obtain h fm where h: "hal_init wifi_ok ble_ok (sc_now host s) (\<lparr>h_gpio = snd (ga_input (sl_games s)), h_wifi = sl_wifi s, h_ble = sl_ble s\<rparr>, sc_fm s)
      = (MK_STATUS_OK, h, fm)" and r: "length (gp_debounce_tbl (h_gpio h)) = 32" "h_wifi h = snd (hal_wifi_init wifi_ok (sl_wifi s))" "\<not> bl_connected (h_ble h)"
    "fault_inv fm" "fm_total_faults fm = (if wifi_ok then 0 else 1) + (if ble_ok then 0 else 1)"
    using assms fault_inv_record
    by (auto simp: hal_init_def hal_timer_init_def hal_gpio_init_def hal_ble_init_def MAX_DEBOUNCE_PINS_def Let_def fm_total_record
        hal_wifi_init_def split: if_splits)
  show ?thesis unfolding boot_hal_def h prod.case snd_conv
    by (intro exI conjI, rule refl) (use r wifi_inv_init[OF assms(1), of wifi_ok] in \<open>simp_all add: games_ok_def\<close>)
qed

lemma boot_vfs_spec:
  assumes "crc_table_ok (v_blk (sl_vfs s))"
  shows "\<exists>v. snd (boot_vfs host s) = s\<lparr>sl_vfs := v\<rparr> \<and> log_inv audit_file v \<and> held (- 1) v"
proof -
  obtain v where v: "vfs_init (sc_now host s) (sl_vfs s, sc_fm s) = (MK_STATUS_OK, v, sc_fm s)" "log_inv audit_file v"
    using vfs_init_log[OF assms] by blast
  have "v_files v = replicate 8 file_desc_zero"
    using vfs_init_ok[OF assms, of "sc_now host s" "sc_fm s"] v(1) by auto
  then have "held (- 1) v" by (simp add: held_def file_desc_zero_def numeral_eq_Suc upt_rec)
  then show ?thesis using v by (intro exI[of _ v]) (simp add: boot_vfs_def)
qed

lemma protocol_init_spec:
  assumes "mock_inv (pr_mock_rx (sl_proto s))" and "mock_inv (pr_mock_tx (sl_proto s))"
  shows "\<exists>p. snd (protocol_service_init s) = s\<lparr>sl_proto := p\<rparr> \<and> proto_inv p"
  unfolding protocol_service_init_def set_proto_def snd_conv
  by (intro exI conjI, rule refl) (use assms in \<open>simp add: proto_inv_def mock_inv_def slvr_parser_init_def
      parser_inv_def slvr_frame_zero_def SLVR_MAX_PAYLOAD_LEN_def\<close>)

lemma init_apps_spec:
  assumes "games_ok (sl_games s)"
  shows "\<exists>a d n g. init_apps s = s\<lparr>sl_ble_app := a, sl_wifi_diag := d, sl_net_diag := n, sl_games := g\<rparr>
    \<and> ba_state a = BLE_APP_STATE_WAIT_CONNECTION \<and> ba_macro_fd a = - 1 \<and> stats_ok (wd_stats d) \<and> report_ok (nd_report n) \<and> games_ok g"
proof -
  have r: "report_ok (nd_report (snd (network_diagnostics_init n)))" for n
    unfolding network_diagnostics_init_def snd_conv by (intro set_target_ok) (simp add: report_ok_zero)
  show ?thesis unfolding init_apps_def
    by (intro exI conjI, rule refl) (simp_all add: r ble_hid_init_def wifi_diagnostics_init_def stats_ok_def
        wifi_diag_stats_zero_def games_ok_def retro_games_init_def input_init_def hal_gpio_init_def MAX_DEBOUNCE_PINS_def)
qed

lemma start_apps_spec:
  assumes "games_ok (sl_games s)" and "wifi_inv (sl_wifi s)" and "stats_ok (wd_stats (sl_wifi_diag s))"
    and "ba_state (sl_ble_app s) = BLE_APP_STATE_WAIT_CONNECTION"
  shows "\<exists>a b d w g. start_apps sniff_ok s = s\<lparr>sl_ble_app := a, sl_ble := b, sl_wifi_diag := d, sl_wifi := w, sl_games := g\<rparr>
    \<and> ba_state a = BLE_APP_STATE_WAIT_CONNECTION \<and> ba_macro_fd a = ba_macro_fd (sl_ble_app s) \<and> stats_ok (wd_stats d)
    \<and> wifi_inv w \<and> games_ok g \<and> bl_connected b = bl_connected (sl_ble s)"
proof -
  obtain st a b where b: "ble_hid_start (sl_ble_app s, sl_ble s) = (st, a, b)" by (metis surj_pair)
  obtain st' d w where d: "wifi_diagnostics_start sniff_ok (sl_wifi_diag s, sl_wifi s) = (st', d, w)" by (metis surj_pair)
  have "ba_state a = BLE_APP_STATE_WAIT_CONNECTION" "ba_macro_fd a = ba_macro_fd (sl_ble_app s)"
    "bl_connected b = bl_connected (sl_ble s)"
    using b assms(4) by (auto simp: ble_hid_start_def hal_ble_start_advertising_def split: prod.splits if_splits)
  moreover have "stats_ok (wd_stats d)" "wifi_inv w"
    using d assms(2,3) by (auto simp: wifi_diagnostics_start_def hal_wifi_start_promiscuous_def wifi_inv_def Let_def split: if_splits)
  moreover have "games_ok (snd (retro_games_start (sl_games s)))"
    using assms(1) by (simp add: retro_games_start_def games_ok_def)
  ultimately show ?thesis unfolding start_apps_def b d prod.case by blast
qed

lemma kernel_init_spec:
  assumes "kn_booted s" and "k_state (sc_kernel s) = MK_KERNEL_STATE_INIT"
  shows "\<exists>k. mk_kernel_init s = (MK_STATUS_OK, s\<lparr>sc_kernel := k, sc_cursor := 0\<rparr>) \<and> k_state k = MK_KERNEL_STATE_INIT
    \<and> k_tick k = tick_of s \<and> length (k_apps k) = 4 \<and> on_time 10 (s\<lparr>sc_kernel := k, sc_cursor := 0\<rparr>)
    \<and> task_rows (s\<lparr>sc_kernel := k, sc_cursor := 0\<rparr>) = replicate 8 (MK_TASK_STATE_UNUSED, None, 0, MK_TASK_PRIO_LOWEST, 0, 0)"
proof -
  let ?apps = "map (\<lambda>i. (k_apps (sc_kernel s) ! i)\<lparr>app_id := app_id_of i, app_state := MK_APP_STATE_OFF,
      app_task_id := 0, app_name := Some ''unregistered'', runs_completed := 0, error_count := 0\<rparr>) [0..<app_id_ord MK_APP_COUNT]"
  let ?s1 = "s\<lparr>sc_kernel := (sc_kernel s)\<lparr>k_apps := ?apps\<rparr>\<rparr>"
  have i: "mk_kernel_init s = mk_scheduler_init True ?s1" using assms by (simp add: mk_kernel_init_def)
  obtain k where e: "mk_scheduler_init True ?s1 = (MK_STATUS_OK, s\<lparr>sc_kernel := k, sc_cursor := 0\<rparr>)"
    and k: "k = (sc_kernel s)\<lparr>k_apps := ?apps, k_tasks := map (\<lambda>i. mk_tcb_zero\<lparr>tcb_id := of_nat i, tcb_state := MK_TASK_STATE_UNUSED,
                tcb_priority := MK_TASK_PRIO_LOWEST, max_execution_us := MK_TASK_EXEC_BUDGET_US\<rparr>) [0..<MK_MAX_TASKS],
              k_scheduler_iterations := 0\<rparr>"
    by (simp add: mk_scheduler_init_def)
  have "k_state k = MK_KERNEL_STATE_INIT" "k_tick k = tick_of s" "length (k_apps k) = 4" using assms(2) by (simp_all add: k)
  moreover have "task_rows (s\<lparr>sc_kernel := k, sc_cursor := 0\<rparr>) = replicate 8 (MK_TASK_STATE_UNUSED, None, 0, MK_TASK_PRIO_LOWEST, 0, 0)"
    by (simp add: k task_rows_def task_row_def MK_MAX_TASKS_def mk_tcb_zero_def comp_def map_replicate_const)
  moreover have "on_time 10 (s\<lparr>sc_kernel := k, sc_cursor := 0\<rparr>)" using init_on_time[of 10 ?s1] unfolding e by simp
  ultimately show ?thesis unfolding i e by blast
qed

lemma on_time_same:
  "tasks_of t = tasks_of s \<Longrightarrow> tick_of t = tick_of s \<Longrightarrow> sc_cursor t = sc_cursor s \<Longrightarrow> on_time P t = on_time P s"
  by (simp add: on_time_def sched_wf_def armed_def)

lemma rows_known:
  assumes "task_rows s = five_rows @ replicate 3 (MK_TASK_STATE_UNUSED, None, 0, MK_TASK_PRIO_LOWEST, 0, 0)"
  shows "tasks_known s"
proof -
  have r: "(\<lambda>r. fst (snd r)) ` set (task_rows s) = insert None (Some ` known_entries)"
    unfolding assms five_rows_def known_entries_def by auto
  have "tcb_entry t \<in> (\<lambda>r. fst (snd r)) ` set (task_rows s)" if "t \<in> set (tasks_of s)" for t
    using that by (auto simp: task_rows_def image_image task_row_def)
  then show ?thesis unfolding r tasks_known_def by fastforce
qed

text \<open>What the C runtime leaves, or any other state as good\<close>

definition cold :: "firmware \<Rightarrow> bool" where
  "cold s \<longleftrightarrow> crc_table_ok (v_blk (sl_vfs s)) \<and> wifi_inv (sl_wifi s) \<and> mock_inv (pr_mock_rx (sl_proto s))
     \<and> mock_inv (pr_mock_tx (sl_proto s)) \<and> \<not> fw_fault s"

lemma cold_static: "cold (firmware_static arena bufs)"
  using wifi_inv_static proto_static_ready
  by (simp add: cold_def firmware_static_def sliver_static_def sliver.defs firmware.defs crc_table_ok_def vfs_static_def vblock_static_def)

text \<open>The state before the applications are set up\<close>

definition platform_up :: "firmware \<Rightarrow> bool" where
  "platform_up s \<longleftrightarrow> k_state (sc_kernel s) = MK_KERNEL_STATE_INIT \<and> tick_of s = 0 \<and> length (k_apps (sc_kernel s)) = 4
     \<and> on_time 10 s \<and> task_rows s = replicate 8 (MK_TASK_STATE_UNUSED, None, 0, MK_TASK_PRIO_LOWEST, 0, 0)
     \<and> games_ok (sl_games s) \<and> wifi_inv (sl_wifi s) \<and> fault_inv (sc_fm s) \<and> proto_inv (sl_proto s)
     \<and> log_inv audit_file (sl_vfs s) \<and> held (- 1) (sl_vfs s) \<and> \<not> bl_connected (sl_ble s)
     \<and> \<not> fw_fault s"

definition boot_apps :: "bool \<Rightarrow> bool \<Rightarrow> firmware \<Rightarrow> firmware" where
  "boot_apps host sniff_ok s =
     apps_ready host (start_apps sniff_ok (register_tasks host (register_apps host (init_apps s))))"

lemma boot_platform:
  assumes "cold s0"
  shows "\<exists>s. boot_firmware host wifi_ok ble_ok sniff_ok s0
      = (case kern_transition host MK_KERNEL_STATE_READY (boot_apps host sniff_ok s) of (st, t) \<Rightarrow> (st = MK_STATUS_OK, t))
    \<and> platform_up s \<and> fm_total_faults (sc_fm s) = (if wifi_ok then 0 else 1) + (if ble_ok then 0 else 1)
    \<and> sl_mem s = snd (mk_memory_init (sl_mem s0)) \<and> fw_pool s = snd (mk_pool_init (fw_pool s0))
    \<and> fw_bus s = snd (mk_event_bus_init (fw_bus s0))"
proof -
  obtain m where m: "mk_memory_init (sl_mem s0) = (MK_STATUS_OK, m)" by (simp add: mk_memory_init_def Let_def)
  obtain p where p: "mk_pool_init (fw_pool s0) = (MK_STATUS_OK, p)" by (simp add: mk_pool_init_def)
  obtain b where b: "mk_event_bus_init (fw_bus s0) = (MK_STATUS_OK, b)" by (simp add: mk_event_bus_init_def)
  obtain fm where fm: "mk_fault_manager_init (sc_fm s0) = (MK_STATUS_OK, fm)" "fault_inv fm" "fm_initialized fm" "fm_total_faults fm = 0"
    using fault_inv_init[of "sc_fm s0"] by (simp add: mk_fault_manager_init_def)
  define s5 where "s5 = s0\<lparr>sc_kernel := mk_kernel_zero\<lparr>k_state := MK_KERNEL_STATE_INIT\<rparr>, kn_booted := True, sl_mem := m,
      fw_pool := p, sc_fm := fm, fw_bus := b\<rparr>"
  obtain k where k: "mk_kernel_init s5 = (MK_STATUS_OK, s5\<lparr>sc_kernel := k, sc_cursor := 0\<rparr>)" "k_state k = MK_KERNEL_STATE_INIT"
    "k_tick k = 0" "length (k_apps k) = 4" "on_time 10 (s5\<lparr>sc_kernel := k, sc_cursor := 0\<rparr>)"
    "task_rows (s5\<lparr>sc_kernel := k, sc_cursor := 0\<rparr>) = replicate 8 (MK_TASK_STATE_UNUSED, None, 0, MK_TASK_PRIO_LOWEST, 0, 0)"
    using kernel_init_spec[of s5] by (auto simp: mk_kernel_zero_def s5_def)
  define s6 where "s6 = s5\<lparr>sc_kernel := k, sc_cursor := 0\<rparr>"
  have c: "crc_table_ok (v_blk (sl_vfs s6))" "wifi_inv (sl_wifi s6)" "mock_inv (pr_mock_rx (sl_proto s6))"
    "mock_inv (pr_mock_tx (sl_proto s6))" "\<not> fw_fault s6" using assms by (simp_all add: cold_def s6_def s5_def)
  have f6: "fault_inv (sc_fm s6)" "fm_initialized (sc_fm s6)" "fm_total_faults (sc_fm s6) = 0" using fm by (simp_all add: s6_def s5_def)
  obtain g w bl f7 where s7: "snd (boot_hal host wifi_ok ble_ok s6) = s6\<lparr>sl_games := g, sl_wifi := w, sl_ble := bl, sc_fm := f7\<rparr>"
    and i7: "games_ok g" "wifi_inv w" "fault_inv f7" "fm_total_faults f7 = (if wifi_ok then 0 else 1) + (if ble_ok then 0 else 1)"
      "\<not> bl_connected bl"
    using boot_hal_spec[OF c(2) f6, of host wifi_ok ble_ok] by blast
  define s7 where "s7 = s6\<lparr>sl_games := g, sl_wifi := w, sl_ble := bl, sc_fm := f7\<rparr>"
  obtain v where s8: "snd (boot_vfs host s7) = s7\<lparr>sl_vfs := v\<rparr>" and i8: "log_inv audit_file v" "held (- 1) v"
    using boot_vfs_spec[of s7 host] c(1) by (auto simp: s7_def)
  define s8 where "s8 = s7\<lparr>sl_vfs := v\<rparr>"
  obtain pr where s9: "snd (protocol_service_init s8) = s8\<lparr>sl_proto := pr\<rparr>" and i9: "proto_inv pr"
    using protocol_init_spec[of s8] c(3,4) by (auto simp: s8_def s7_def)
  let ?s = "s8\<lparr>sl_proto := pr\<rparr>"
  have "boot_firmware host wifi_ok ble_ok sniff_ok s0
      = (case kern_transition host MK_KERNEL_STATE_READY (boot_apps host sniff_ok ?s) of (st, t) \<Rightarrow> (st = MK_STATUS_OK, t))"
    using kernel_boot_result[of host s0] m p fm(1) b k(1) s7 s8 s9
    by (simp add: boot_firmware_def boot_apps_def split_beta Let_def flip: s5_def s6_def s7_def s8_def)
  moreover have "on_time 10 ?s" using k(5) on_time_same[of ?s s6 10] by (simp add: s8_def s7_def s6_def)
  then have "platform_up ?s" using k(2-4,6) i7 i8 i9 c(5)
    by (simp add: platform_up_def s8_def s7_def s6_def task_rows_def)
  ultimately show ?thesis using i7(4) m p b
    by (intro exI[of _ ?s]) (simp add: s8_def s7_def s6_def s5_def)
qed

lemma boot_finish:
  assumes "platform_up s"
  shows "\<exists>t. kern_transition host MK_KERNEL_STATE_READY (boot_apps host sniff_ok s) = (MK_STATUS_OK, t) \<and> fw_inv t \<and> on_time 10 t
    \<and> k_state (sc_kernel t) = MK_KERNEL_STATE_READY \<and> tick_of t = 0 \<and> app_states t = replicate 4 MK_APP_STATE_READY
    \<and> task_rows t = five_rows @ replicate 3 (MK_TASK_STATE_UNUSED, None, 0, MK_TASK_PRIO_LOWEST, 0, 0)
    \<and> sc_fm t = sc_fm s \<and> sl_mem t = sl_mem s \<and> fw_pool t = fw_pool s \<and> fw_bus t = fw_bus s"
proof -
  let ?k = "sc_kernel s"
  have u: "k_state ?k = MK_KERNEL_STATE_INIT" "tick_of s = 0" "length (k_apps ?k) = 4" "on_time 10 s"
    "task_rows s = replicate 8 (MK_TASK_STATE_UNUSED, None, 0, MK_TASK_PRIO_LOWEST, 0, 0)"
    "games_ok (sl_games s)" "wifi_inv (sl_wifi s)" "fault_inv (sc_fm s)" "proto_inv (sl_proto s)"
    "log_inv audit_file (sl_vfs s)" "held (- 1) (sl_vfs s)" "\<not> fw_fault s" "\<not> bl_connected (sl_ble s)"
    using assms by (simp_all add: platform_up_def)
  obtain a d n g where s1: "init_apps s = s\<lparr>sl_ble_app := a, sl_wifi_diag := d, sl_net_diag := n, sl_games := g\<rparr>"
    and i1: "ba_state a = BLE_APP_STATE_WAIT_CONNECTION" "ba_macro_fd a = - 1" "stats_ok (wd_stats d)" "report_ok (nd_report n)" "games_ok g"
    using init_apps_spec[OF u(6)] by blast
  define s1 where "s1 = s\<lparr>sl_ble_app := a, sl_wifi_diag := d, sl_net_diag := n, sl_games := g\<rparr>"
  have l1: "length (k_apps (sc_kernel s1)) = 4" using u(3) by (simp add: s1_def)
  obtain as where s2: "register_apps host s1 = s1\<lparr>sc_kernel := (sc_kernel s1)\<lparr>k_apps := as\<rparr>\<rparr>"
    using register_apps_spec(1)[OF l1] by blast
  define s2 where "s2 = s1\<lparr>sc_kernel := (sc_kernel s1)\<lparr>k_apps := as\<rparr>\<rparr>"
  have a2: "app_states s2 = replicate 4 MK_APP_STATE_INIT" using register_apps_spec(2)[OF l1, of host] unfolding s2 s2_def .
  have t2: "task_rows s2 = replicate 8 (MK_TASK_STATE_UNUSED, None, 0, MK_TASK_PRIO_LOWEST, 0, 0)" "on_time 10 s2"
    "tick_of s2 = 0"
    using u(2,4,5) on_time_same[of s2 s 10] by (simp_all add: s2_def s1_def task_rows_def)
  note reg = register_tasks_spec[OF t2(1) length_replicate t2(2,3), of host]
  obtain ts where s3: "register_tasks host s2 = s2\<lparr>sc_kernel := (sc_kernel s2)\<lparr>k_tasks := ts\<rparr>\<rparr>" using reg(1) by blast
  define s3 where "s3 = s2\<lparr>sc_kernel := (sc_kernel s2)\<lparr>k_tasks := ts\<rparr>\<rparr>"
  have t3: "task_rows s3 = five_rows @ replicate 3 (MK_TASK_STATE_UNUSED, None, 0, MK_TASK_PRIO_LOWEST, 0, 0)" "on_time 10 s3"
    using reg(2,3) unfolding s3 s3_def by simp_all
  have i3: "games_ok (sl_games s3)" "wifi_inv (sl_wifi s3)" "stats_ok (wd_stats (sl_wifi_diag s3))"
    "ba_state (sl_ble_app s3) = BLE_APP_STATE_WAIT_CONNECTION" using i1 u(7) by (simp_all add: s3_def s2_def s1_def)
  obtain a2 b2 d2 w2 g2 where s4: "start_apps sniff_ok s3 = s3\<lparr>sl_ble_app := a2, sl_ble := b2, sl_wifi_diag := d2, sl_wifi := w2, sl_games := g2\<rparr>"
    and i4: "ba_state a2 = BLE_APP_STATE_WAIT_CONNECTION" "ba_macro_fd a2 = ba_macro_fd (sl_ble_app s3)" "stats_ok (wd_stats d2)"
      "wifi_inv w2" "games_ok g2" "bl_connected b2 = bl_connected (sl_ble s3)"
    using start_apps_spec[OF i3] by blast
  define s4 where "s4 = s3\<lparr>sl_ble_app := a2, sl_ble := b2, sl_wifi_diag := d2, sl_wifi := w2, sl_games := g2\<rparr>"
  have "app_states s4 = replicate 4 MK_APP_STATE_INIT" using a2 by (simp add: s4_def s3_def app_states_def)
  note rdy = apps_ready_spec[OF this, of host]
  obtain as5 where s5: "apps_ready host s4 = s4\<lparr>sc_kernel := (sc_kernel s4)\<lparr>k_apps := as5\<rparr>\<rparr>" using rdy(1) by blast
  define s5 where "s5 = s4\<lparr>sc_kernel := (sc_kernel s4)\<lparr>k_apps := as5\<rparr>\<rparr>"
  have a5: "app_states s5 = replicate 4 MK_APP_STATE_READY" using rdy(2) unfolding s5 s5_def .
  let ?t = "s5\<lparr>sc_kernel := (sc_kernel s5)\<lparr>k_state := MK_KERNEL_STATE_READY\<rparr>\<rparr>"
  have b: "boot_apps host sniff_ok s = s5"
    unfolding boot_apps_def s1 s1_def[symmetric] s2 s2_def[symmetric] s3 s3_def[symmetric] s4 s4_def[symmetric] s5 s5_def[symmetric] ..
  have k5: "k_state (sc_kernel s5) = MK_KERNEL_STATE_INIT" using u(1) by (simp add: s5_def s4_def s3_def s2_def s1_def)
  have tr: "kern_transition host MK_KERNEL_STATE_READY (boot_apps host sniff_ok s) = (MK_STATUS_OK, ?t)"
    unfolding b using k5 by (simp add: kern_transition_def kernel_transition_cases)
  have ot: "on_time 10 ?t" using on_time_same[of ?t s3 10] t3(2) by (simp add: s5_def s4_def)
  have rows: "task_rows ?t = five_rows @ replicate 3 (MK_TASK_STATE_UNUSED, None, 0, MK_TASK_PRIO_LOWEST, 0, 0)"
    using t3(1) by (simp add: s5_def s4_def task_rows_def)
  have "ba_macro_fd a2 = - 1" using i4(2) i1(2) by (simp add: s3_def s2_def s1_def)
  then have "macro_held a2 (sl_vfs s)" using i4(1) u(11) by (simp add: macro_held_def reading_state_def)
  moreover have "length as5 = 4" using a5 by (auto simp: app_states_def s5_def dest: arg_cong[where f = length])
  ultimately have "apps_inv ?t" using u i1 i4 by (simp add: apps_inv_def s5_def s4_def s3_def s2_def s1_def)
  then have "fw_inv ?t" using ot rows_known[OF rows] u(12) by (simp add: fw_inv_def on_time_def s5_def s4_def s3_def s2_def s1_def)
  moreover have "app_states ?t = replicate 4 MK_APP_STATE_READY" using a5 by (simp add: app_states_def)
  ultimately show ?thesis using tr ot rows u(2)
    by (intro exI[of _ ?t]) (simp add: s5_def s4_def s3_def s2_def s1_def)
qed

section \<open>How long a task waits\<close>

text \<open>No task sleeps longer than the longest period.\<close>

definition near :: "nat \<Rightarrow> 'a sched_scheme \<Rightarrow> bool" where
  "near P s \<longleftrightarrow> (\<forall>j < 8. scheduled (tasks_of s ! j) \<longrightarrow> unat (next_run_tick (tasks_of s ! j)) \<le> unat (tick_of s) + P)"

lemma iteration_near:
  assumes ot: "on_time P s" and "near P s" and q: "quiet exec" and room: "unat (tick_of s) + P + 1 < 2 ^ 32"
    and s'_def: "s' = mk_scheduler_run_iteration host exec clk s"
  shows "near P s'" and "map scheduled (tasks_of s') = map scheduled (tasks_of s)"
proof -
  have len: "length (tasks_of s) = 8" using ot by (simp add: on_time_def sched_wf_def)
  have "near P s' \<and> map scheduled (tasks_of s') = map scheduled (tasks_of s)"
  proof (cases "\<exists>j < 8. eligible (tick_of s) (tasks_of s ! j)")
    case False
    then have n: "\<forall>i < 8. \<not> eligible (tick_of s) (tasks_of s ! i)" by blast
    have r1: "unat (tick_of s) + 1 < 2 ^ 32" using room by simp
    note id = on_time_idle[OF ot n r1 s'_def]
    have at: "f (tasks_of s' ! j) = f (tasks_of s ! j)" if "map f (tasks_of s') = map f (tasks_of s)" "j < 8" for j and f :: "mk_tcb \<Rightarrow> 'b"
      using that len by (metis length_map nth_map)
    have "unat (tick_of s') = unat (tick_of s) + 1" using id(2) r1 by (simp add: unat_add_small)
    then show ?thesis using assms(2) at[OF id(5)] at[OF id(6)] id(6) by (fastforce simp: near_def)
  next
    case True
    then obtain j where j: "j < 8" "eligible (tick_of s) (tasks_of s ! j)" by blast
    have wf: "sched_wf s" "armed s" using ot by (simp_all add: on_time_def)
    obtain i where i: "i < 8" "candidate s i" and t: "tasks_of s'
        = (tasks_of s)[i := leave_task (tick_of s) (duration_us clk) (enter_task (tick_of s) (tasks_of s ! i))]"
      and k: "tick_of s' = tick_of s"
      unfolding s'_def by (rule iteration_busy[OF wf q j])
    have st: "tcb_state (tasks_of s ! i) = MK_TASK_STATE_READY" using i(2) by (simp add: candidate_def Let_def eligible_def)
    have "tasks_of s ! i \<in> set (tasks_of s)" using i(1) len by simp
    then have p: "unat (period_ticks (tasks_of s ! i)) \<le> P" using ot st by (auto simp: on_time_def scheduled_def)
    then have u: "unat (tick_of s + period_ticks (tasks_of s ! i)) \<le> unat (tick_of s) + P"
      using room by (simp add: unat_add_small)
    have "near P s'" using assms(2) i(1) len u k by (auto simp: near_def t nth_list_update leave_enter_schedule)
    moreover have "map scheduled (tasks_of s') = map scheduled (tasks_of s)"
      using i(1) len st by (auto simp: t map_update scheduled_def leave_enter_schedule list_update_same_conv)
    ultimately show ?thesis by blast
  qed
  then show "near P s'" "map scheduled (tasks_of s') = map scheduled (tasks_of s)" by blast+
qed

lemma iterations_near:
  assumes "quiet exec" and "0 < P"
  shows "on_time P s \<Longrightarrow> near P s \<Longrightarrow> unat (tick_of s) + length clks + P + 1 < 2 ^ 32 \<Longrightarrow>
    near P (run_iterations host exec clks s) \<and> map scheduled (tasks_of (run_iterations host exec clks s)) = map scheduled (tasks_of s)"
proof (induction clks arbitrary: s)
  case (Cons clk clks)
  define s' where "s' = mk_scheduler_run_iteration host exec clk s"
  have "unat (tick_of s) + P + 1 < 2 ^ 32" using Cons.prems(3) by simp
  note n = iteration_near[OF Cons.prems(1,2) assms(1) this s'_def]
  have "unat (tick_of s) + length [clk] + P < 2 ^ 32" using Cons.prems(3) by simp
  note o = iterations_on_time[OF Cons.prems(1) assms(1) this assms(2), of host, unfolded run_iterations.simps, folded s'_def]
  have "unat (tick_of s') + length clks + P + 1 < 2 ^ 32" using o Cons.prems(3) by simp
  then show ?case using Cons.IH[of s'] n o by (simp flip: s'_def)
qed simp

text \<open>Every task runs within nine iterations for each tick of the longest period, and eight more.\<close>

lemma near_runs:
  assumes "on_time P s" and "near P s" and "quiet exec" and j: "j < 8" "scheduled (tasks_of s ! j)"
    and "unat (tick_of s) + 2 * P < 2 ^ 32" and "0 < P" and "9 * P + 8 \<le> length clks"
  shows "\<exists>n \<le> 9 * P + 8. execution_count (tasks_of (run_iterations host exec (take n clks) s) ! j) = execution_count (tasks_of s ! j) + 1"
proof -
  let ?x = "tasks_of s ! j"
  have d: "unat (next_run_tick ?x) \<le> unat (tick_of s) + P" using assms(2) j by (simp add: near_def)
  moreover have "eligible_count s \<le> 8" using assms(1) by (simp add: on_time_def eligible_count_le)
  ultimately have w: "wait_bound j s \<le> 9 * P + 8" unfolding wait_bound_def by linarith
  have "unat (next_run_tick ?x) + P < 2 ^ 32" using d assms(6) by linarith
  from task_runs_within[OF assms(1,3) j this assms(7), of clks host] w assms(8) show ?thesis by (meson le_trans)
qed

section \<open>Properties\<close>

text \<open>The state the loop is entered with, and the state after the iterations \<open>clks\<close>\<close>

definition firmware_start :: "bool \<Rightarrow> bool \<Rightarrow> bool \<Rightarrow> bool \<Rightarrow> firmware \<Rightarrow> firmware" where
  "firmware_start host wifi_ok ble_ok sniff_ok s =
     snd (kern_transition host MK_KERNEL_STATE_RUNNING (snd (boot_firmware host wifi_ok ble_ok sniff_ok s)))"

definition firmware_after ::
  "bool \<Rightarrow> bool \<Rightarrow> bool \<Rightarrow> bool \<Rightarrow> bool \<Rightarrow> (nat \<Rightarrow> hardware) \<Rightarrow> (u64 \<times> u64) list \<Rightarrow> firmware \<Rightarrow> firmware" where
  "firmware_after esp host wifi_ok ble_ok sniff_ok hws clks s =
     run_iterations host (firmware_exec esp host hws) clks (firmware_start host wifi_ok ble_ok sniff_ok s)"

lemma start_spec:
  assumes "cold s0"
  shows "\<exists>s. boot_firmware host wifi_ok ble_ok sniff_ok s0 = (True, s)
    \<and> kern_transition host MK_KERNEL_STATE_RUNNING s = (MK_STATUS_OK, firmware_start host wifi_ok ble_ok sniff_ok s0)
    \<and> k_state (sc_kernel s) = MK_KERNEL_STATE_READY"
    and "fw_inv (firmware_start host wifi_ok ble_ok sniff_ok s0)" and "on_time 10 (firmware_start host wifi_ok ble_ok sniff_ok s0)"
    and "tick_of (firmware_start host wifi_ok ble_ok sniff_ok s0) = 0"
    and "task_rows (firmware_start host wifi_ok ble_ok sniff_ok s0) = five_rows @ replicate 3 (MK_TASK_STATE_UNUSED, None, 0, MK_TASK_PRIO_LOWEST, 0, 0)"
    and "settled_parts (firmware_start host wifi_ok ble_ok sniff_ok s0)
      = (MK_KERNEL_STATE_RUNNING, snd (mk_memory_init (sl_mem s0)), snd (mk_pool_init (fw_pool s0)), snd (mk_event_bus_init (fw_bus s0)))"
proof -
  obtain p where p: "boot_firmware host wifi_ok ble_ok sniff_ok s0
      = (case kern_transition host MK_KERNEL_STATE_READY (boot_apps host sniff_ok p) of (st, t) \<Rightarrow> (st = MK_STATUS_OK, t))"
    "platform_up p" "sl_mem p = snd (mk_memory_init (sl_mem s0))" "fw_pool p = snd (mk_pool_init (fw_pool s0))"
    "fw_bus p = snd (mk_event_bus_init (fw_bus s0))" using boot_platform[OF assms] by metis
  obtain s where s: "kern_transition host MK_KERNEL_STATE_READY (boot_apps host sniff_ok p) = (MK_STATUS_OK, s)" "fw_inv s" "on_time 10 s"
    "k_state (sc_kernel s) = MK_KERNEL_STATE_READY" "tick_of s = 0"
    "task_rows s = five_rows @ replicate 3 (MK_TASK_STATE_UNUSED, None, 0, MK_TASK_PRIO_LOWEST, 0, 0)"
    "sl_mem s = sl_mem p" "fw_pool s = fw_pool p" "fw_bus s = fw_bus p" using boot_finish[OF p(2), of host sniff_ok] by metis
  let ?t = "s\<lparr>sc_kernel := (sc_kernel s)\<lparr>k_state := MK_KERNEL_STATE_RUNNING\<rparr>\<rparr>"
  have b: "boot_firmware host wifi_ok ble_ok sniff_ok s0 = (True, s)" using p(1) s(1) by simp
  have t: "kern_transition host MK_KERNEL_STATE_RUNNING s = (MK_STATUS_OK, ?t)"
    using s(4) by (simp add: kern_transition_def kernel_transition_cases)
  have e: "firmware_start host wifi_ok ble_ok sniff_ok s0 = ?t" by (simp add: firmware_start_def b t)
  show "\<exists>s. boot_firmware host wifi_ok ble_ok sniff_ok s0 = (True, s)
    \<and> kern_transition host MK_KERNEL_STATE_RUNNING s = (MK_STATUS_OK, firmware_start host wifi_ok ble_ok sniff_ok s0)
    \<and> k_state (sc_kernel s) = MK_KERNEL_STATE_READY" unfolding e using b t s(4) by blast
  show "fw_inv (firmware_start host wifi_ok ble_ok sniff_ok s0)"
    using s(2) unfolding e by (simp add: fw_inv_def sched_wf_def armed_def tasks_known_def apps_inv_def)
  show "on_time 10 (firmware_start host wifi_ok ble_ok sniff_ok s0)" using on_time_same[of ?t s 10] s(3) unfolding e by simp
  show "tick_of (firmware_start host wifi_ok ble_ok sniff_ok s0) = 0"
    "task_rows (firmware_start host wifi_ok ble_ok sniff_ok s0) = five_rows @ replicate 3 (MK_TASK_STATE_UNUSED, None, 0, MK_TASK_PRIO_LOWEST, 0, 0)"
    "settled_parts (firmware_start host wifi_ok ble_ok sniff_ok s0)
      = (MK_KERNEL_STATE_RUNNING, snd (mk_memory_init (sl_mem s0)), snd (mk_pool_init (fw_pool s0)), snd (mk_event_bus_init (fw_bus s0)))"
    using s p unfolding e by (simp_all add: task_rows_def settled_parts_def)
qed



definition idle_hardware :: hardware where
  "idle_hardware = \<lparr>hw_host_reads = 0, hw_host_writes = [], hw_frames = [], hw_ms = 0,
     hw_net = (\<lambda>_ _. \<lparr>ta_socket = - 1, ta_connect = 0, ta_select = 0, ta_so_error = 0\<rparr>), hw_level = host_level, hw_clock = (\<lambda>_. 0)\<rparr>"

text \<open>C3. Until the tick wraps, no task of the running firmware has missed a deadline, and in every 98
  consecutive iterations of the executive each of the five tasks runs, however long the tasks take.\<close>

theorem firmware_schedule:
  assumes "length clks + 100 < 2 ^ 32" and "98 \<le> length next_clks" and "j < 5"
  shows "(\<exists>n \<le> 98.
      execution_count (tasks_of (firmware_after esp host wifi_ok ble_ok sniff_ok hws (clks @ take n next_clks) (firmware_static arena bufs)) ! j)
      = execution_count (tasks_of (firmware_after esp host wifi_ok ble_ok sniff_ok hws clks (firmware_static arena bufs)) ! j) + 1)
    \<and> map deadline_miss_count (tasks_of (firmware_after esp host wifi_ok ble_ok sniff_ok hws clks (firmware_static arena bufs)))
      = replicate 8 0"
proof -
  let ?cold = "firmware_static arena bufs" and ?x = "firmware_exec esp host hws"
  let ?s = "firmware_start host wifi_ok ble_ok sniff_ok ?cold"
  let ?t = "run_iterations host ?x clks ?s"
  note st = start_spec[OF cold_static, of host wifi_ok ble_ok sniff_ok arena bufs]
  have "map next_run_tick (tasks_of ?s) = map (\<lambda>r. fst (snd (snd (snd (snd r))))) (task_rows ?s)"
    "map deadline_miss_count (tasks_of ?s) = map (\<lambda>r. snd (snd (snd (snd (snd r))))) (task_rows ?s)"
    "map scheduled (tasks_of ?s) = map (\<lambda>r. fst r \<in> {MK_TASK_STATE_READY, MK_TASK_STATE_SLEEPING}) (task_rows ?s)"
    by (simp_all add: task_rows_def task_row_def scheduled_def)
  then have rows: "map next_run_tick (tasks_of ?s) = replicate 8 0" "map deadline_miss_count (tasks_of ?s) = replicate 8 0"
    "map scheduled (tasks_of ?s) = replicate 5 True @ replicate 3 False"
    unfolding st(5) by (simp_all add: five_rows_def numeral_eq_Suc)
  have len: "length (tasks_of ?s) = 8" using st(3) by (simp add: on_time_def sched_wf_def)
  have "next_run_tick (tasks_of ?s ! i) = 0" if "i < 8" for i
    using arg_cong[OF rows(1), of "\<lambda>xs. xs ! i"] that len by simp
  then have "near 10 ?s" by (simp add: near_def)
  then have n: "near 10 ?t" "map scheduled (tasks_of ?t) = replicate 5 True @ replicate 3 False"
    using iterations_near[OF quiet_firmware _ st(3), of clks host esp host hws] assms(1) rows(3) st(4) by simp_all
  have o: "on_time 10 ?t" "map deadline_miss_count (tasks_of ?t) = replicate 8 0" "unat (tick_of ?t) \<le> length clks"
    using iterations_on_time[OF st(3) quiet_firmware, of clks host esp host hws] assms(1) rows(2) st(4) by simp_all
  have "length (tasks_of ?t) = 8" using o(1) by (simp add: on_time_def sched_wf_def)
  then have "scheduled (tasks_of ?t ! j)"
    using arg_cong[OF n(2), of "\<lambda>xs. xs ! j"] assms(3) by (simp add: nth_append)
  then obtain m where "m \<le> 98" "execution_count (tasks_of (run_iterations host ?x (take m next_clks) ?t) ! j)
      = execution_count (tasks_of ?t ! j) + 1"
    using near_runs[OF o(1) n(1) quiet_firmware[of esp host hws], of j next_clks host] assms o(3) by auto
  then show ?thesis using o(2) by (auto simp: firmware_after_def run_iterations_append)
qed

text \<open>A thousand slow iterations, and the next hundred\<close>

theorem firmware_schedule_witness:
  "\<exists>n \<le> 98.
      execution_count (tasks_of (firmware_after False True True False True (\<lambda>_. idle_hardware) (replicate 1000 (0, 90000) @ take n (replicate 100 (0, 10)))
        (firmware_static 0x3FC80000 [])) ! 3)
      = execution_count (tasks_of (firmware_after False True True False True (\<lambda>_. idle_hardware) (replicate 1000 (0, 90000))
        (firmware_static 0x3FC80000 [])) ! 3) + 1"
  by (rule firmware_schedule[THEN conjunct1]) simp_all

end
