(* ===== verification/App_Interface.thy ===== *)
theory App_Interface
  imports Firmware_Boot
begin

text \<open>
  The table of entry points each application exports (\<^verbatim>\<open>mk_app_interface_t\<close> of \<^verbatim>\<open>os/kernel/kernel_types.h\<close>), the
  contract of an application behind such a table, and what follows for whoever drives the applications
  through their tables.
\<close>

section \<open>The tables\<close>

record 's mk_app_interface =
  ai_id :: mk_app_id
  ai_name :: string
  ai_init :: "'s \<Rightarrow> mk_status \<times> 's"
  ai_start :: "'s \<Rightarrow> mk_status \<times> 's"
  ai_tick :: "u32 \<Rightarrow> 's \<Rightarrow> 's option"
  ai_handle_event :: "mk_event option \<Rightarrow> 's \<Rightarrow> 's"
  ai_stop :: "'s \<Rightarrow> mk_status \<times> 's"
  ai_reset :: "'s \<Rightarrow> mk_status \<times> 's"

text \<open>An operation on the variables of one application, as an operation on all of them\<close>

definition on_ble :: "(ble_app \<times> ble \<times> vfs \<Rightarrow> mk_status \<times> ble_app \<times> ble \<times> vfs) \<Rightarrow> 'a sliver_scheme \<Rightarrow> mk_status \<times> 'a sliver_scheme" where
  "on_ble f s = (case f (sl_ble_app s, sl_ble s, sl_vfs s) of
     (st, a, b, v) \<Rightarrow> (st, s\<lparr>sl_ble_app := a, sl_ble := b, sl_vfs := v\<rparr>))"

definition on_wifi :: "(wifi_diag \<times> wifi \<Rightarrow> mk_status \<times> wifi_diag \<times> wifi) \<Rightarrow> 'a sliver_scheme \<Rightarrow> mk_status \<times> 'a sliver_scheme" where
  "on_wifi f s = (case f (sl_wifi_diag s, sl_wifi s) of (st, d, w) \<Rightarrow> (st, s\<lparr>sl_wifi_diag := d, sl_wifi := w\<rparr>))"

definition on_net :: "(net_diag \<Rightarrow> mk_status \<times> net_diag) \<Rightarrow> 'a sliver_scheme \<Rightarrow> mk_status \<times> 'a sliver_scheme" where
  "on_net f s = (case f (sl_net_diag s) of (st, d) \<Rightarrow> (st, s\<lparr>sl_net_diag := d\<rparr>))"

definition on_games :: "(games \<Rightarrow> mk_status \<times> games) \<Rightarrow> 'a sliver_scheme \<Rightarrow> mk_status \<times> 'a sliver_scheme" where
  "on_games f s = (case f (sl_games s) of (st, g) \<Rightarrow> (st, s\<lparr>sl_games := g\<rparr>))"

text \<open>The four tables. The arguments are what the drivers answer; a \<open>tick\<close> is the task of the application.\<close>

definition ble_hid_get_interface :: "bool \<Rightarrow> hardware \<Rightarrow> 'a sliver_scheme mk_app_interface" where
  "ble_hid_get_interface esp hw =
     \<lparr>ai_id = MK_APP_BLE_HID, ai_name = ''BLE_HID'',
      ai_init = on_ble (\<lambda>(a, b, v). case ble_hid_init a of (st, a1) \<Rightarrow> (st, a1, b, v)),
      ai_start = on_ble (\<lambda>(a, b, v). case ble_hid_start (a, b) of (st, a1, b1) \<Rightarrow> (st, a1, b1, v)),
      ai_tick = (\<lambda>context. call_task esp False hw at_ble_hid_task),
      ai_handle_event = (\<lambda>event s. s\<lparr>sl_ble_app := ble_hid_handle_event event (sl_ble_app s)\<rparr>),
      ai_stop = on_ble ble_hid_stop,
      ai_reset = on_ble (\<lambda>(a, b, v). case ble_hid_init a of (st, a1) \<Rightarrow> (st, a1, b, v))\<rparr>"

definition wifi_diagnostics_get_interface :: "bool \<Rightarrow> bool \<Rightarrow> hardware \<Rightarrow> 'a sliver_scheme mk_app_interface" where
  "wifi_diagnostics_get_interface esp sniff_ok hw =
     \<lparr>ai_id = MK_APP_WIFI_DIAGNOSTICS, ai_name = ''WIFI_DIAG'',
      ai_init = on_wifi (\<lambda>(d, w). case wifi_diagnostics_init d of (st, d1) \<Rightarrow> (st, d1, w)),
      ai_start = on_wifi (wifi_diagnostics_start sniff_ok),
      ai_tick = (\<lambda>context. call_task esp False hw at_wifi_diagnostics_task),
      ai_handle_event = (\<lambda>event s. s),
      ai_stop = on_wifi wifi_diagnostics_stop,
      ai_reset = on_wifi (\<lambda>(d, w). case wifi_diagnostics_init d of (st, d1) \<Rightarrow> (st, d1, w))\<rparr>"

definition network_diagnostics_get_interface :: "bool \<Rightarrow> hardware \<Rightarrow> 'a sliver_scheme mk_app_interface" where
  "network_diagnostics_get_interface esp hw =
     \<lparr>ai_id = MK_APP_NETWORK_DIAGNOSTICS, ai_name = ''NET_DIAG'',
      ai_init = on_net network_diagnostics_init, ai_start = on_net network_diagnostics_start,
      ai_tick = (\<lambda>context. call_task esp False hw at_network_diagnostics_task),
      ai_handle_event = (\<lambda>event s. s),
      ai_stop = on_net network_diagnostics_stop, ai_reset = on_net network_diagnostics_reset\<rparr>"

definition retro_games_get_interface :: "hardware \<Rightarrow> 'a sliver_scheme mk_app_interface" where
  "retro_games_get_interface hw =
     \<lparr>ai_id = MK_APP_RETRO_GAMES, ai_name = ''RETRO_GAMES'',
      ai_init = on_games retro_games_init, ai_start = on_games retro_games_start,
      ai_tick = (\<lambda>context. call_task False False hw at_retro_games_task),
      ai_handle_event = (\<lambda>event s. s),
      ai_stop = on_games retro_games_stop, ai_reset = on_games retro_games_reset\<rparr>"

section \<open>The contract\<close>

datatype app_call = App_Init | App_Start | App_Tick u32 | App_Event "mk_event option" | App_Stop | App_Reset

fun app_call_step :: "'s mk_app_interface \<Rightarrow> app_call \<Rightarrow> 's \<Rightarrow> 's option" where
  "app_call_step app App_Init s = Some (snd (ai_init app s))"
| "app_call_step app App_Start s = Some (snd (ai_start app s))"
| "app_call_step app (App_Tick context) s = ai_tick app context s"
| "app_call_step app (App_Event event) s = Some (ai_handle_event app event s)"
| "app_call_step app App_Stop s = Some (snd (ai_stop app s))"
| "app_call_step app App_Reset s = Some (snd (ai_reset app s))"

fun app_run :: "'s mk_app_interface \<Rightarrow> app_call list \<Rightarrow> 's \<Rightarrow> 's option" where
  "app_run app [] s = Some s"
| "app_run app (c # cs) s = Option.bind (app_call_step app c s) (app_run app cs)"

text \<open>An application keeps its invariant and leaves the rest of the system alone, whichever of its entry points is called;
  a stopped one rests: its ticks change nothing.\<close>

locale application =
  fixes app :: "'s mk_app_interface"
    and inv :: "'s \<Rightarrow> bool"
    and others :: "'s \<Rightarrow> 'o"
  assumes init_law: "inv s \<Longrightarrow> inv (snd (ai_init app s)) \<and> others (snd (ai_init app s)) = others s"
    and start_law: "inv s \<Longrightarrow> inv (snd (ai_start app s)) \<and> others (snd (ai_start app s)) = others s"
    and tick_law: "inv s \<Longrightarrow> \<exists>s'. ai_tick app context s = Some s' \<and> inv s' \<and> others s' = others s"
    and event_law: "inv s \<Longrightarrow> inv (ai_handle_event app event s) \<and> others (ai_handle_event app event s) = others s"
    and stop_law: "inv s \<Longrightarrow> inv (snd (ai_stop app s)) \<and> others (snd (ai_stop app s)) = others s"
    and reset_law: "inv s \<Longrightarrow> inv (snd (ai_reset app s)) \<and> others (snd (ai_reset app s)) = others s"

locale stoppable_application = application +
  assumes rest_law: "inv s \<Longrightarrow> ai_tick app context (snd (ai_stop app s)) = Some (snd (ai_stop app s))"

context application begin

lemma call_safe:
  assumes "inv s"
  shows "\<exists>s'. app_call_step app c s = Some s' \<and> inv s' \<and> others s' = others s"
  using assms init_law start_law tick_law event_law stop_law reset_law by (cases c) auto

lemma run_safe: "inv s \<Longrightarrow> \<exists>s'. app_run app cs s = Some s' \<and> inv s' \<and> others s' = others s"
proof (induction cs arbitrary: s)
  case (Cons c cs)
  obtain s1 where s1: "app_call_step app c s = Some s1" "inv s1" "others s1 = others s" using call_safe[OF Cons.prems] by blast
  then show ?case using Cons.IH[OF s1(2)] by simp
qed simp

end

context stoppable_application begin

lemma stopped_rests: "inv s \<Longrightarrow> app_run app (App_Stop # map App_Tick cs) s = Some (snd (ai_stop app s))"
proof -
  assume "inv s"
  then have "app_run app (map App_Tick cs) (snd (ai_stop app s)) = Some (snd (ai_stop app s))"
    by (induction cs) (simp_all add: rest_law)
  then show ?thesis by simp
qed

end

section \<open>The four applications keep it\<close>

text \<open>What the keyboard application relies on. A reset or a disconnect event forgets the macro file without
  closing it, so here, unlike in the running firmware, any descriptors may be open.\<close>

definition macro_live :: "ble_app \<Rightarrow> vfs \<Rightarrow> bool" where
  "macro_live a v \<longleftrightarrow> vfs_ok v \<and> (reading_state (ba_state a) \<longrightarrow>
     stream_inv (mp_src (ba_parser a), v) \<and> cs_fd (mp_src (ba_parser a)) = ba_macro_fd a)"

lemma macro_live_vfs_ok: "macro_live a v \<Longrightarrow> vfs_ok v"
  by (simp add: macro_live_def)

lemma macro_live_idle: "vfs_ok v \<Longrightarrow> \<not> reading_state (ba_state a) \<Longrightarrow> macro_live a v"
  by (simp add: macro_live_def)

lemma macro_live_frame:
  assumes "macro_live a v" and "vfs_ok w" and "opens w = opens v"
  shows "macro_live a w"
proof -
  have len: "length (v_files v) = 8" "length (v_files w) = 8" using assms(1,2) vfs_okD by (auto simp: macro_live_def)
  have "fd_is_open (v_files w ! nat fd)" if "fd_valid fd" "fd_is_open (v_files v ! nat fd)" for fd
    using that arg_cong[OF assms(3), of "\<lambda>xs. xs ! nat fd"] len by (auto simp: fd_valid_def VFS_MAX_OPEN_FILES_def nat_less_iff)
  then show ?thesis using assms(1,2) by (auto simp: macro_live_def stream_inv_def)
qed

lemma append_live:
  assumes "vfs_ok v" and "length (cstr e) + 4096 < 2 ^ 32"
  shows "\<exists>st w. vfs_log_append (Some f) (Some e) v = Some (st, w) \<and> vfs_ok w \<and> opens w = opens v"
proof -
  obtain st1 fd v1 where o: "vfs_open (Some f) (VFS_O_CREAT OR VFS_O_WRONLY OR VFS_O_APPEND) True v = ((st1, fd), v1)"
    by (metis surj_pair)
  then have v1: "vfs_ok v1" using vfs_ok_open[OF assms(1)] by (metis snd_conv)
  have "\<exists>r v2. vfs_write (the fd) (Some (bytes_of (cstr e))) True v1 = Some (r, v2) \<and> vfs_ok v2"
    by (rule vfs_write_step[OF v1]) (use assms(2) in \<open>simp add: bytes_of_def\<close>)
  then have "\<exists>st w. vfs_log_append (Some f) (Some e) v = Some (st, w) \<and> vfs_ok w"
    using o v1 vfs_ok_close by (auto simp: vfs_log_append_def)
  then show ?thesis using opens_append vfs_okD[OF assms(1)] by blast
qed

lemma parse_slice_live:
  assumes "macro_live a v" and "ba_state a = BLE_APP_STATE_PARSE"
  shows "\<exists>a' b' v'. parse_slice esp (a, b, v) = Some (a', b', v') \<and> macro_live a' v'"
proof -
  let ?fd = "ba_macro_fd a"
  have "reading ?fd v (mp_src (on_vfs v (ba_parser a)))"
    using assms by (simp add: macro_live_def reading_state_def reading_def on_vfs_def at_src_def)
  from next_event_reading[OF this] obtain st e q where
    q: "macro_parser_next_event get_next_char True (on_vfs v (ba_parser a)) = Some ((st, e), q)" "reading ?fd v (mp_src q)"
    by auto
  let ?a = "a\<lparr>ba_parser := off_vfs q\<rparr>" and ?v = "snd (mp_src q)"
  have l: "stream_inv (mp_src (off_vfs q), ?v)" "cs_fd (mp_src (off_vfs q)) = ?fd" "vfs_ok ?v"
    using q(2) by (auto simp: reading_def off_vfs_def at_src_def stream_inv_def)
  show ?thesis
  proof (cases "st \<noteq> MK_STATUS_OK \<or> me_type e = MACRO_CMD_EOF \<or> me_type e = MACRO_CMD_ERROR")
    case True
    then show ?thesis using q(1) l(3) vfs_ok_close[OF l(3)]
      by (auto simp: parse_slice_def close_macro_def Let_def macro_live_def reading_state_def)
  next
    case False
    then have "\<exists>a' b'. parse_slice esp (a, b, v) = Some (a', b', ?v) \<and> ba_macro_fd a' = ?fd \<and> ba_parser a' = off_vfs q"
      using q(1) assms(2) by (auto simp: parse_slice_def Let_def)
    then show ?thesis using l by (auto simp: macro_live_def)
  qed
qed

lemma ble_task_live:
  assumes "macro_live a v"
  shows "\<exists>a' b' v'. ble_hid_task esp (a, b, v) = Some (a', b', v') \<and> macro_live a' v'"
proof (cases "ba_state a")
  case BLE_APP_STATE_OPEN_FILE
  obtain st fd w where o: "vfs_open (Some ''macro.txt'') VFS_O_RDONLY True v = ((st, fd), w)" by (metis surj_pair)
  then have w: "vfs_ok w" using vfs_ok_open[OF macro_live_vfs_ok[OF assms]] by (metis snd_conv)
  show ?thesis
  proof (cases "st = MK_STATUS_OK")
    case False
    then show ?thesis using BLE_APP_STATE_OPEN_FILE o w
      by (auto simp: ble_hid_task_def macro_live_def reading_state_def)
  next
    case True
    then obtain i where i: "fd = Some (int i)" "i < 8" "opens w = (opens v)[i := True]" using opens_open[OF o] by auto
    have "length (v_files v) = 8" "length (v_files w) = 8" using assms w vfs_okD by (auto simp: macro_live_def)
    then have "fd_is_open (v_files w ! i)" using arg_cong[OF i(3), of "\<lambda>xs. xs ! i"] i(2) by simp
    then show ?thesis using BLE_APP_STATE_OPEN_FILE o True i w
      by (auto simp: ble_hid_task_def macro_parser_init_def macro_live_def reading_state_def stream_inv_def fd_valid_def
          VFS_MAX_OPEN_FILES_def MACRO_BUFFER_SIZE_def off_vfs_def at_src_def Let_def)
  qed
next
  case BLE_APP_STATE_PARSE
  then show ?thesis using parse_slice_live[OF assms BLE_APP_STATE_PARSE, of esp b] by (simp add: ble_hid_task_def)
qed (use assms in \<open>auto simp: ble_hid_task_def macro_live_def reading_state_def\<close>)

text \<open>The kernel, the scheduler, the memory managers, the event bus and the protocol service\<close>

definition rest_of :: "'a sliver_scheme \<Rightarrow> mk_kernel \<times> fault_manager \<times> u8 \<times> memory \<times> proto \<times> 'a" where
  "rest_of s = (sc_kernel s, sc_fm s, sc_cursor s, sl_mem s, sl_proto s, sliver.more s)"

definition life_inv :: "'a sliver_scheme \<Rightarrow> bool" where
  "life_inv s \<longleftrightarrow> macro_live (sl_ble_app s) (sl_vfs s) \<and> wifi_inv (sl_wifi s) \<and> stats_ok (wd_stats (sl_wifi_diag s))
     \<and> report_ok (nd_report (sl_net_diag s)) \<and> games_ok (sl_games s) \<and> \<not> bl_connected (sl_ble s)"

lemma audit_live:
  assumes "macro_live a v"
  shows "\<exists>st v'. vfs_log_append (Some audit_file) (Some (formatted 128 t)) v = Some (st, v') \<and> macro_live a v'"
proof -
  have "length (cstr (formatted 128 t)) + 4096 < 2 ^ 32"
    using length_formatted[of 128 t] length_cstr[of "formatted 128 t"] by simp
  from append_live[OF macro_live_vfs_ok[OF assms] this] obtain st w where
    "vfs_log_append (Some audit_file) (Some (formatted 128 t)) v = Some (st, w)" "vfs_ok w" "opens w = opens v" by blast
  then show ?thesis using macro_live_frame[OF assms] by blast
qed

lemmas entries = at_protocol_service_task_def at_ble_hid_task_def at_wifi_diagnostics_task_def
  at_network_diagnostics_task_def at_retro_games_task_def

lemma tick_live:
  assumes "life_inv s" and "e \<in> known_entries - {at_protocol_service_task}"
  shows "\<exists>s'. call_task esp host hw e s = Some s' \<and> life_inv s' \<and> rest_of s' = rest_of s"
proof -
  have l: "macro_live (sl_ble_app s) (sl_vfs s)" "wifi_inv (sl_wifi s)" "stats_ok (wd_stats (sl_wifi_diag s))"
    "report_ok (nd_report (sl_net_diag s))" "games_ok (sl_games s)" using assms(1) by (simp_all add: life_inv_def)
  consider "e = at_ble_hid_task" | "e = at_wifi_diagnostics_task" | "e = at_network_diagnostics_task" | "e = at_retro_games_task"
    using assms(2) by (auto simp: known_entries_def)
  then show ?thesis
  proof cases
    case 1
    obtain a b v where t: "ble_hid_task esp (sl_ble_app s, sl_ble s, sl_vfs s) = Some (a, b, v)" "macro_live a v"
      using ble_task_live[OF l(1)] by blast
    then show ?thesis using 1 ble_task_connected[OF t(1)] assms(1)
      by (simp add: call_task_def life_inv_def rest_of_def entries)
  next
    case 2
    then show ?thesis
      using wifi_task_keeps[where P = "macro_live (sl_ble_app s)", OF l(2,3,1) audit_live[OF l(1)], of esp "hw_ms hw" "tick_of s"] assms(1)
      by (auto simp: call_task_def life_inv_def rest_of_def mk_kernel_get_tick_def entries)
  next
    case 3
    then show ?thesis
      using net_task_keeps[where P = "macro_live (sl_ble_app s)", OF l(4,1) audit_live[OF l(1)], of esp "hw_net hw" "tick_of s"] assms(1)
      by (auto simp: call_task_def life_inv_def rest_of_def mk_kernel_get_tick_def entries)
  next
    case 4
    then show ?thesis using games_task_ok[OF l(5), of "hw_level hw" "hw_clock hw"] assms(1)
      by (auto simp: call_task_def life_inv_def rest_of_def entries)
  qed
qed

lemma ble_table_live:
  assumes "life_inv s"
  shows "life_inv (snd (on_ble (\<lambda>(a, b, v). case ble_hid_init a of (st, a1) \<Rightarrow> (st, a1, b, v)) s))"
    and "life_inv (snd (on_ble (\<lambda>(a, b, v). case ble_hid_start (a, b) of (st, a1, b1) \<Rightarrow> (st, a1, b1, v)) s))"
    and "life_inv (snd (on_ble ble_hid_stop s))"
    and "life_inv (s\<lparr>sl_ble_app := ble_hid_handle_event event (sl_ble_app s)\<rparr>)"
  using assms vfs_ok_close
  by (auto simp: on_ble_def ble_hid_init_def ble_hid_start_def ble_hid_stop_def close_macro_def ble_hid_handle_event_def
      hal_ble_start_advertising_def hal_ble_stop_advertising_def life_inv_def macro_live_def reading_state_def
      split: option.split)

lemma wifi_table_live:
  assumes "life_inv s"
  shows "life_inv (snd (on_wifi (\<lambda>(d, w). case wifi_diagnostics_init d of (st, d1) \<Rightarrow> (st, d1, w)) s))"
    and "life_inv (snd (on_wifi (wifi_diagnostics_start sniff_ok) s))"
    and "life_inv (snd (on_wifi wifi_diagnostics_stop s))"
  using assms
  by (auto simp: on_wifi_def wifi_diagnostics_init_def wifi_diagnostics_start_def wifi_diagnostics_stop_def life_inv_def
      hal_wifi_start_promiscuous_def hal_wifi_stop_promiscuous_def wifi_inv_def stats_ok_def wifi_diag_stats_zero_def Let_def
      split: prod.split)

lemma net_table_live:
  assumes "life_inv s"
  shows "life_inv (snd (on_net network_diagnostics_init s))" and "life_inv (snd (on_net network_diagnostics_start s))"
    and "life_inv (snd (on_net network_diagnostics_stop s))" and "life_inv (snd (on_net network_diagnostics_reset s))"
proof -
  have "report_ok (nd_report (snd (network_diagnostics_init n)))" for n
    unfolding network_diagnostics_init_def snd_conv by (intro set_target_ok) (simp add: report_ok_zero)
  then show "life_inv (snd (on_net network_diagnostics_init s))" "life_inv (snd (on_net network_diagnostics_start s))"
    "life_inv (snd (on_net network_diagnostics_stop s))" "life_inv (snd (on_net network_diagnostics_reset s))"
    using assms by (simp_all add: on_net_def network_diagnostics_start_def network_diagnostics_stop_def
        network_diagnostics_reset_def life_inv_def report_ok_def split_beta)
qed

lemma games_table_live:
  assumes "life_inv s"
  shows "life_inv (snd (on_games retro_games_init s))" and "life_inv (snd (on_games retro_games_start s))"
    and "life_inv (snd (on_games retro_games_stop s))" and "life_inv (snd (on_games retro_games_reset s))"
  using assms by (simp_all add: on_games_def retro_games_init_def retro_games_start_def retro_games_stop_def
      retro_games_reset_def life_inv_def games_ok_def input_init_def hal_gpio_init_def MAX_DEBOUNCE_PINS_def)

lemma rest_of_table [simp]:
  "rest_of (snd (on_ble f s)) = rest_of s" "rest_of (snd (on_wifi g s)) = rest_of s"
  "rest_of (snd (on_net h s)) = rest_of s" "rest_of (snd (on_games k s)) = rest_of s"
  "rest_of (s\<lparr>sl_ble_app := a\<rparr>) = rest_of s"
  by (simp_all add: rest_of_def on_ble_def on_wifi_def on_net_def on_games_def split: prod.split)

text \<open>After its stop operation a task finds nothing to do.\<close>

lemma ble_rests:
  "life_inv s \<Longrightarrow> call_task esp host hw at_ble_hid_task (snd (on_ble ble_hid_stop s)) = Some (snd (on_ble ble_hid_stop s))"
  by (simp add: call_task_def entries on_ble_def ble_hid_stop_def ble_hid_task_def hal_ble_is_connected_def
      hal_ble_stop_advertising_def life_inv_def split: prod.split)

lemma wifi_rests:
  "call_task esp host hw at_wifi_diagnostics_task (snd (on_wifi wifi_diagnostics_stop s)) = Some (snd (on_wifi wifi_diagnostics_stop s))"
  by (simp add: call_task_def entries on_wifi_def wifi_diagnostics_stop_def wifi_diagnostics_task_def split: prod.split)

lemma net_rests:
  "call_task esp host hw at_network_diagnostics_task (snd (on_net network_diagnostics_stop s)) = Some (snd (on_net network_diagnostics_stop s))"
  by (simp add: call_task_def entries on_net_def network_diagnostics_stop_def network_diagnostics_task_def)

lemma games_rest:
  "call_task esp host hw at_retro_games_task (snd (on_games retro_games_stop s)) = Some (snd (on_games retro_games_stop s))"
  by (simp add: call_task_def entries on_games_def retro_games_stop_def retro_games_task_def)

lemma app_entries:
  "at_ble_hid_task \<in> known_entries - {at_protocol_service_task}" "at_wifi_diagnostics_task \<in> known_entries - {at_protocol_service_task}"
  "at_network_diagnostics_task \<in> known_entries - {at_protocol_service_task}" "at_retro_games_task \<in> known_entries - {at_protocol_service_task}"
  by (simp_all add: known_entries_def entries)

lemmas table_defs = ble_hid_get_interface_def wifi_diagnostics_get_interface_def
  network_diagnostics_get_interface_def retro_games_get_interface_def

lemmas table_laws = ble_table_live wifi_table_live net_table_live games_table_live ble_rests wifi_rests net_rests games_rest
  app_entries[THEN tick_live[rotated]]

interpretation ble_app: stoppable_application "ble_hid_get_interface esp hw" life_inv rest_of for esp hw
  by unfold_locales (simp_all add: table_defs table_laws)

interpretation wifi_app: stoppable_application "wifi_diagnostics_get_interface esp sniff_ok hw" life_inv rest_of for esp sniff_ok hw
  by unfold_locales (simp_all add: table_defs table_laws)

interpretation net_app: stoppable_application "network_diagnostics_get_interface esp hw" life_inv rest_of for esp hw
  by unfold_locales (simp_all add: table_defs table_laws)

interpretation games_app: stoppable_application "retro_games_get_interface hw" life_inv rest_of for hw
  by unfold_locales (simp_all add: table_defs table_laws)

section \<open>Driving all four\<close>

definition app_tables :: "bool \<Rightarrow> bool \<Rightarrow> hardware \<Rightarrow> 'a sliver_scheme mk_app_interface list" where
  "app_tables esp sniff_ok hw =
     [ble_hid_get_interface esp hw, wifi_diagnostics_get_interface esp sniff_ok hw,
      network_diagnostics_get_interface esp hw, retro_games_get_interface hw]"

text \<open>Calls to the applications in any order, each with its own answers of the hardware\<close>

fun app_session :: "bool \<Rightarrow> (mk_app_id \<times> bool \<times> hardware \<times> app_call) list \<Rightarrow> 'a sliver_scheme \<Rightarrow> 'a sliver_scheme option" where
  "app_session esp [] s = Some s"
| "app_session esp ((aid, sniff_ok, hw, c) # cs) s =
     (case find (\<lambda>app. ai_id app = aid) (app_tables esp sniff_ok hw) of
        None \<Rightarrow> app_session esp cs s
      | Some app \<Rightarrow> Option.bind (app_call_step app c s) (app_session esp cs))"

lemma table_call_safe:
  assumes "life_inv s" and "app \<in> set (app_tables esp sniff_ok hw)"
  shows "\<exists>s'. app_call_step app c s = Some s' \<and> life_inv s' \<and> rest_of s' = rest_of s"
  using assms ble_app.call_safe wifi_app.call_safe net_app.call_safe games_app.call_safe
  by (auto simp: app_tables_def)

lemma session_safe:
  "life_inv s \<Longrightarrow> \<exists>s'. app_session esp cs s = Some s' \<and> life_inv s' \<and> rest_of s' = rest_of s"
proof (induction cs arbitrary: s)
  case (Cons x cs)
  obtain aid sniff_ok hw c where x: "x = (aid, sniff_ok, hw, c)" by (metis surj_pair)
  let ?f = "find (\<lambda>app. ai_id app = aid) (app_tables esp sniff_ok hw :: 'a sliver_scheme mk_app_interface list)"
  show ?case
  proof (cases ?f)
    case None
    then show ?thesis using Cons.IH[OF Cons.prems] by (simp add: x)
  next
    case (Some app)
    then have "app \<in> set (app_tables esp sniff_ok hw)" by (auto simp: find_Some_iff in_set_conv_nth)
    from table_call_safe[OF Cons.prems this] obtain s1 where
      s1: "app_call_step app c s = Some s1" "life_inv s1" "rest_of s1 = rest_of s" by blast
    then show ?thesis using Cons.IH[OF s1(2)] Some by (simp add: x)
  qed
qed simp

lemma fw_life: "fw_inv s \<Longrightarrow> life_inv s"
  by (simp add: fw_inv_def apps_inv_def life_inv_def macro_held_def macro_live_def log_inv_def store_ok_def)


text \<open>A connect event while the macro is being typed opens the file again; the first descriptor stays open and is forgotten.\<close>

lemma connect_leaks_descriptor:
  assumes "held (ba_macro_fd a) v" and "0 \<le> ba_macro_fd a" and "ev_type e = MK_EVENT_BLE_CONNECTED"
    and t: "ble_hid_task esp (ble_hid_handle_event (Some e) a, b, v) = Some (a', b', w)" and "ba_state a' = BLE_APP_STATE_PARSE"
  shows "ba_macro_fd a' \<noteq> ba_macro_fd a" and "opens w = (opens v)[nat (ba_macro_fd a') := True]"
proof -
  obtain st fd u where o: "vfs_open (Some ''macro.txt'') VFS_O_RDONLY True v = ((st, fd), u)" by (metis surj_pair)
  have st: "st = MK_STATUS_OK" "w = u" "ba_macro_fd a' = the fd"
    using t assms(3,5) o by (auto simp: ble_hid_task_def ble_hid_handle_event_def split: if_splits option.splits prod.splits)
  then obtain i where i: "fd = Some (int i)" "i < 8" "\<not> fd_is_open (v_files v ! i)" "opens u = (opens v)[i := True]"
    using opens_open[OF o] by auto
  then show "opens w = (opens v)[nat (ba_macro_fd a') := True]" using st by simp
  show "ba_macro_fd a' \<noteq> ba_macro_fd a" using held_nth[OF assms(1) i(2)] i(1,3) st(3) by auto
qed

end
